(* ===== verification/Prelude.thy ===== *)
theory Prelude
  imports Main "HOL-Library.Multiset" "HOL-Library.Sublist"
begin

text \<open>
  Shared vocabulary of the development: the values a JavaScript program can throw, the result
  type of a call that may throw, the collections of hints that the component theories extend,
  and generic facts on sorted lists, sublists and folds that several components use.
\<close>

section \<open>Errors as values\<close>

text \<open>
  \<open>Error m\<close> is \<open>new Error(m)\<close> thrown by the program, \<open>SyntaxError\<close> is what
  \<open>JSON.parse\<close> throws, \<open>TypeError\<close> is the read of a property of \<open>undefined\<close>,
  \<open>SystemError\<close> is a failed \<open>node:fs\<close> call with its error code, and \<open>IllTyped\<close>
  marks a value that does not have the TypeScript type the source asserts with \<open>as\<close>: the
  source performs no check there, so the model makes no statement about what follows. The few other
  values the model leaves out are marked the same way.
\<close>

datatype errno = ENOENT | EEXIST | EISDIR | ENOTDIR | EINVAL

datatype js_error =
    Error string
  | SyntaxError
  | TypeError
  | SystemError errno
  | IllTyped

type_synonym 'a result = "js_error + 'a"

definition result_bind :: "'a result \<Rightarrow> ('a \<Rightarrow> 'b result) \<Rightarrow> 'b result" where
  "result_bind r f = (case r of Inl e \<Rightarrow> Inl e | Inr x \<Rightarrow> f x)"

lemma result_bind_simps [simp]: "result_bind (Inl e) f = Inl e" "result_bind (Inr x) f = f x"
  by (simp_all add: result_bind_def)

text \<open>The first error stops a loop; otherwise the results are collected in order.\<close>

fun map_result :: "('a \<Rightarrow> 'b result) \<Rightarrow> 'a list \<Rightarrow> 'b list result" where
  "map_result f [] = Inr []"
| "map_result f (x # xs) =
     (case f x of
        Inl e \<Rightarrow> Inl e
      | Inr y \<Rightarrow> (case map_result f xs of Inl e \<Rightarrow> Inl e | Inr ys \<Rightarrow> Inr (y # ys)))"

lemma map_result_Inr_iff:
  "map_result f xs = Inr ys \<longleftrightarrow> list_all2 (\<lambda>x y. f x = Inr y) xs ys"
  by (induction xs arbitrary: ys) (auto simp: list_all2_Cons1 split: sum.splits, metis Inr_inject)

lemma map_result_total:
  "(\<And>x. x \<in> set xs \<Longrightarrow> f x = Inr (g x)) \<Longrightarrow> map_result f xs = Inr (map g xs)"
  by (induction xs) auto

section \<open>Collections of hints\<close>

named_theorems js_simps \<open>equations that evaluate the JavaScript library on closed values\<close>
named_theorems enum_simps \<open>membership and length facts of the enumeration\<close>

section \<open>Sorted lists\<close>

text \<open>A numeric \<open>sort\<close> of distinct values is determined by the set of the values.\<close>

lemma sorted_distinct_unique:
  fixes xs ys :: "'a::linorder list"
  assumes "sorted xs" "distinct xs" "sorted ys" "distinct ys" "set xs = set ys"
  shows "xs = ys"
  using assms by (metis sorted_distinct_set_unique)

lemma sort_eq_sorted_list_of_set:
  fixes xs :: "'a::linorder list"
  assumes "distinct xs"
  shows "sort xs = sorted_list_of_set (set xs)"
  using assms by (metis sorted_list_of_set_sort_remdups distinct_remdups_id)

lemma sort_append_same_set:
  fixes xs ys zs :: "'a::linorder list"
  assumes "distinct (xs @ ys)" "distinct (xs @ zs)" "set ys = set zs"
  shows "sort (xs @ ys) = sort (xs @ zs)"
  using assms by (intro sorted_distinct_unique) auto

text \<open>A sorted duplicate-free prefix is the part below its length, so it is downward closed.\<close>

lemma take_downward_closed:
  fixes xs :: "'a::linorder list"
  assumes "sorted xs" "x \<in> set (take n xs)" "y \<in> set xs" "y < x"
  shows "y \<in> set (take n xs)"
proof (rule ccontr)
  assume "y \<notin> set (take n xs)"
  with assms(3) have "y \<in> set (drop n xs)"
    by (metis Un_iff append_take_drop_id set_append)
  moreover have "sorted (take n xs @ drop n xs)"
    using assms(1) by simp
  ultimately have "x \<le> y"
    using assms(2) by (auto simp: sorted_append simp del: append_take_drop_id)
  with assms(4) show False by simp
qed

text \<open>Conversely a downward-closed sorted selection is a prefix.\<close>

lemma sorted_downward_prefix:
  fixes xs ys :: "'a::linorder list"
  assumes "sorted xs" "distinct xs" "sorted ys" "distinct ys" "set ys \<subseteq> set xs"
    and down: "\<forall>y\<in>set ys. \<forall>x\<in>set xs. x < y \<longrightarrow> x \<in> set ys"
  shows "ys = take (length ys) xs"
  using assms
proof (induction xs arbitrary: ys)
  case Nil
  then show ?case by simp
next
  case (Cons x xs)
  show ?case
  proof (cases ys)
    case Nil
    then show ?thesis by simp
  next
    case (Cons y zs)
    have "x \<in> set ys"
    proof (cases "x < y")
      case True
      then show ?thesis using Cons.prems(6) Cons by auto
    next
      case False
      with Cons.prems(1,5) Cons have "x = y" by fastforce
      with Cons show ?thesis by simp
    qed
    then have "x = y"
      using Cons.prems(1,3,5) Cons by fastforce
    moreover have "zs = take (length zs) xs"
    proof (rule Cons.IH)
      show "set zs \<subseteq> set xs"
        using Cons.prems(4,5) Cons \<open>x = y\<close> by auto
      show "\<forall>z\<in>set zs. \<forall>w\<in>set xs. w < z \<longrightarrow> w \<in> set zs"
        using Cons.prems(2,6) Cons \<open>x = y\<close> by auto
    qed (use Cons.prems Cons in auto)
    ultimately show ?thesis using Cons by simp
  qed
qed

lemma filter_upt_eq_sorted_list_of_set:
  "filter P [0..<n] = sorted_list_of_set {i. i < n \<and> P i}"
proof -
  have "sorted (filter P [0..<n])" "distinct (filter P [0..<n])"
    by (simp_all add: sorted_wrt_filter)
  then have "filter P [0..<n] = sorted_list_of_set (set (filter P [0..<n]))"
    by (simp add: sorted_distinct_unique)
  then show ?thesis by (simp add: conj_commute)
qed

text \<open>The last \<open>w\<close> entries of a sorted list are those with fewer than \<open>w\<close> larger ones.\<close>

lemma drop_last_iff:
  fixes xs :: "'a::linorder list"
  assumes "sorted xs" "distinct xs"
  shows "x \<in> set (drop (length xs - w) xs) \<longleftrightarrow> x \<in> set xs \<and> card {y \<in> set xs. x < y} < w"
proof (cases "x \<in> set xs")
  case True
  then obtain i where i: "i < length xs" "x = xs ! i" by (auto simp: in_set_conv_nth)
  have strict: "sorted_wrt (<) xs"
    using assms by (simp add: strict_sorted_iff)
  have "{y \<in> set xs. x < y} = set (drop (Suc i) xs)"
  proof (intro set_eqI iffI)
    fix y assume "y \<in> {y \<in> set xs. x < y}"
    then obtain k where k: "k < length xs" "y = xs ! k" "xs ! i < xs ! k"
      using i by (auto simp: in_set_conv_nth)
    then have "i < k"
      using assms(1) i by (meson leD leI sorted_nth_mono)
    then show "y \<in> set (drop (Suc i) xs)"
      using k by (auto simp: in_set_conv_nth intro!: exI [of _ "k - Suc i"])
  next
    fix y assume "y \<in> set (drop (Suc i) xs)"
    then obtain k where "k < length xs - Suc i" "y = xs ! (Suc i + k)"
      by (auto simp: in_set_conv_nth)
    then show "y \<in> {y \<in> set xs. x < y}"
      using i sorted_wrt_nth_less [OF strict, of i "Suc i + k"] by simp
  qed
  then have larger: "card {y \<in> set xs. x < y} = length xs - Suc i"
    using assms(2) by (simp add: distinct_card)
  have tail: "x \<in> set (drop n xs) \<longleftrightarrow> n \<le> i" for n
  proof
    assume "x \<in> set (drop n xs)"
    then obtain k where "k < length xs - n" "xs ! i = xs ! (n + k)"
      using i by (auto simp: in_set_conv_nth)
    then show "n \<le> i"
      using assms(2) i by (simp add: nth_eq_iff_index_eq)
  next
    assume "n \<le> i"
    then show "x \<in> set (drop n xs)"
      using i by (auto simp: in_set_conv_nth intro!: exI [of _ "i - n"])
  qed
  have "length xs - w \<le> i \<longleftrightarrow> length xs - Suc i < w"
    using i(1) by arith
  then show ?thesis
    unfolding larger tail using True by simp
qed (auto dest: in_set_dropD)

section \<open>Folds with boolean flags\<close>

text \<open>A loop that raises a flag when some element satisfies a condition.\<close>

lemma foldl_flag: "foldl (\<lambda>b x. b \<or> P x) b xs \<longleftrightarrow> b \<or> (\<exists>x\<in>set xs. P x)"
  by (induction xs arbitrary: b) auto

section \<open>Sums and counts\<close>

lemma sum_list_concat_length:
  "length (concat (map f xs)) = (\<Sum>x\<leftarrow>xs. length (f x))"
  by (induction xs) auto

lemma length_concat_le:
  assumes "\<And>x. x \<in> set xs \<Longrightarrow> length (f x) \<le> k"
  shows "length (concat (map f xs)) \<le> length xs * k"
  using assms by (induction xs) (auto simp: add_le_mono)

lemma concat_if_singleton:
  "concat (map (\<lambda>x. if P x then [f x] else []) xs) = map f (filter P xs)"
  by (induction xs) auto

lemma distinct_concat_map:
  assumes "distinct xs" "\<And>x. x \<in> set xs \<Longrightarrow> distinct (f x)"
    and "\<And>x y. x \<in> set xs \<Longrightarrow> y \<in> set xs \<Longrightarrow> x \<noteq> y \<Longrightarrow> set (f x) \<inter> set (f y) = {}"
  shows "distinct (concat (map f xs))"
  using assms
proof (induction xs)
  case Nil
  then show ?case by simp
next
  case (Cons x xs)
  have "set (f x) \<inter> set (f y) = {}" if "y \<in> set xs" for y
    using Cons.prems(1) that by (intro Cons.prems(3)) auto
  moreover have "distinct (concat (map f xs))"
    using Cons.prems by (intro Cons.IH) auto
  ultimately show ?case
    using Cons.prems(2) by auto
qed

lemma find_Some_in: "List.find P xs = Some x \<Longrightarrow> x \<in> set xs \<and> P x"
  by (auto simp: find_Some_iff)

end
