(* ===== verification/JsCollections.thy ===== *)
theory JsCollections
  imports Prelude "HOL-Library.AList"
begin

text \<open>
  The JavaScript collections the program keeps its state in. A \<open>Set\<close> and a \<open>Map\<close>
  iterate in insertion order, and writing to a key that is present keeps its position; the
  reported order of acknowledged operations, groups and findings depends on that. A \<open>Map\<close>
  is an association list without duplicate keys, a \<open>Set\<close> a list without duplicates. The
  locale \<open>ordered_map\<close> states what the clients rely on; the acknowledgement log, the
  sampler, the recovery report and the campaign are such clients.
\<close>

section \<open>Sets\<close>

definition set_add :: "'a \<Rightarrow> 'a list \<Rightarrow> 'a list" where
  "set_add x s = (if x \<in> set s then s else s @ [x])"

definition set_of_list :: "'a list \<Rightarrow> 'a list" where
  "set_of_list xs = foldl (\<lambda>s x. set_add x s) [] xs"

lemma set_set_add [simp]: "set (set_add x s) = insert x (set s)"
  by (auto simp: set_add_def)

lemma distinct_set_add [simp]: "distinct (set_add x s) \<longleftrightarrow> distinct s"
  by (auto simp: set_add_def)

lemma length_set_add: "length (set_add x s) = (if x \<in> set s then length s else Suc (length s))"
  by (simp add: set_add_def)

lemma set_foldl_set_add: "set (foldl (\<lambda>s x. set_add x s) s xs) = set s \<union> set xs"
  by (induction xs arbitrary: s) auto

lemma distinct_foldl_set_add: "distinct (foldl (\<lambda>s x. set_add x s) s xs) \<longleftrightarrow> distinct s"
  by (induction xs arbitrary: s) auto

lemma set_set_of_list [simp]: "set (set_of_list xs) = set xs"
  by (simp add: set_of_list_def set_foldl_set_add)

lemma distinct_set_of_list [simp]: "distinct (set_of_list xs)"
  by (simp add: set_of_list_def distinct_foldl_set_add)

lemma foldl_set_add_distinct:
  "distinct (s @ xs) \<Longrightarrow> foldl (\<lambda>s x. set_add x s) s xs = s @ xs"
  by (induction xs arbitrary: s) (auto simp: set_add_def)

lemma set_of_list_distinct: "distinct xs \<Longrightarrow> set_of_list xs = xs"
  by (simp add: set_of_list_def foldl_set_add_distinct)

lemma sort_set_of_list:
  fixes xs :: "'a::linorder list"
  shows "sort (set_of_list xs) = sorted_list_of_set (set xs)"
  by (simp add: sort_eq_sorted_list_of_set)

section \<open>Maps\<close>

text \<open>
  The interface: a lookup, an update and the list of entries in insertion order.
\<close>

locale ordered_map =
  fixes mempty :: 'm
    and mget :: "'m \<Rightarrow> 'k \<Rightarrow> 'v option"
    and mput :: "'k \<Rightarrow> 'v \<Rightarrow> 'm \<Rightarrow> 'm"
    and entries :: "'m \<Rightarrow> ('k \<times> 'v) list"
    and invar :: "'m \<Rightarrow> bool"
  assumes invar_empty: "invar mempty"
    and entries_empty: "entries mempty = []"
    and invar_put: "invar m \<Longrightarrow> invar (mput k v m)"
    and distinct_keys: "invar m \<Longrightarrow> distinct (map fst (entries m))"
    and get_entries: "invar m \<Longrightarrow> mget m = map_of (entries m)"
    and get_put: "invar m \<Longrightarrow> mget (mput k v m) = (mget m)(k \<mapsto> v)"
    and keys_put: "invar m \<Longrightarrow> map fst (entries (mput k v m)) = set_add k (map fst (entries m))"
begin

text \<open>
  Every client builds its map by one loop: an item that has a key writes at that key a value
  computed from the item and from what the key held before. The keys of the result are the
  items' keys in the order of their first occurrence, and the value at a key is the fold over
  the items of that key alone, so one key's entry never depends on another key's items.
\<close>

lemma loop_invar:
  assumes "invar m"
  shows "invar (foldl (\<lambda>m x. case key x of None \<Rightarrow> m | Some k \<Rightarrow> mput k (upd (mget m k) x) m) m xs)"
  using assms by (induction xs arbitrary: m) (auto simp: invar_put split: option.splits)

lemma loop_keys_gen:
  assumes "invar m"
  shows "map fst (entries (foldl (\<lambda>m x. case key x of None \<Rightarrow> m
            | Some k \<Rightarrow> mput k (upd (mget m k) x) m) m xs))
         = foldl (\<lambda>s k. set_add k s) (map fst (entries m)) (List.map_filter key xs)"
  using assms
  by (induction xs arbitrary: m)
    (auto simp: invar_put keys_put map_filter_simps split: option.splits)

lemma loop_keys:
  "map fst (entries (foldl (\<lambda>m x. case key x of None \<Rightarrow> m
            | Some k \<Rightarrow> mput k (upd (mget m k) x) m) mempty xs))
   = set_of_list (List.map_filter key xs)"
  using loop_keys_gen [OF invar_empty, where key = key and upd = upd and xs = xs]
  by (simp add: entries_empty set_of_list_def)

lemma loop_get:
  assumes "invar m"
  shows "mget (foldl (\<lambda>m x. case key x of None \<Rightarrow> m
            | Some k \<Rightarrow> mput k (upd (mget m k) x) m) m xs) k
         = foldl (\<lambda>acc x. Some (upd acc x)) (mget m k) (filter (\<lambda>x. key x = Some k) xs)"
  using assms
proof (induction xs arbitrary: m)
  case Nil
  then show ?case by simp
next
  case (Cons x xs)
  then show ?case
    by (cases "key x") (auto simp: invar_put get_put)
qed

lemma get_None_iff: "invar m \<Longrightarrow> mget m k = None \<longleftrightarrow> k \<notin> set (map fst (entries m))"
  by (simp add: get_entries map_of_eq_None_iff image_image)

lemma entries_in_get: "invar m \<Longrightarrow> (k, v) \<in> set (entries m) \<longleftrightarrow> mget m k = Some v"
  by (simp add: get_entries distinct_keys map_of_eq_Some_iff)

end

text \<open>The model of \<open>Map\<close>: \<open>AList.update\<close> overwrites in place or appends at the end.\<close>

type_synonym ('k, 'v) js_map = "('k \<times> 'v) list"

definition map_empty :: "('k, 'v) js_map" where
  "map_empty = []"

definition map_get :: "('k, 'v) js_map \<Rightarrow> 'k \<Rightarrow> 'v option" where
  "map_get m k = map_of m k"

definition map_set :: "'k \<Rightarrow> 'v \<Rightarrow> ('k, 'v) js_map \<Rightarrow> ('k, 'v) js_map" where
  "map_set k v m = AList.update k v m"

definition map_has :: "('k, 'v) js_map \<Rightarrow> 'k \<Rightarrow> bool" where
  "map_has m k \<longleftrightarrow> map_get m k \<noteq> None"

definition map_values :: "('k, 'v) js_map \<Rightarrow> 'v list" where
  "map_values m = map snd m"

definition map_wf :: "('k, 'v) js_map \<Rightarrow> bool" where
  "map_wf m \<longleftrightarrow> distinct (map fst m)"

lemma keys_update: "map fst (AList.update k v m) = set_add k (map fst m)"
  by (induction m) (auto simp: set_add_def)

lemma update_append: "k \<notin> set (map fst m) \<Longrightarrow> AList.update k v (m @ [(k, w)]) = m @ [(k, v)]"
  by (induction m) auto

lemma update_fresh: "k \<notin> set (map fst m) \<Longrightarrow> AList.update k v m = m @ [(k, v)]"
  by (induction m) auto

interpretation jsmap: ordered_map map_empty map_get map_set "\<lambda>m. m" map_wf
proof unfold_locales
  show "map_wf (map_empty :: ('k, 'v) js_map)"
    by (simp add: map_wf_def map_empty_def)
  show "map_empty = []"
    by (simp add: map_empty_def)
  show "map_wf (map_set k v m)" if "map_wf m" for k and v :: 'v and m
    using that by (simp add: map_wf_def map_set_def keys_update)
  show "distinct (map fst m)" if "map_wf m" for m :: "('k, 'v) js_map"
    using that by (simp add: map_wf_def)
  show "map_get m = map_of m" for m :: "('k, 'v) js_map"
    by (rule ext) (simp add: map_get_def)
  show "map_get (map_set k v m) = (map_get m)(k \<mapsto> v)" for k and v :: 'v and m
    by (rule ext) (simp add: map_get_def map_set_def update_conv)
  show "map fst (map_set k v m) = set_add k (map fst m)" for k and v :: 'v and m
    by (simp add: map_set_def keys_update)
qed

lemma map_get_empty [simp]: "map_get map_empty k = None"
  by (simp add: map_get_def map_empty_def)

lemma map_get_set [simp]: "map_get (map_set k v m) k' = (if k' = k then Some v else map_get m k')"
  by (simp add: map_get_def map_set_def update_conv')

lemma map_wf_empty [simp]: "map_wf map_empty"
  by (rule jsmap.invar_empty)

lemma map_wf_set [simp]: "map_wf m \<Longrightarrow> map_wf (map_set k v m)"
  by (rule jsmap.invar_put)

lemma map_keys_set: "map fst (map_set k v m) = set_add k (map fst m)"
  by (simp add: map_set_def keys_update)

lemma fold_map_set_fresh:
  "distinct (map fst m @ map fst kvs) \<Longrightarrow>
   foldl (\<lambda>m (k, v). map_set k (f v) m) m kvs = m @ map (\<lambda>(k, v). (k, f v)) kvs"
proof (induction kvs arbitrary: m)
  case (Cons kv kvs)
  obtain k v where kv: "kv = (k, v)" by (cases kv)
  have "AList.update k (f v) m = m @ [(k, f v)]"
    using Cons.prems by (intro update_fresh) (auto simp: kv)
  then show ?case
    using Cons by (simp add: kv map_set_def)
qed simp

lemma fold_map_sets:
  assumes "distinct (map fst kvs)"
  shows "foldl (\<lambda>m (k, v). map_set k v m) map_empty kvs = kvs"
  using fold_map_set_fresh [of "[]" kvs id] assms by (simp add: map_empty_def)

end
