(* ===== verification/JsNumber.thy ===== *)
theory JsNumber
  imports Prelude "HOL-Library.Word" "HOL-Library.Log_Nat"
begin

unbundle bit_operations_syntax

text \<open>
  The operations of JavaScript numbers the program uses: 32-bit integer operators, the rounding of
  an integer sum or product to a double, and array \<open>slice\<close> with its treatment of negative bounds.
\<close>

section \<open>32-bit integer operators\<close>

type_synonym int32 = "32 word"

text \<open>\<open>a << b\<close> takes the shift count modulo 32 and reads the result as a signed 32-bit value.\<close>

definition shl32 :: "int32 \<Rightarrow> nat \<Rightarrow> int32" where
  "shl32 a b = push_bit (b mod 32) a"

text \<open>\<open>1 << n\<close> as the number it is in a comparison: wraps at 31 (negative) and at 32 (one).\<close>

definition one_shl :: "nat \<Rightarrow> int" where
  "one_shl n = sint (shl32 1 n)"

text \<open>\<open>m & (1 << bit)\<close> as a condition.\<close>

definition bit_and :: "nat \<Rightarrow> nat \<Rightarrow> bool" where
  "bit_and m b \<longleftrightarrow> (of_nat m :: int32) AND shl32 1 b \<noteq> 0"

lemma one_shl_small: "n \<le> 30 \<Longrightarrow> one_shl n = 2 ^ n"
proof -
  assume n: "n \<le> 30"
  have "(2::int) ^ n \<le> 2 ^ 30"
    by (rule power_increasing [OF n]) simp
  then have hi: "(2::int) ^ n < 2 ^ 31" by simp
  have lo: "- (2 ^ 31) \<le> (2::int) ^ n"
    by (rule order_trans [of _ 0]) simp_all
  have "signed_take_bit 31 ((2::int) ^ n) = 2 ^ n"
    using lo hi by (rule signed_take_bit_int_eq_self)
  have "one_shl n = sint (word_of_int (2 ^ n) :: int32)"
    using n by (simp add: one_shl_def shl32_def push_bit_eq_mult word_of_int_2p)
  also have "\<dots> = signed_take_bit 31 (2 ^ n)"
    by (simp only: sint_sbintrunc') simp
  finally show ?thesis
    using \<open>signed_take_bit 31 ((2::int) ^ n) = 2 ^ n\<close> by simp
qed

lemma bit_and_iff:
  assumes "b \<le> 30"
  shows "bit_and m b \<longleftrightarrow> bit m b"
proof -
  have eq: "(of_nat m :: int32) AND shl32 1 b = (if bit m b then push_bit b 1 else 0)"
    using assms by (intro bit_eqI) (auto simp: shl32_def bit_simps)
  have "bit (push_bit b (1 :: int32)) b"
    using assms by (simp add: bit_simps)
  then have "push_bit b (1 :: int32) \<noteq> 0"
    by (metis bit_0_eq bot_apply bot_bool_def)
  then show ?thesis by (simp add: bit_and_def eq)
qed

lemma one_shl_31: "one_shl 31 = - (2 ^ 31)"
  by code_simp

lemma one_shl_32: "one_shl 32 = 1"
  by code_simp

section \<open>Integers as doubles\<close>

text \<open>
  An integer result of \<open>+\<close> or \<open>*\<close> is rounded to 53 significant bits, ties to even. Integers up to
  \<open>2 ^ 53\<close> in magnitude are exact.
\<close>

definition double_of_int :: "int \<Rightarrow> int" where
  "double_of_int n =
     (let a = nat \<bar>n\<bar>; k = floorlog 2 a - 53 in
      if k = 0 then n
      else let q = a div 2 ^ k; r = a mod 2 ^ k; half = 2 ^ (k - 1);
               q' = (if half < r \<or> (r = half \<and> odd q) then Suc q else q)
           in sgn n * int (q' * 2 ^ k))"

lemma double_of_int_exact:
  assumes "\<bar>n\<bar> < 2 ^ 53"
  shows "double_of_int n = n"
proof -
  have "nat \<bar>n\<bar> < 2 ^ 53"
    using assms by (simp add: nat_less_iff)
  then have "floorlog 2 (nat \<bar>n\<bar>) \<le> 53"
    by (intro floorlog_leI) simp_all
  then show ?thesis by (simp add: double_of_int_def Let_def)
qed

text \<open>\<open>x | 0\<close> for an integral double: the value modulo \<open>2 ^ 32\<close>.\<close>

definition to_int32 :: "int \<Rightarrow> int32" where
  "to_int32 x = word_of_int x"

section \<open>Array slices\<close>

text \<open>The start bound of \<open>xs.slice(k)\<close>: a negative \<open>k\<close> counts from the end, and \<open>-0\<close> is 0.\<close>

definition slice_bound :: "nat \<Rightarrow> int \<Rightarrow> nat" where
  "slice_bound n k = (if k < 0 then nat (int n + k) else min (nat k) n)"

definition slice_from :: "int \<Rightarrow> 'a list \<Rightarrow> 'a list" where
  "slice_from k xs = drop (slice_bound (length xs) k) xs"

definition slice :: "int \<Rightarrow> int \<Rightarrow> 'a list \<Rightarrow> 'a list" where
  "slice a b xs = (let i = slice_bound (length xs) a; j = slice_bound (length xs) b
     in take (j - i) (drop i xs))"

lemma slice_from_neg:
  "0 < w \<Longrightarrow> slice_from (- w) xs = drop (length xs - nat w) xs"
  by (simp add: slice_from_def slice_bound_def nat_diff_distrib' flip: nat_int)
    (metis diff_zero le_add_diff_inverse2 nat_diff_distrib nat_int nat_le_0 of_nat_0_le_iff
      nat_minus_as_int)

lemma slice_from_zero: "slice_from 0 xs = xs"
  by (simp add: slice_from_def slice_bound_def)

lemma slice_prefix:
  "slice 0 k xs = (if k < 0 then take (nat (int (length xs) + k)) xs else take (nat k) xs)"
  by (auto simp: slice_def slice_bound_def Let_def min_def)

end
