(* ===== verification/Trace.thy ===== *)
theory Trace
  imports Prelude
begin

text \<open>
  The data of \<open>core/src/trace/reader.ts\<close>: a trace is a header, the recorded calls and the
  markers of the workload driver. Stamps, lengths and return values are integers. The field names
  carry the prefix of their record, because several of them (\<open>length\<close>, \<open>index\<close>) are
  names of the library or of two records.
\<close>

datatype call_name =
    COpen | CClose | CWrite | CPwrite | CWritev | CFsync | CFdatasync | CSyncFileRange
  | CFtruncate | CTruncate | CMkdir | CUnlink | CLink | CRename

record trace_event =
  ev_index :: int
  ev_completionIndex :: int
  ev_call :: call_name
  ev_fd :: int
  ev_threadId :: int
  ev_path :: string
  ev_path2 :: string
  ev_offset :: int
  ev_length :: int
  ev_returnValue :: int
  ev_errno :: int
  ev_digest :: string

record trace_marker =
  mk_index :: int
  mk_threadId :: int
  mk_text :: string

record trace_header =
  hd_version :: int
  hd_pid :: int

record trace =
  tr_header :: trace_header
  tr_events :: "trace_event list"
  tr_markers :: "trace_marker list"

text \<open>The calls by their names in the trace text.\<close>

fun call_string :: "call_name \<Rightarrow> string" where
  "call_string COpen = ''open''"
| "call_string CClose = ''close''"
| "call_string CWrite = ''write''"
| "call_string CPwrite = ''pwrite''"
| "call_string CWritev = ''writev''"
| "call_string CFsync = ''fsync''"
| "call_string CFdatasync = ''fdatasync''"
| "call_string CSyncFileRange = ''sync_file_range''"
| "call_string CFtruncate = ''ftruncate''"
| "call_string CTruncate = ''truncate''"
| "call_string CMkdir = ''mkdir''"
| "call_string CUnlink = ''unlink''"
| "call_string CLink = ''link''"
| "call_string CRename = ''rename''"

text \<open>
  The calls form a finite enumeration in the order of the source, so a statement about every call
  is decided by evaluation.
\<close>

instantiation call_name :: enum
begin

definition enum_call_name :: "call_name list" where
  "enum_call_name = [COpen, CClose, CWrite, CPwrite, CWritev, CFsync, CFdatasync, CSyncFileRange,
     CFtruncate, CTruncate, CMkdir, CUnlink, CLink, CRename]"

definition enum_all_call_name :: "(call_name \<Rightarrow> bool) \<Rightarrow> bool" where
  "enum_all_call_name P = list_all P enum_class.enum"

definition enum_ex_call_name :: "(call_name \<Rightarrow> bool) \<Rightarrow> bool" where
  "enum_ex_call_name P = list_ex P enum_class.enum"

instance
proof
  show univ: "UNIV = set (enum_class.enum :: call_name list)"
    by (auto simp: enum_call_name_def intro: call_name.exhaust)
  show "distinct (enum_class.enum :: call_name list)"
    by (simp add: enum_call_name_def)
  show "enum_class.enum_all P \<longleftrightarrow> Ball UNIV P" for P :: "call_name \<Rightarrow> bool"
    by (simp add: enum_all_call_name_def univ list_all_iff)
  show "enum_class.enum_ex P \<longleftrightarrow> Bex UNIV P" for P :: "call_name \<Rightarrow> bool"
    by (simp add: enum_ex_call_name_def univ list_ex_iff)
qed

end

definition call_of_string :: "string \<Rightarrow> call_name option" where
  "call_of_string s = List.find (\<lambda>c. call_string c = s) Enum.enum"

lemma call_string_inj: "call_string c = call_string d \<longleftrightarrow> c = d"
  by (cases c; cases d) simp_all

lemma call_of_string_inverse [simp]: "call_of_string (call_string c) = Some c"
  by (cases c) (simp_all add: call_of_string_def enum_call_name_def)

lemma call_of_string_Some: "call_of_string s = Some c \<Longrightarrow> s = call_string c"
  by (auto simp: call_of_string_def find_Some_iff)

text \<open>
  The two sets of calls the analyses distinguish, as \<open>states.ts\<close> writes them. \<open>crash-points.ts\<close>
  and \<open>dedup.ts\<close> carry their own copies, modelled in their theories.
\<close>

definition MUTATING :: "call_name set" where
  "MUTATING = {CWrite, CPwrite, CWritev, CTruncate, CFtruncate, CMkdir, CUnlink, CLink, CRename}"

definition PERSISTENCE :: "call_name set" where
  "PERSISTENCE = {CFsync, CFdatasync, CSyncFileRange}"

lemma mutating_not_persistence: "c \<in> MUTATING \<Longrightarrow> c \<notin> PERSISTENCE"
  by (auto simp: MUTATING_def PERSISTENCE_def)

end
