(* ===== verification/Models.thy ===== *)
theory Models
  imports Prelude
begin

text \<open>
  \<open>core/src/graph/models.ts\<close>: the persistence model of each file system in the sweep, one
  flag per row of the property table in \<open>docs/model.md\<close>.
\<close>

record filesystem_model =
  fm_name :: string
  totalOrder :: bool
  orderedAppendRename :: bool
  fsyncPersistsDirEntry :: bool
  atomicBlockOverwrite :: bool
  reordersDirectoryOps :: bool

definition ext4Ordered :: filesystem_model where
  "ext4Ordered = \<lparr>fm_name = ''ext4-ordered'', totalOrder = False, orderedAppendRename = True,
     fsyncPersistsDirEntry = True, atomicBlockOverwrite = False, reordersDirectoryOps = False\<rparr>"

definition ext4Journal :: filesystem_model where
  "ext4Journal = \<lparr>fm_name = ''ext4-journal'', totalOrder = True, orderedAppendRename = True,
     fsyncPersistsDirEntry = True, atomicBlockOverwrite = True, reordersDirectoryOps = False\<rparr>"

definition xfs :: filesystem_model where
  "xfs = \<lparr>fm_name = ''xfs'', totalOrder = False, orderedAppendRename = False,
     fsyncPersistsDirEntry = False, atomicBlockOverwrite = False, reordersDirectoryOps = False\<rparr>"

definition btrfs :: filesystem_model where
  "btrfs = \<lparr>fm_name = ''btrfs'', totalOrder = False, orderedAppendRename = False,
     fsyncPersistsDirEntry = False, atomicBlockOverwrite = False, reordersDirectoryOps = True\<rparr>"

definition MODELS :: "filesystem_model list" where
  "MODELS = [ext4Ordered, ext4Journal, xfs, btrfs]"

lemma totalOrder_models [simp]:
  "totalOrder ext4Journal" "\<not> totalOrder ext4Ordered" "\<not> totalOrder xfs" "\<not> totalOrder btrfs"
  by (simp_all add: ext4Journal_def ext4Ordered_def xfs_def btrfs_def)

lemmas models_defs = ext4Ordered_def ext4Journal_def xfs_def btrfs_def MODELS_def

end
