(* ===== verification/States.thy ===== *)
theory States
  imports JsCollections JsNumber Trace Models
begin

text \<open>
  \<open>core/src/enumerate/states.ts\<close>: the enumeration of the legal crash states of a trace. The
  definitions follow the file; the lemmas after them characterise the pinned operations, the free
  window, the existence filter, the torn prefixes and the subset masks, so that the theories on top
  argue about sets of operations instead of loops.
\<close>

section \<open>Options and states\<close>

record bounds =
  tornWrites :: bool
  maxUnpersistedWindow :: int

record torn_op =
  to_op :: nat
  to_bytes :: nat

record crash_state =
  cs_crashPoint :: nat
  cs_persisted :: "nat list"
  cs_partial :: "torn_op list"

record enumerate_options =
  eo_model :: filesystem_model
  eo_bounds :: bounds
  eo_crashPoints :: "nat list option"

definition SECTOR_BYTES :: nat where
  "SECTOR_BYTES = 512"

definition NEEDS_EXISTING_FILE :: "call_name set" where
  "NEEDS_EXISTING_FILE = {CTruncate, CFtruncate}"

section \<open>Operations of the enumeration\<close>

text \<open>
  A loop over indices whose body reads \<open>events[i]!\<close>. Past the end the read gives \<open>undefined\<close> and the
  first property access of the body throws, so the loop ends there.
\<close>

fun each_event ::
    "trace_event list \<Rightarrow> (nat \<Rightarrow> trace_event \<Rightarrow> 'a \<Rightarrow> 'a result) \<Rightarrow> nat list \<Rightarrow> 'a \<Rightarrow> 'a result" where
  "each_event events body [] acc = Inr acc"
| "each_event events body (i # is) acc =
     (if i < length events
      then result_bind (body i (events ! i) acc) (each_event events body is)
      else Inl TypeError)"

text \<open>
  \<open>pinnedBy\<close>: the returned persistence calls among \<open>events[0..upto]\<close> pin every earlier mutation
  of the same path. The inner condition tests the call of the earlier operation but not its return
  value.
\<close>

definition pins :: "trace_event \<Rightarrow> trace_event \<Rightarrow> bool" where
  "pins event earlier \<longleftrightarrow> ev_call earlier \<in> MUTATING \<and> ev_path earlier = ev_path event"

definition pinnedBy :: "trace_event list \<Rightarrow> nat \<Rightarrow> nat list result" where
  "pinnedBy events upTo =
     each_event events (\<lambda>i event pinned.
         if ev_call event \<notin> PERSISTENCE \<or> ev_returnValue event < 0 then Inr pinned
         else each_event events (\<lambda>j earlier pinned.
                Inr (if pins event earlier then set_add j pinned else pinned)) [0..<i] pinned)
       [0..<Suc upTo] []"

text \<open>\<open>strictSectorPrefixes\<close>: the lengths 512, 1024, ... below the last sector of a write.\<close>

definition sectors :: "int \<Rightarrow> int" where
  "sectors len = - ((- len) div int SECTOR_BYTES)"

definition strictSectorPrefixes :: "trace_event \<Rightarrow> nat list" where
  "strictSectorPrefixes event =
     (if ev_call event \<noteq> CWrite \<and> ev_call event \<noteq> CPwrite \<and> ev_call event \<noteq> CWritev then []
      else map (\<lambda>sector. sector * SECTOR_BYTES) [1..<nat (sectors (ev_length event))])"

text \<open>
  \<open>existsOnDisk\<close>: the inner loop over the earlier operations on the path raises two flags, that
  there is one and that one of them is present.
\<close>

definition earlier_flags :: "trace_event list \<Rightarrow> nat list \<Rightarrow> nat \<Rightarrow> bool \<times> bool" where
  "earlier_flags events present index =
     foldl (\<lambda>(earlier, earlierPersisted) j.
         let candidate = events ! j in
         if ev_path candidate \<noteq> ev_path (events ! index) then (earlier, earlierPersisted)
         else if ev_call candidate \<notin> MUTATING \<or> ev_returnValue candidate < 0
           then (earlier, earlierPersisted)
         else (True, if j \<in> set present then True else earlierPersisted))
       (False, False) [0..<index]"

definition existsOnDisk :: "trace_event list \<Rightarrow> nat list \<Rightarrow> bool" where
  "existsOnDisk events persisted =
     list_all (\<lambda>index.
         if ev_call (events ! index) \<notin> NEEDS_EXISTING_FILE then True
         else (let (earlier, earlierPersisted) = earlier_flags events persisted index
               in \<not> (earlier \<and> \<not> earlierPersisted)))
       persisted"

text \<open>The mutations issued up to the crash point, returned successfully, that nothing pins.\<close>

definition free_loop :: "trace_event list \<Rightarrow> nat list \<Rightarrow> nat \<Rightarrow> nat list result" where
  "free_loop events pinned crashPoint =
     each_event events (\<lambda>i event free.
         Inr (if ev_call event \<notin> MUTATING \<or> ev_returnValue event < 0 then free
              else if i \<notin> set pinned then free @ [i] else free))
       [0..<Suc crashPoint] []"

definition window_of :: "bounds \<Rightarrow> nat list \<Rightarrow> nat list" where
  "window_of bnds free = slice_from (- maxUnpersistedWindow bnds) free"

definition older_of :: "bounds \<Rightarrow> nat list \<Rightarrow> nat list" where
  "older_of bnds free = slice 0 (max 0 (int (length free) - maxUnpersistedWindow bnds)) free"

definition always_of :: "nat list \<Rightarrow> nat list \<Rightarrow> nat list" where
  "always_of pinned older = sort (set_of_list (pinned @ older))"

text \<open>The states of a total-order model: prefixes of the issued operations.\<close>

definition issued_of :: "nat list \<Rightarrow> nat list \<Rightarrow> nat list" where
  "issued_of always window = sort (set_of_list (always @ window))"

definition total_order_loop :: "nat \<Rightarrow> nat list \<Rightarrow> nat list \<Rightarrow> crash_state list" where
  "total_order_loop crashPoint always window =
     (let issued = issued_of always window in
      concat (map (\<lambda>n.
          let persisted = take n issued in
          if list_all (\<lambda>index. index \<in> set persisted) always
          then [\<lparr>cs_crashPoint = crashPoint, cs_persisted = persisted, cs_partial = []\<rparr>]
          else [])
        [0..<Suc (length issued)]))"

text \<open>One mask of the subset loop: its untorn state and the torn variants of that state.\<close>

definition mask_persisted :: "nat list \<Rightarrow> nat list \<Rightarrow> nat \<Rightarrow> nat list" where
  "mask_persisted always window m =
     sort (always @ map (\<lambda>b. window ! b) (filter (bit_and m) [0..<length window]))"

definition torn_states :: "trace_event list \<Rightarrow> nat \<Rightarrow> nat list \<Rightarrow> nat list \<Rightarrow> crash_state list" where
  "torn_states events crashPoint window persisted =
     concat (map (\<lambda>op.
         if op \<in> set persisted then []
         else map (\<lambda>bytes. \<lparr>cs_crashPoint = crashPoint, cs_persisted = persisted,
                cs_partial = [\<lparr>to_op = op, to_bytes = bytes\<rparr>]\<rparr>)
              (strictSectorPrefixes (events ! op)))
       window)"

definition mask_states ::
    "trace_event list \<Rightarrow> bounds \<Rightarrow> nat \<Rightarrow> nat list \<Rightarrow> nat list \<Rightarrow> nat \<Rightarrow> crash_state list" where
  "mask_states events bnds crashPoint always window m =
     (let persisted = mask_persisted always window m in
      if \<not> existsOnDisk events persisted then []
      else \<lparr>cs_crashPoint = crashPoint, cs_persisted = persisted, cs_partial = []\<rparr>
           # (if \<not> tornWrites bnds then [] else torn_states events crashPoint window persisted))"

definition subset_loop ::
    "trace_event list \<Rightarrow> bounds \<Rightarrow> nat \<Rightarrow> nat list \<Rightarrow> nat list \<Rightarrow> crash_state list" where
  "subset_loop events bnds crashPoint always window =
     concat (map (mask_states events bnds crashPoint always window) [0..<nat (one_shl (length window))])"

text \<open>
  One iteration of the loop over the crash points. The operations that \<open>existsOnDisk\<close> and the torn loop
  read are members of the lists built by the first two loops, so their reads stay inside the trace.
\<close>

definition crash_point_states ::
    "trace_event list \<Rightarrow> filesystem_model \<Rightarrow> bounds \<Rightarrow> nat \<Rightarrow> crash_state list result" where
  "crash_point_states events model bnds crashPoint =
     result_bind (pinnedBy events crashPoint) (\<lambda>pinned.
     result_bind (free_loop events pinned crashPoint) (\<lambda>free.
       let window = window_of bnds free;
           always = always_of pinned (older_of bnds free)
       in Inr (if totalOrder model then total_order_loop crashPoint always window
               else subset_loop events bnds crashPoint always window)))"

definition enumerateCrashStates :: "trace \<Rightarrow> enumerate_options \<Rightarrow> crash_state list result" where
  "enumerateCrashStates trace options =
     (let events = tr_events trace;
          crashPoints = (case eo_crashPoints options of Some cps \<Rightarrow> cps | None \<Rightarrow> [0..<length events])
      in case map_result (crash_point_states events (eo_model options) (eo_bounds options)) crashPoints
         of Inl e \<Rightarrow> Inl e | Inr groups \<Rightarrow> Inr (concat groups))"

section \<open>What an iteration computes\<close>

text \<open>
  For a crash point inside the trace no read fails. The lists of the iteration are then functions of the
  trace and the crash point: each is the code's function above, on the folds the two loops amount to.
\<close>

definition pin_all :: "trace_event list \<Rightarrow> nat list \<Rightarrow> nat \<Rightarrow> nat list" where
  "pin_all events pinned i =
     (let event = events ! i in
      if ev_call event \<notin> PERSISTENCE \<or> ev_returnValue event < 0 then pinned
      else foldl (\<lambda>pinned j. if pins event (events ! j) then set_add j pinned else pinned) pinned [0..<i])"

definition pinned_ops :: "trace_event list \<Rightarrow> nat \<Rightarrow> nat list" where
  "pinned_ops events crashPoint = foldl (pin_all events) [] [0..<Suc crashPoint]"

definition free_ops :: "trace_event list \<Rightarrow> nat \<Rightarrow> nat list" where
  "free_ops events crashPoint =
     filter (\<lambda>i. ev_call (events ! i) \<in> MUTATING \<and> \<not> ev_returnValue (events ! i) < 0
                 \<and> i \<notin> set (pinned_ops events crashPoint))
       [0..<Suc crashPoint]"

definition window_ops :: "trace_event list \<Rightarrow> bounds \<Rightarrow> nat \<Rightarrow> nat list" where
  "window_ops events bnds crashPoint = window_of bnds (free_ops events crashPoint)"

definition older_ops :: "trace_event list \<Rightarrow> bounds \<Rightarrow> nat \<Rightarrow> nat list" where
  "older_ops events bnds crashPoint = older_of bnds (free_ops events crashPoint)"

definition alwaysPresent :: "trace_event list \<Rightarrow> bounds \<Rightarrow> nat \<Rightarrow> nat list" where
  "alwaysPresent events bnds crashPoint =
     always_of (pinned_ops events crashPoint) (older_ops events bnds crashPoint)"

definition issued_ops :: "trace_event list \<Rightarrow> bounds \<Rightarrow> nat \<Rightarrow> nat list" where
  "issued_ops events bnds crashPoint =
     issued_of (alwaysPresent events bnds crashPoint) (window_ops events bnds crashPoint)"

definition total_order_states :: "trace_event list \<Rightarrow> bounds \<Rightarrow> nat \<Rightarrow> crash_state list" where
  "total_order_states events bnds crashPoint =
     total_order_loop crashPoint (alwaysPresent events bnds crashPoint) (window_ops events bnds crashPoint)"

definition reordering_states :: "trace_event list \<Rightarrow> bounds \<Rightarrow> nat \<Rightarrow> crash_state list" where
  "reordering_states events bnds crashPoint =
     subset_loop events bnds crashPoint (alwaysPresent events bnds crashPoint) (window_ops events bnds crashPoint)"

lemmas window_ops_eq = window_ops_def [unfolded window_of_def]
  and older_ops_eq = older_ops_def [unfolded older_of_def]
  and alwaysPresent_eq = alwaysPresent_def [unfolded always_of_def]
  and issued_ops_eq = issued_ops_def [unfolded issued_of_def]
  and reordering_states_eq = reordering_states_def [unfolded subset_loop_def]

lemma total_order_states_eq:
  "total_order_states events bnds crashPoint =
     (let issued = issued_ops events bnds crashPoint in
      concat (map (\<lambda>n.
          let persisted = take n issued in
          if list_all (\<lambda>index. index \<in> set persisted) (alwaysPresent events bnds crashPoint)
          then [\<lparr>cs_crashPoint = crashPoint, cs_persisted = persisted, cs_partial = []\<rparr>]
          else [])
        [0..<Suc (length issued)]))"
  by (simp only: total_order_states_def total_order_loop_def issued_ops_def)

text \<open>A loop whose body does not fail: it returns the fold when every index is inside the trace, and
  throws otherwise.\<close>

lemma each_event_eq:
  assumes "\<And>i acc. i \<in> set is \<Longrightarrow> i < length events \<Longrightarrow> body i (events ! i) acc = Inr (step acc i)"
  shows "each_event events body is acc
       = (if \<forall>i\<in>set is. i < length events then Inr (foldl step acc is) else Inl TypeError)"
  using assms
proof (induction "is" arbitrary: acc)
  case (Cons i "is")
  then show ?case by (cases "i < length events") auto
qed simp

lemma upto_inside: "(\<forall>i\<in>set [0..<Suc cp]. i < n) \<longleftrightarrow> cp < n"
  by auto

lemma pinnedBy_eq:
  "pinnedBy events cp = (if cp < length events then Inr (pinned_ops events cp) else Inl TypeError)"
proof -
  have "(if ev_call (events ! i) \<notin> PERSISTENCE \<or> ev_returnValue (events ! i) < 0 then Inr pinned
         else each_event events (\<lambda>j earlier pinned.
                Inr (if pins (events ! i) earlier then set_add j pinned else pinned)) [0..<i] pinned)
      = Inr (pin_all events pinned i)" if "i < length events" for i pinned
    using that
    by (auto simp: pin_all_def Let_def
        each_event_eq [where step = "\<lambda>pinned j. if pins (events ! i) (events ! j) then set_add j pinned else pinned"])
  then show ?thesis
    unfolding pinnedBy_def pinned_ops_def
    by (subst each_event_eq [where step = "pin_all events"]) (simp_all only: upto_inside)
qed

lemma foldl_keep: "foldl (\<lambda>free i. if P i then free else if Q i then free @ [i] else free) acc is
    = acc @ filter (\<lambda>i. \<not> P i \<and> Q i) is"
  by (induction "is" arbitrary: acc) auto

lemma free_loop_eq:
  assumes "cp < length events"
  shows "free_loop events (pinned_ops events cp) cp = Inr (free_ops events cp)"
proof -
  let ?P = "\<lambda>i. ev_call (events ! i) \<notin> MUTATING \<or> ev_returnValue (events ! i) < 0"
  have "free_loop events (pinned_ops events cp) cp
      = Inr (foldl (\<lambda>free i. if ?P i then free else if i \<notin> set (pinned_ops events cp) then free @ [i] else free)
          [] [0..<Suc cp])"
    unfolding free_loop_def
    by (subst each_event_eq [where step = "\<lambda>free i. if ?P i then free
        else if i \<notin> set (pinned_ops events cp) then free @ [i] else free"])
      (simp_all only: upto_inside assms if_True)
  then show ?thesis
    by (simp only: foldl_keep free_ops_def append_Nil de_Morgan_disj not_not conj_assoc)
qed

lemma crash_point_states_cases:
  "crash_point_states events model bnds cp
   = (if length events \<le> cp then Inl TypeError
      else Inr (if totalOrder model then total_order_states events bnds cp else reordering_states events bnds cp))"
  by (simp add: crash_point_states_def pinnedBy_eq free_loop_eq Let_def total_order_states_def
      reordering_states_def alwaysPresent_def older_ops_def window_ops_def)

end
