(* ===== verification/EnumerationFacts.thy ===== *)
theory EnumerationFacts
  imports States
begin

text \<open>
  The loops of \<open>States\<close> read as sets: what is pinned, free, in the window, always present, which
  prefixes a write can tear at, when the existence filter lets a set of operations through, and
  which subset of the window a mask stands for. The collection \<open>enum_simps\<close> gathers them.
\<close>

section \<open>Vocabulary\<close>

definition returned_persistence :: "trace_event \<Rightarrow> bool" where
  "returned_persistence event \<longleftrightarrow> ev_call event \<in> PERSISTENCE \<and> 0 \<le> ev_returnValue event"

definition returned_mutation :: "trace_event \<Rightarrow> bool" where
  "returned_mutation event \<longleftrightarrow> ev_call event \<in> MUTATING \<and> 0 \<le> ev_returnValue event"

definition pinned_set :: "trace_event list \<Rightarrow> nat \<Rightarrow> nat set" where
  "pinned_set events cp =
     {j. \<exists>i\<le>cp. returned_persistence (events ! i) \<and> j < i \<and> pins (events ! i) (events ! j)}"

text \<open>\<open>creates events i j\<close>: operation \<open>j\<close> can have created the file that operation \<open>i\<close> truncates.\<close>

definition creates :: "trace_event list \<Rightarrow> nat \<Rightarrow> nat \<Rightarrow> bool" where
  "creates events i j \<longleftrightarrow>
     j < i \<and> ev_path (events ! j) = ev_path (events ! i) \<and> returned_mutation (events ! j)"

definition materializable :: "trace_event list \<Rightarrow> nat set \<Rightarrow> bool" where
  "materializable events P \<longleftrightarrow>
     (\<forall>i\<in>P. ev_call (events ! i) \<in> NEEDS_EXISTING_FILE \<longrightarrow>
        (\<exists>j. creates events i j) \<longrightarrow> (\<exists>j\<in>P. creates events i j))"

section \<open>Pinned operations\<close>

lemma set_pin_loop:
  "set (foldl (\<lambda>pinned j. if P j then set_add j pinned else pinned) s js) = set s \<union> {j \<in> set js. P j}"
  by (induction js arbitrary: s) auto

lemma distinct_pin_loop:
  "distinct (foldl (\<lambda>pinned j. if P j then set_add j pinned else pinned) s js) \<longleftrightarrow> distinct s"
  by (induction js arbitrary: s) auto

lemma pinned_loop_set:
  "set (foldl (pin_all events) s is)
   = set s \<union> {j. \<exists>i\<in>set is. returned_persistence (events ! i) \<and> j < i
                    \<and> pins (events ! i) (events ! j)}"
proof (induction "is" arbitrary: s)
  case Nil
  then show ?case by simp
next
  case (Cons i "is")
  show ?case
    unfolding foldl_Cons Cons.IH
    by (auto simp: pin_all_def Let_def set_pin_loop returned_persistence_def)
qed

lemma set_pinned_ops [enum_simps]: "set (pinned_ops events cp) = pinned_set events cp"
  unfolding pinned_ops_def pinned_loop_set
  by (auto simp: pinned_set_def less_Suc_eq_le simp del: upt_Suc)

lemma pinned_set_mutating: "j \<in> pinned_set events cp \<Longrightarrow> j < cp \<and> ev_call (events ! j) \<in> MUTATING"
  by (auto simp: pinned_set_def pins_def)

lemma finite_pinned_set [simp]: "finite (pinned_set events cp)"
  by (metis List.finite_set set_pinned_ops)

lemma pinned_set_mono: "cp \<le> cp' \<Longrightarrow> pinned_set events cp \<subseteq> pinned_set events cp'"
  unfolding pinned_set_def by (blast intro: le_trans)

section \<open>Free operations, window and floor\<close>

lemma set_free_ops [enum_simps]:
  "set (free_ops events cp)
   = {i. i \<le> cp \<and> returned_mutation (events ! i) \<and> i \<notin> pinned_set events cp}"
  by (auto simp: free_ops_def set_pinned_ops returned_mutation_def less_Suc_eq_le simp del: upt_Suc)

lemma sorted_free_ops [simp]: "sorted (free_ops events cp)"
  by (simp add: free_ops_def sorted_wrt_filter del: upt_Suc)

lemma distinct_free_ops [simp]: "distinct (free_ops events cp)"
  by (simp add: free_ops_def del: upt_Suc)

text \<open>For a positive window size the free operations split into the older ones and the window.\<close>

lemma window_ops_pos:
  "0 < maxUnpersistedWindow bnds \<Longrightarrow>
   window_ops events bnds cp
   = drop (length (free_ops events cp) - nat (maxUnpersistedWindow bnds)) (free_ops events cp)"
  by (simp add: window_ops_eq slice_from_neg)

lemma older_ops_pos:
  "0 < maxUnpersistedWindow bnds \<Longrightarrow>
   older_ops events bnds cp
   = take (length (free_ops events cp) - nat (maxUnpersistedWindow bnds)) (free_ops events cp)"
  by (simp add: older_ops_eq Let_def slice_prefix max_def) (auto simp: nat_minus_as_int)

lemma older_append_window:
  "0 < maxUnpersistedWindow bnds \<Longrightarrow>
   older_ops events bnds cp @ window_ops events bnds cp = free_ops events cp"
  by (simp add: window_ops_pos older_ops_pos)

lemma length_window_ops:
  "0 < maxUnpersistedWindow bnds \<Longrightarrow>
   length (window_ops events bnds cp)
   = min (nat (maxUnpersistedWindow bnds)) (length (free_ops events cp))"
  by (simp add: window_ops_pos)

lemma distinct_window_ops [simp]: "distinct (window_ops events bnds cp)"
  by (simp add: window_ops_eq slice_from_def)

lemma set_window_subset: "set (window_ops events bnds cp) \<subseteq> set (free_ops events cp)"
  by (simp add: window_ops_eq slice_from_def set_drop_subset)

lemma set_older_subset: "set (older_ops events bnds cp) \<subseteq> set (free_ops events cp)"
  by (auto simp: older_ops_eq Let_def slice_def dest: in_set_takeD in_set_dropD)

lemma set_alwaysPresent [enum_simps]:
  "set (alwaysPresent events bnds cp) = pinned_set events cp \<union> set (older_ops events bnds cp)"
  by (simp add: alwaysPresent_eq set_pinned_ops)

lemma sorted_alwaysPresent [simp]: "sorted (alwaysPresent events bnds cp)"
  by (simp add: alwaysPresent_eq)

lemma distinct_alwaysPresent [simp]: "distinct (alwaysPresent events bnds cp)"
  by (simp add: alwaysPresent_eq)

lemma window_disjoint_always:
  assumes "0 < maxUnpersistedWindow bnds"
  shows "set (window_ops events bnds cp) \<inter> set (alwaysPresent events bnds cp) = {}"
proof -
  have "distinct (older_ops events bnds cp @ window_ops events bnds cp)"
    using assms by (simp add: older_append_window)
  moreover have "set (window_ops events bnds cp) \<inter> pinned_set events cp = {}"
    using set_window_subset [of events bnds cp] by (auto simp: set_free_ops)
  ultimately show ?thesis by (auto simp: set_alwaysPresent)
qed

text \<open>Everything a state can contain: the pinned operations and the returned mutations.\<close>

definition issued_set :: "trace_event list \<Rightarrow> nat \<Rightarrow> nat set" where
  "issued_set events cp = pinned_set events cp \<union> {i. i \<le> cp \<and> returned_mutation (events ! i)}"

lemma issued_set_mutating: "i \<in> issued_set events cp \<Longrightarrow> i \<le> cp \<and> ev_call (events ! i) \<in> MUTATING"
  by (auto simp: issued_set_def returned_mutation_def dest: pinned_set_mutating)

lemma finite_issued_set [simp]: "finite (issued_set events cp)"
  by (rule finite_subset [of _ "{..cp}"]) (auto dest: issued_set_mutating)

lemma always_union_window:
  assumes "0 < maxUnpersistedWindow bnds"
  shows "set (alwaysPresent events bnds cp) \<union> set (window_ops events bnds cp) = issued_set events cp"
proof -
  have "set (older_ops events bnds cp) \<union> set (window_ops events bnds cp) = set (free_ops events cp)"
    using arg_cong [OF older_append_window [OF assms], of set events cp] by simp
  then show ?thesis
    by (auto simp: set_alwaysPresent set_free_ops issued_set_def)
qed

section \<open>The existence filter\<close>

lemma earlier_flags_eq:
  "earlier_flags events present i
   = ((\<exists>j. creates events i j), (\<exists>j\<in>set present. creates events i j))"
proof -
  have loop: "foldl (\<lambda>(earlier, earlierPersisted) j.
         let candidate = events ! j in
         if ev_path candidate \<noteq> ev_path (events ! i) then (earlier, earlierPersisted)
         else if ev_call candidate \<notin> MUTATING \<or> ev_returnValue candidate < 0
           then (earlier, earlierPersisted)
         else (True, if j \<in> set present then True else earlierPersisted)) (a, b) js
     = (a \<or> (\<exists>j\<in>set js. ev_path (events ! j) = ev_path (events ! i) \<and> returned_mutation (events ! j)),
        b \<or> (\<exists>j\<in>set js. ev_path (events ! j) = ev_path (events ! i)
               \<and> returned_mutation (events ! j) \<and> j \<in> set present))" for a b js
    by (induction js arbitrary: a b) (auto simp: Let_def returned_mutation_def)
  show ?thesis
    unfolding earlier_flags_def loop by (auto simp: creates_def)
qed

lemma existsOnDisk_iff [enum_simps]:
  "existsOnDisk events persisted \<longleftrightarrow> materializable events (set persisted)"
  by (auto simp: existsOnDisk_def list_all_iff earlier_flags_eq materializable_def)

lemma existsOnDisk_cong: "set xs = set ys \<Longrightarrow> existsOnDisk events xs = existsOnDisk events ys"
  by (simp add: existsOnDisk_iff)

section \<open>Torn prefixes\<close>

definition is_write :: "call_name \<Rightarrow> bool" where
  "is_write c \<longleftrightarrow> c = CWrite \<or> c = CPwrite \<or> c = CWritev"

lemma less_sectors_iff: "k < sectors len \<longleftrightarrow> k * 512 < len"
proof -
  define q r where "q = (- len) div 512" and "r = (- len) mod 512"
  have "512 * q + r = - len" "0 \<le> r" "r < 512"
    by (simp_all add: q_def r_def)
  then have "k < - q \<longleftrightarrow> k * 512 < len" by linarith
  then show ?thesis by (simp add: sectors_def SECTOR_BYTES_def q_def)
qed

lemma set_strictSectorPrefixes [enum_simps]:
  "b \<in> set (strictSectorPrefixes event) \<longleftrightarrow>
   is_write (ev_call event) \<and> (\<exists>k\<ge>1. b = k * SECTOR_BYTES) \<and> int b < ev_length event"
proof -
  have "k < nat (sectors (ev_length event)) \<longleftrightarrow> int (k * SECTOR_BYTES) < ev_length event" for k
    using less_sectors_iff [of "int k" "ev_length event"]
    by (simp add: zless_nat_eq_int_zless SECTOR_BYTES_def)
  then have "(\<exists>k\<in>{1..<nat (sectors (ev_length event))}. b = k * SECTOR_BYTES) \<longleftrightarrow>
        (\<exists>k\<ge>1. b = k * SECTOR_BYTES) \<and> int b < ev_length event"
    by (metis atLeastLessThan_iff)
  then show ?thesis
    by (auto simp: strictSectorPrefixes_def is_write_def)
qed

lemma length_strictSectorPrefixes:
  "is_write (ev_call event) \<Longrightarrow>
   length (strictSectorPrefixes event) = nat (sectors (ev_length event)) - 1"
  by (auto simp: strictSectorPrefixes_def is_write_def)

lemma distinct_strictSectorPrefixes [simp]: "distinct (strictSectorPrefixes event)"
  by (auto simp: strictSectorPrefixes_def distinct_map inj_on_def SECTOR_BYTES_def)

section \<open>Masks and subsets\<close>

definition mask_subset :: "nat list \<Rightarrow> nat \<Rightarrow> nat set" where
  "mask_subset window m = {window ! b | b. b < length window \<and> bit m b}"

lemma mask_subset_subset: "mask_subset window m \<subseteq> set window"
  by (auto simp: mask_subset_def)

lemma mask_subset_surj:
  assumes "distinct window" "S \<subseteq> set window"
  shows "\<exists>m < 2 ^ length window. mask_subset window m = S"
proof -
  define m :: nat where "m = horner_sum of_bool 2 (map (\<lambda>x. x \<in> S) window)"
  have "m < 2 ^ length window"
    using horner_sum_of_bool_2_less [of "map (\<lambda>x. x \<in> S) window"]
    by (simp add: m_def flip: of_nat_less_iff)
  moreover have "bit m b \<longleftrightarrow> b < length window \<and> window ! b \<in> S" for b
    by (auto simp: m_def bit_horner_sum_bit_iff)
  then have "mask_subset window m = S"
    using assms(2) by (auto simp: mask_subset_def in_set_conv_nth subset_iff)
  ultimately show ?thesis by blast
qed

lemma mask_subset_inj:
  assumes "distinct window" "m < 2 ^ length window" "m' < 2 ^ length window"
    and "mask_subset window m = mask_subset window m'"
  shows "m = m'"
proof (rule bit_eqI)
  fix b
  have bits: "bit k b \<longleftrightarrow> b < length window \<and> window ! b \<in> mask_subset window k"
    if "k < 2 ^ length window" for k
  proof -
    have "bit (take_bit (length window) k) b \<longleftrightarrow> bit k b"
      using that by (simp add: take_bit_nat_eq_self)
    then show ?thesis
      using assms(1) by (auto simp: mask_subset_def bit_take_bit_iff nth_eq_iff_index_eq)
  qed
  show "bit m b \<longleftrightarrow> bit m' b"
    using assms by (simp add: bits)
qed

lemma set_mask_persisted [enum_simps]:
  assumes "length window \<le> 31"
  shows "set (mask_persisted always window m) = set always \<union> mask_subset window m"
proof -
  have "bit_and m b \<longleftrightarrow> bit m b" if "b < length window" for b
    using that assms by (intro bit_and_iff) simp
  then show ?thesis
    by (auto simp: mask_persisted_def mask_subset_def)
qed

lemma mask_persisted_eq:
  assumes "length window \<le> 31" "distinct (always @ window)"
  shows "mask_persisted always window m
         = sorted_list_of_set (set always \<union> mask_subset window m)"
proof -
  have "distinct (always @ map (\<lambda>b. window ! b) (filter (bit_and m) [0..<length window]))"
    using assms(2) by (auto simp: distinct_map inj_on_def nth_eq_iff_index_eq)
  then have "mask_persisted always window m = sorted_list_of_set (set (mask_persisted always window m))"
    by (simp add: mask_persisted_def sort_eq_sorted_list_of_set)
  then show ?thesis
    using assms(1) by (simp add: set_mask_persisted)
qed

end
