(* ===== verification/Legality.thy ===== *)
theory Legality
  imports EnumerationFacts
begin

text \<open>
  What a crash state is allowed to be, stated without the loops of the enumerator: the durability
  floor, the window of operations that may be missing, the legality predicate for the reordering
  and for the total-order models, and a write-back machine that persists one issued operation at a
  time. \<open>Enumeration\<close> proves that the code produces exactly these states.
\<close>

section \<open>Floor and window\<close>

definition free_set :: "trace_event list \<Rightarrow> nat \<Rightarrow> nat set" where
  "free_set events cp = {i. i \<le> cp \<and> returned_mutation (events ! i) \<and> i \<notin> pinned_set events cp}"

text \<open>The youngest \<open>w\<close> free operations: fewer than \<open>w\<close> free operations were issued later.\<close>

definition window_set :: "trace_event list \<Rightarrow> nat \<Rightarrow> nat \<Rightarrow> nat set" where
  "window_set events w cp =
     {i \<in> free_set events cp. card {k \<in> free_set events cp. i < k} < w}"

text \<open>What every state contains: pinned operations and free ones older than the window.\<close>

definition floor_set :: "trace_event list \<Rightarrow> nat \<Rightarrow> nat \<Rightarrow> nat set" where
  "floor_set events w cp = issued_set events cp - window_set events w cp"

lemma free_set_subset_issued: "free_set events cp \<subseteq> issued_set events cp"
  by (auto simp: free_set_def issued_set_def)

lemma finite_free_set [simp]: "finite (free_set events cp)"
  by (rule finite_subset [OF free_set_subset_issued]) simp

lemma window_set_subset: "window_set events w cp \<subseteq> free_set events cp"
  by (auto simp: window_set_def)

lemma pinned_in_floor: "pinned_set events cp \<subseteq> floor_set events w cp"
  by (auto simp: floor_set_def issued_set_def window_set_def free_set_def)

lemma floor_union_window: "floor_set events w cp \<union> window_set events w cp = issued_set events cp"
  using window_set_subset free_set_subset_issued by (fastforce simp: floor_set_def)

section \<open>Legality\<close>

text \<open>
  Reordering models: the floor is present, everything present was issued, and a size change is on
  disk only with an operation that can have created its file. At most one absent write of the
  window may be on disk as a strict sector prefix, and only when torn writes are modelled.
\<close>

definition legal_persisted :: "trace_event list \<Rightarrow> nat \<Rightarrow> nat \<Rightarrow> nat list \<Rightarrow> bool" where
  "legal_persisted events w cp ps \<longleftrightarrow>
     sorted ps \<and> distinct ps \<and> floor_set events w cp \<subseteq> set ps \<and> set ps \<subseteq> issued_set events cp
     \<and> materializable events (set ps)"

definition legal_partial ::
    "trace_event list \<Rightarrow> bool \<Rightarrow> nat \<Rightarrow> nat \<Rightarrow> nat list \<Rightarrow> torn_op list \<Rightarrow> bool" where
  "legal_partial events torn w cp ps partial \<longleftrightarrow>
     partial = [] \<or>
     torn \<and> (\<exists>op b. partial = [\<lparr>to_op = op, to_bytes = b\<rparr>]
        \<and> op \<in> window_set events w cp - set ps \<and> b \<in> set (strictSectorPrefixes (events ! op)))"

definition legal_state :: "trace_event list \<Rightarrow> bool \<Rightarrow> nat \<Rightarrow> crash_state \<Rightarrow> bool" where
  "legal_state events torn w s \<longleftrightarrow>
     legal_persisted events w (cs_crashPoint s) (cs_persisted s)
     \<and> legal_partial events torn w (cs_crashPoint s) (cs_persisted s) (cs_partial s)"

text \<open>Total order: what is present is closed under "issued earlier", and nothing is torn.\<close>

definition legal_ordered :: "trace_event list \<Rightarrow> nat \<Rightarrow> crash_state \<Rightarrow> bool" where
  "legal_ordered events w s \<longleftrightarrow>
     (let ps = cs_persisted s; cp = cs_crashPoint s in
      sorted ps \<and> distinct ps \<and> floor_set events w cp \<subseteq> set ps \<and> set ps \<subseteq> issued_set events cp
      \<and> (\<forall>i\<in>set ps. \<forall>j\<in>issued_set events cp. j < i \<longrightarrow> j \<in> set ps)
      \<and> cs_partial s = [])"

text \<open>
  Closure under program order makes the existence filter redundant: whatever created the file was
  issued earlier. So every total-order state is legal under a reordering model as well.
\<close>

lemma downward_closed_materializable:
  assumes sub: "P \<subseteq> issued_set events cp"
    and down: "\<forall>i\<in>P. \<forall>j\<in>issued_set events cp. j < i \<longrightarrow> j \<in> P"
  shows "materializable events P"
  unfolding materializable_def
proof (intro ballI impI)
  fix i assume i: "i \<in> P" and "\<exists>j. creates events i j"
  then obtain j where j: "creates events i j" by blast
  from i sub have "i \<le> cp"
    by (auto dest: issued_set_mutating)
  with j have "j \<in> issued_set events cp"
    by (auto simp: creates_def issued_set_def)
  with down i j have "j \<in> P"
    by (auto simp: creates_def)
  with j show "\<exists>j\<in>P. creates events i j" by blast
qed

lemma legal_ordered_legal: "legal_ordered events w s \<Longrightarrow> legal_state events torn w s"
  using downward_closed_materializable [of "set (cs_persisted s)" events "cs_crashPoint s"]
  by (auto simp: legal_ordered_def legal_state_def legal_persisted_def legal_partial_def Let_def)

section \<open>The write-back machine\<close>

text \<open>
  One step writes one more issued operation to the disk, in any order. The only guard is that a
  size change of a file the trace created waits for an operation that can have created it.
\<close>

inductive writeback :: "trace_event list \<Rightarrow> nat \<Rightarrow> nat set \<Rightarrow> nat set \<Rightarrow> bool"
  for events cp where
  flush: "i \<in> issued_set events cp \<Longrightarrow> i \<notin> P \<Longrightarrow>
     (ev_call (events ! i) \<in> NEEDS_EXISTING_FILE \<Longrightarrow> \<exists>j. creates events i j \<Longrightarrow>
        \<exists>j\<in>P. creates events i j) \<Longrightarrow>
     writeback events cp P (insert i P)"

inductive_cases writebackE: "writeback events cp P Q"

definition writeback_reachable :: "trace_event list \<Rightarrow> nat \<Rightarrow> nat set \<Rightarrow> bool" where
  "writeback_reachable events cp = (writeback events cp)\<^sup>*\<^sup>* {}"

lemma writeback_sound:
  "(writeback events cp)\<^sup>*\<^sup>* {} P \<Longrightarrow> P \<subseteq> issued_set events cp \<and> materializable events P"
proof (induction rule: rtranclp_induct)
  case base
  show ?case by (simp add: materializable_def)
next
  case (step P Q)
  from step.hyps(2) show ?case
  proof (rule writebackE)
    fix i
    assume Q: "Q = insert i P" and i: "i \<in> issued_set events cp"
      and guard: "ev_call (events ! i) \<in> NEEDS_EXISTING_FILE \<Longrightarrow> \<exists>j. creates events i j \<Longrightarrow>
        \<exists>j\<in>P. creates events i j"
    have "materializable events Q"
      using step.IH guard unfolding materializable_def Q by blast
    then show ?thesis using step.IH i Q by blast
  qed
qed

lemma writeback_complete:
  assumes "finite P" "P \<subseteq> issued_set events cp" "materializable events P"
  shows "(writeback events cp)\<^sup>*\<^sup>* {} P"
  using assms
proof (induction P rule: finite_linorder_max_induct)
  case empty
  then show ?case by simp
next
  case (insert i P)
  have mat: "materializable events P"
    unfolding materializable_def
  proof (intro ballI impI)
    fix k assume k: "k \<in> P" "ev_call (events ! k) \<in> NEEDS_EXISTING_FILE" "\<exists>j. creates events k j"
    then obtain j where j: "j \<in> insert i P" "creates events k j"
      using insert.prems(2) unfolding materializable_def by blast
    moreover from j k insert.hyps have "j \<noteq> i"
      by (auto simp: creates_def)
    ultimately show "\<exists>j\<in>P. creates events k j" by blast
  qed
  have "writeback events cp P (insert i P)"
  proof (rule writeback.flush)
    show "i \<in> issued_set events cp" using insert.prems(1) by simp
    show "i \<notin> P" using insert.hyps by auto
    assume "ev_call (events ! i) \<in> NEEDS_EXISTING_FILE" "\<exists>j. creates events i j"
    then obtain j where "j \<in> insert i P" "creates events i j"
      using insert.prems(2) unfolding materializable_def by blast
    then show "\<exists>j\<in>P. creates events i j"
      by (auto simp: creates_def)
  qed
  moreover have "(writeback events cp)\<^sup>*\<^sup>* {} P"
    using insert.IH insert.prems(1) mat by blast
  ultimately show ?case by (rule rtranclp.rtrancl_into_rtrancl [rotated])
qed

lemma writeback_reachable_iff:
  "writeback_reachable events cp P \<longleftrightarrow> P \<subseteq> issued_set events cp \<and> materializable events P"
  using writeback_sound writeback_complete finite_subset [OF _ finite_issued_set]
  unfolding writeback_reachable_def by metis

end
