(* ===== verification/Enumeration.thy ===== *)
theory Enumeration
  imports Legality
begin

text \<open>
  The enumerator of \<open>States\<close> against the specification of \<open>Legality\<close>: its output is exactly the
  set of legal states, without duplicates, for any window size between 1 and 30. The facts here
  are about one crash point; the root theory states them for \<open>enumerateCrashStates\<close>.
\<close>

section \<open>Window and floor of the code are those of the specification\<close>

lemma free_ops_free_set: "set (free_ops events cp) = free_set events cp"
  by (simp add: set_free_ops free_set_def)

lemma window_ops_window_set:
  assumes "0 < maxUnpersistedWindow bnds"
  shows "set (window_ops events bnds cp) = window_set events (nat (maxUnpersistedWindow bnds)) cp"
  using assms
  by (auto simp: window_ops_pos drop_last_iff window_set_def free_ops_free_set)

lemma alwaysPresent_floor:
  assumes "0 < maxUnpersistedWindow bnds"
  shows "set (alwaysPresent events bnds cp) = floor_set events (nat (maxUnpersistedWindow bnds)) cp"
  using always_union_window [OF assms, of events cp] window_disjoint_always [OF assms, of events cp]
    window_ops_window_set [OF assms, of events cp]
  by (auto simp: floor_set_def)

lemma length_window_le:
  "0 < maxUnpersistedWindow bnds \<Longrightarrow> maxUnpersistedWindow bnds \<le> 30 \<Longrightarrow>
   length (window_ops events bnds cp) \<le> 30"
  by (simp add: length_window_ops)

section \<open>One crash point of a reordering model\<close>

locale window_bounds =
  fixes events :: "trace_event list" and bnds :: bounds and cp :: nat
  assumes window_pos: "0 < maxUnpersistedWindow bnds"
    and window_small: "maxUnpersistedWindow bnds \<le> 30"
begin

lemmas always_floor = alwaysPresent_floor [OF window_pos, of events cp]
  and window_window = window_ops_window_set [OF window_pos, of events cp]
  and window_length = length_window_le [OF window_pos window_small, of events cp]

lemma distinct_always_window: "distinct (alwaysPresent events bnds cp @ window_ops events bnds cp)"
  using window_disjoint_always [OF window_pos, of events cp] by auto

lemma mask_count: "nat (one_shl (length (window_ops events bnds cp)))
                   = 2 ^ length (window_ops events bnds cp)"
  using window_length by (simp add: one_shl_small nat_power_eq)

lemma mask_persisted_list:
  "mask_persisted (alwaysPresent events bnds cp) (window_ops events bnds cp) m
   = sorted_list_of_set (set (alwaysPresent events bnds cp)
        \<union> mask_subset (window_ops events bnds cp) m)"
  using window_length distinct_always_window by (intro mask_persisted_eq) simp_all

lemma mask_persisted_set:
  "set (mask_persisted (alwaysPresent events bnds cp) (window_ops events bnds cp) m)
   = floor_set events (nat (maxUnpersistedWindow bnds)) cp \<union> mask_subset (window_ops events bnds cp) m"
  using window_length by (simp add: set_mask_persisted always_floor)

text \<open>A list of operations belongs to some mask iff it lies between the floor and the issued set.\<close>

lemma mask_of_persisted:
  assumes "sorted ps" "distinct ps"
    and "floor_set events (nat (maxUnpersistedWindow bnds)) cp \<subseteq> set ps"
    and "set ps \<subseteq> issued_set events cp"
  shows "\<exists>m < 2 ^ length (window_ops events bnds cp).
           mask_persisted (alwaysPresent events bnds cp) (window_ops events bnds cp) m = ps"
proof -
  let ?w = "window_ops events bnds cp"
  obtain m where m: "m < 2 ^ length ?w" "mask_subset ?w m = set ps \<inter> set ?w"
    using mask_subset_surj [of ?w "set ps \<inter> set ?w"] by auto
  have "set (alwaysPresent events bnds cp) \<union> (set ps \<inter> set ?w) = set ps"
    using assms(3,4) always_union_window [OF window_pos, of events cp] always_floor by blast
  then have "mask_persisted (alwaysPresent events bnds cp) ?w m = sorted_list_of_set (set ps)"
    using m(2) by (simp add: mask_persisted_list)
  then show ?thesis
    using m(1) assms(1,2) by (auto simp: sorted_distinct_unique intro!: exI [of _ m])
qed

lemma mask_persisted_bounds:
  fixes m :: nat
  defines "ps \<equiv> mask_persisted (alwaysPresent events bnds cp) (window_ops events bnds cp) m"
  shows "sorted ps" "distinct ps"
    and "floor_set events (nat (maxUnpersistedWindow bnds)) cp \<subseteq> set ps"
    and "set ps \<subseteq> issued_set events cp"
proof -
  show "sorted ps" "distinct ps"
    by (simp_all add: ps_def mask_persisted_list)
  show "floor_set events (nat (maxUnpersistedWindow bnds)) cp \<subseteq> set ps"
    by (simp add: ps_def mask_persisted_set)
  show "set ps \<subseteq> issued_set events cp"
    using mask_subset_subset [of "window_ops events bnds cp" m] set_window_subset [of events bnds cp]
      free_set_subset_issued [of events cp]
    by (auto simp: ps_def mask_persisted_set floor_set_def free_ops_free_set)
qed

lemma mask_states_legal:
  "s \<in> set (mask_states events bnds cp (alwaysPresent events bnds cp) (window_ops events bnds cp) m)
   \<longleftrightarrow> cs_crashPoint s = cp
     \<and> cs_persisted s = mask_persisted (alwaysPresent events bnds cp) (window_ops events bnds cp) m
     \<and> materializable events (set (cs_persisted s))
     \<and> legal_partial events (tornWrites bnds) (nat (maxUnpersistedWindow bnds)) cp
          (cs_persisted s) (cs_partial s)"
  by (cases s) (auto simp: mask_states_def Let_def torn_states_def legal_partial_def existsOnDisk_iff
      window_window)

lemma in_reordering_states:
  "s \<in> set (reordering_states events bnds cp) \<longleftrightarrow>
     cs_crashPoint s = cp
     \<and> (\<exists>m < 2 ^ length (window_ops events bnds cp). cs_persisted s
          = mask_persisted (alwaysPresent events bnds cp) (window_ops events bnds cp) m)
     \<and> materializable events (set (cs_persisted s))
     \<and> legal_partial events (tornWrites bnds) (nat (maxUnpersistedWindow bnds)) cp
          (cs_persisted s) (cs_partial s)"
  by (auto simp: reordering_states_eq Let_def mask_count mask_states_legal)

lemma persisted_masks:
  "(\<exists>m < 2 ^ length (window_ops events bnds cp).
      ps = mask_persisted (alwaysPresent events bnds cp) (window_ops events bnds cp) m)
   \<longleftrightarrow> sorted ps \<and> distinct ps \<and> floor_set events (nat (maxUnpersistedWindow bnds)) cp \<subseteq> set ps
     \<and> set ps \<subseteq> issued_set events cp"
  using mask_persisted_bounds mask_of_persisted [of ps] by blast

lemma reordering_states_exact:
  "set (reordering_states events bnds cp)
   = {s. cs_crashPoint s = cp
       \<and> legal_state events (tornWrites bnds) (nat (maxUnpersistedWindow bnds)) s}"
  unfolding set_eq_iff in_reordering_states persisted_masks
  by (auto simp: legal_state_def legal_persisted_def)

text \<open>No state is produced twice: the mask is determined by the state.\<close>

lemma distinct_mask_states:
  "distinct (mask_states events bnds cp (alwaysPresent events bnds cp) (window_ops events bnds cp) m)"
proof -
  have "distinct (torn_states events cp (window_ops events bnds cp) ps)" for ps
    unfolding torn_states_def
    by (rule distinct_concat_map) (auto simp: distinct_map inj_on_def)
  then show ?thesis
    by (auto simp: mask_states_def Let_def torn_states_def)
qed

lemma mask_persisted_inj:
  assumes "m < 2 ^ length (window_ops events bnds cp)" "m' < 2 ^ length (window_ops events bnds cp)"
    and "mask_persisted (alwaysPresent events bnds cp) (window_ops events bnds cp) m
         = mask_persisted (alwaysPresent events bnds cp) (window_ops events bnds cp) m'"
  shows "m = m'"
proof -
  have "mask_subset (window_ops events bnds cp) k
      = set (mask_persisted (alwaysPresent events bnds cp) (window_ops events bnds cp) k)
        - set (alwaysPresent events bnds cp)" for k
    using mask_subset_subset [of "window_ops events bnds cp" k]
      window_disjoint_always [OF window_pos, of events cp]
    by (auto simp: mask_persisted_set always_floor)
  then show ?thesis
    using mask_subset_inj [OF distinct_window_ops assms(1,2)] assms(3) by metis
qed

lemma distinct_reordering_states: "distinct (reordering_states events bnds cp)"
  unfolding reordering_states_eq Let_def mask_count
proof (rule distinct_concat_map)
  fix m m' :: nat
  assume "m \<in> set [0..<2 ^ length (window_ops events bnds cp)]"
    "m' \<in> set [0..<2 ^ length (window_ops events bnds cp)]" "m \<noteq> m'"
  then show "set (mask_states events bnds cp (alwaysPresent events bnds cp)
                (window_ops events bnds cp) m)
      \<inter> set (mask_states events bnds cp (alwaysPresent events bnds cp)
                (window_ops events bnds cp) m') = {}"
    using mask_persisted_inj [of m m'] by (auto simp: mask_states_legal)
qed (simp_all add: distinct_mask_states)

end

section \<open>One crash point of a total-order model\<close>

lemma issued_ops_list:
  assumes "0 < maxUnpersistedWindow bnds"
  shows "issued_ops events bnds cp = sorted_list_of_set (issued_set events cp)"
  using always_union_window [OF assms, of events cp]
  by (simp add: issued_ops_eq sort_set_of_list)

lemma total_order_states_exact:
  assumes pos: "0 < maxUnpersistedWindow bnds"
  shows "set (total_order_states events bnds cp)
    = {s. cs_crashPoint s = cp \<and> legal_ordered events (nat (maxUnpersistedWindow bnds)) s}"
proof (intro set_eqI iffI)
  let ?xs = "issued_ops events bnds cp"
  have xs: "sorted ?xs" "distinct ?xs" "set ?xs = issued_set events cp"
    by (simp_all add: issued_ops_list [OF pos])
  {
    fix s assume "s \<in> set (total_order_states events bnds cp)"
    then obtain n where n: "cs_persisted s = take n ?xs" "cs_crashPoint s = cp" "cs_partial s = []"
      "floor_set events (nat (maxUnpersistedWindow bnds)) cp \<subseteq> set (take n ?xs)"
      by (auto simp: total_order_states_eq Let_def list_all_iff alwaysPresent_floor [OF pos]
          subset_iff split: if_splits simp del: upt_Suc)
    then show "s \<in> {s. cs_crashPoint s = cp
        \<and> legal_ordered events (nat (maxUnpersistedWindow bnds)) s}"
      using xs set_take_subset [of n ?xs] take_downward_closed [OF xs(1), of _ n]
      by (auto simp: legal_ordered_def Let_def)
  }
  fix s assume "s \<in> {s. cs_crashPoint s = cp
      \<and> legal_ordered events (nat (maxUnpersistedWindow bnds)) s}"
  then have s: "cs_crashPoint s = cp" "sorted (cs_persisted s)" "distinct (cs_persisted s)"
    "floor_set events (nat (maxUnpersistedWindow bnds)) cp \<subseteq> set (cs_persisted s)"
    "set (cs_persisted s) \<subseteq> set ?xs"
    "\<forall>i\<in>set (cs_persisted s). \<forall>j\<in>set ?xs. j < i \<longrightarrow> j \<in> set (cs_persisted s)" "cs_partial s = []"
    by (auto simp: legal_ordered_def Let_def xs(3))
  have len: "length (cs_persisted s) \<le> length ?xs"
    using s(3,5) xs(2) by (metis List.finite_set card_mono distinct_card)
  have "cs_persisted s = take (length (cs_persisted s)) ?xs"
    by (rule sorted_downward_prefix [OF xs(1,2) s(2,3,5,6)])
  moreover from this have "list_all (\<lambda>i. i \<in> set (take (length (cs_persisted s)) ?xs))
      (alwaysPresent events bnds cp)"
    using s(4) by (auto simp: list_all_iff alwaysPresent_floor [OF pos])
  ultimately show "s \<in> set (total_order_states events bnds cp)"
    using s(1,7) len
    by (cases s) (auto simp: total_order_states_eq Let_def simp del: upt_Suc
        intro!: bexI [of _ "length (cs_persisted s)"])
qed

lemma distinct_total_order_states: "distinct (total_order_states events bnds cp)"
  unfolding total_order_states_eq Let_def
proof (rule distinct_concat_map)
  fix n n' assume "n \<in> set [0..<Suc (length (issued_ops events bnds cp))]"
    "n' \<in> set [0..<Suc (length (issued_ops events bnds cp))]" "n \<noteq> n'"
  then have "length (take n (issued_ops events bnds cp)) \<noteq> length (take n' (issued_ops events bnds cp))"
    by auto
  then have "take n (issued_ops events bnds cp) \<noteq> take n' (issued_ops events bnds cp)"
    by metis
  then show "set (if list_all (\<lambda>index. index \<in> set (take n (issued_ops events bnds cp)))
          (alwaysPresent events bnds cp)
        then [\<lparr>cs_crashPoint = cp, cs_persisted = take n (issued_ops events bnds cp), cs_partial = []\<rparr>]
        else [])
      \<inter> set (if list_all (\<lambda>index. index \<in> set (take n' (issued_ops events bnds cp)))
          (alwaysPresent events bnds cp)
        then [\<lparr>cs_crashPoint = cp, cs_persisted = take n' (issued_ops events bnds cp), cs_partial = []\<rparr>]
        else []) = {}"
    by auto
qed (simp_all split: if_splits del: upt_Suc)

section \<open>The whole enumeration\<close>

definition crash_points_of :: "trace \<Rightarrow> enumerate_options \<Rightarrow> nat list" where
  "crash_points_of trace options =
     (case eo_crashPoints options of Some cps \<Rightarrow> cps | None \<Rightarrow> [0..<length (tr_events trace)])"

definition point_states :: "trace_event list \<Rightarrow> filesystem_model \<Rightarrow> bounds \<Rightarrow> nat \<Rightarrow> crash_state list" where
  "point_states events model bnds cp =
     (if totalOrder model then total_order_states events bnds cp
      else reordering_states events bnds cp)"

lemma crash_point_states_eq:
  "crash_point_states events model bnds cp
   = (if length events \<le> cp then Inl TypeError else Inr (point_states events model bnds cp))"
  by (simp add: crash_point_states_cases point_states_def)

lemma enumerate_cases:
  "enumerateCrashStates trace options =
     (if \<forall>cp\<in>set (crash_points_of trace options). cp < length (tr_events trace)
      then Inr (concat (map (point_states (tr_events trace) (eo_model options) (eo_bounds options))
             (crash_points_of trace options)))
      else Inl TypeError)"
proof -
  let ?f = "crash_point_states (tr_events trace) (eo_model options) (eo_bounds options)"
  let ?g = "point_states (tr_events trace) (eo_model options) (eo_bounds options)"
  have "map_result ?f cps = (if \<forall>cp\<in>set cps. cp < length (tr_events trace)
      then Inr (map ?g cps) else Inl TypeError)" for cps
    by (induction cps) (auto simp: crash_point_states_eq)
  then show ?thesis
    by (simp add: enumerateCrashStates_def crash_points_of_def Let_def)
qed

lemma enumerate_Inr_iff:
  "enumerateCrashStates trace options = Inr states \<longleftrightarrow>
     (\<forall>cp\<in>set (crash_points_of trace options). cp < length (tr_events trace))
     \<and> states = concat (map (point_states (tr_events trace) (eo_model options) (eo_bounds options))
           (crash_points_of trace options))"
  by (auto simp: enumerate_cases)

lemma point_states_crashPoint:
  "s \<in> set (point_states events model bnds cp) \<Longrightarrow> cs_crashPoint s = cp"
  by (auto simp: point_states_def total_order_states_eq reordering_states_eq mask_states_def
      torn_states_def Let_def split: if_splits)

lemma distinct_point_states:
  assumes "0 < maxUnpersistedWindow bnds" "maxUnpersistedWindow bnds \<le> 30"
  shows "distinct (point_states events model bnds cp)"
  using window_bounds.distinct_reordering_states [OF window_bounds.intro [OF assms]]
  by (simp add: point_states_def distinct_total_order_states)

section \<open>Size of the state set\<close>

text \<open>
  A mask contributes its untorn state and at most one torn state per sector prefix of each window
  operation, so the window bounds the group of a crash point.
\<close>

definition torn_prefixes :: "trace_event list \<Rightarrow> nat list \<Rightarrow> nat" where
  "torn_prefixes events ops = (\<Sum>op\<leftarrow>ops. length (strictSectorPrefixes (events ! op)))"

lemma length_torn_states: "length (torn_states events cp window ps) \<le> torn_prefixes events window"
  unfolding torn_states_def torn_prefixes_def sum_list_concat_length
  by (rule sum_list_mono) simp

lemma length_mask_states:
  "length (mask_states events bnds cp always window m)
   \<le> 1 + (if tornWrites bnds then torn_prefixes events window else 0)"
  using length_torn_states [of events cp window "mask_persisted always window m"]
  by (simp add: mask_states_def Let_def)

lemma length_reordering_states:
  assumes "0 < maxUnpersistedWindow bnds" "maxUnpersistedWindow bnds \<le> 30"
  shows "length (reordering_states events bnds cp)
    \<le> 2 ^ length (window_ops events bnds cp)
      * (1 + (if tornWrites bnds then torn_prefixes events (window_ops events bnds cp) else 0))"
  unfolding reordering_states_eq Let_def
    window_bounds.mask_count [OF window_bounds.intro [OF assms]]
  by (rule order_trans [OF length_concat_le [OF length_mask_states]]) simp

lemma length_total_order_states:
  assumes "0 < maxUnpersistedWindow bnds"
  shows "length (total_order_states events bnds cp) \<le> Suc (length (window_ops events bnds cp))"
proof -
  let ?always = "alwaysPresent events bnds cp" and ?xs = "issued_ops events bnds cp"
  let ?ok = "\<lambda>n. list_all (\<lambda>index. index \<in> set (take n ?xs)) ?always"
  have len: "length ?xs = length ?always + length (window_ops events bnds cp)"
    using window_disjoint_always [OF assms, of events cp]
    by (simp add: issued_ops_eq set_of_list_distinct Int_commute)
  have ge: "length ?always \<le> n" if "?ok n" for n
  proof -
    have "set ?always \<subseteq> set (take n ?xs)" using that by (auto simp: list_all_iff)
    then have "card (set ?always) \<le> card (set (take n ?xs))" by (intro card_mono) simp_all
    also have "\<dots> \<le> length (take n ?xs)" by (rule card_length)
    finally show ?thesis by (simp add: distinct_card)
  qed
  have "length (total_order_states events bnds cp)
      = length (filter ?ok [0..<Suc (length ?xs)])"
    by (simp add: total_order_states_eq Let_def concat_if_singleton del: upt_Suc)
  also have "\<dots> \<le> card {length ?always..length ?xs}"
    unfolding length_filter_conv_card
    by (rule card_mono) (auto simp: ge less_Suc_eq_le simp del: upt_Suc dest: ge)
  also have "\<dots> = Suc (length (window_ops events bnds cp))"
    by (simp add: len)
  finally show ?thesis .
qed

end
