(* ===== verification/ShippedBounds.thy ===== *)
theory ShippedBounds
  imports Enumeration
begin

text \<open>
  The two bounds the enumerator reads, with the values of \<open>core/src/enumerate/bounds.jsonc\<close>, and the models:
  a window of eight operations with torn writes on. The contract of \<open>Enumeration\<close> is met by them.
\<close>

definition shipped_bounds :: bounds where
  "shipped_bounds = \<lparr>tornWrites = True, maxUnpersistedWindow = 8\<rparr>"

lemma shipped_window [simp]: "maxUnpersistedWindow shipped_bounds = 8" "tornWrites shipped_bounds"
  by (simp_all add: shipped_bounds_def)

interpretation shipped: window_bounds events shipped_bounds cp for events cp
  by unfold_locales simp_all

text \<open>With the shipped bounds a crash point has at most 256 subsets of missing operations.\<close>

lemma shipped_masks: "nat (one_shl (length (window_ops events shipped_bounds cp))) \<le> 256"
proof -
  have "length (window_ops events shipped_bounds cp) \<le> 8"
    by (simp add: length_window_ops)
  then have "(2::nat) ^ length (window_ops events shipped_bounds cp) \<le> 2 ^ 8"
    by (intro power_increasing) simp_all
  then show ?thesis
    by (simp add: shipped.mask_count)
qed

end
