(* ===== verification/SampleTraces.thy ===== *)
theory SampleTraces
  imports Trace
begin

text \<open>
  Concrete traces on which the theories evaluate their properties: a log that is written, synced,
  extended, truncated and renamed, and one that a failed write precedes.
\<close>

definition op_event :: "call_name \<Rightarrow> string \<Rightarrow> int \<Rightarrow> int \<Rightarrow> int \<Rightarrow> int \<Rightarrow> trace_event" where
  "op_event call path index offset len ret =
     \<lparr>ev_index = index, ev_completionIndex = index + 1, ev_call = call, ev_fd = 3, ev_threadId = 1,
      ev_path = path, ev_path2 = '''', ev_offset = offset, ev_length = len, ev_returnValue = ret,
      ev_errno = 0, ev_digest = ''''\<rparr>"

definition trace_of :: "trace_event list \<Rightarrow> trace_marker list \<Rightarrow> trace" where
  "trace_of events markers =
     \<lparr>tr_header = \<lparr>hd_version = 1, hd_pid = 1\<rparr>, tr_events = events, tr_markers = markers\<rparr>"

definition log_events :: "trace_event list" where
  "log_events =
     [op_event COpen ''/d/log'' 1 (-1) 0 3,
      op_event CPwrite ''/d/log'' 3 0 1024 1024,
      op_event CFsync ''/d/log'' 5 (-1) 0 0,
      op_event CPwrite ''/d/log'' 7 1024 1024 1024,
      op_event CFtruncate ''/d/log'' 9 1536 0 0]"

definition log_trace :: trace where
  "log_trace = trace_of log_events []"

definition failed_events :: "trace_event list" where
  "failed_events =
     [op_event CPwrite ''/d/log'' 1 0 512 (-1),
      op_event CFsync ''/d/log'' 3 (-1) 0 0]"

lemmas sample_trace_defs =
  op_event_def trace_of_def log_events_def log_trace_def failed_events_def

lemma length_log_events [simp]: "length log_events = 5"
  by (simp add: log_events_def)

lemma events_log_trace [simp]: "tr_events log_trace = log_events"
  by (simp add: log_trace_def trace_of_def)

end
