(* ===== verification/EnumerationProperties.thy ===== *)
theory EnumerationProperties
  imports ShippedBounds SampleTraces
begin

text \<open>
  The properties of \<open>enumerateCrashStates\<close> for whole traces: exactness against the legality
  predicates, the durability floor, the write-back machine, absence of duplicates, the size of the
  state space, causality, and the errors.
\<close>

section \<open>Shared facts\<close>

lemma in_enumerate:
  "enumerateCrashStates trace options = Inr states \<Longrightarrow>
   s \<in> set states \<longleftrightarrow> cs_crashPoint s \<in> set (crash_points_of trace options)
     \<and> s \<in> set (point_states (tr_events trace) (eo_model options) (eo_bounds options)
                  (cs_crashPoint s))"
  by (auto simp: enumerate_Inr_iff dest: point_states_crashPoint)

lemma point_states_legal:
  assumes "0 < maxUnpersistedWindow bnds" "maxUnpersistedWindow bnds \<le> 30"
  shows "s \<in> set (point_states events model bnds cp) \<longleftrightarrow> cs_crashPoint s = cp
    \<and> (if totalOrder model then legal_ordered events (nat (maxUnpersistedWindow bnds)) s
       else legal_state events (tornWrites bnds) (nat (maxUnpersistedWindow bnds)) s)"
  using window_bounds.reordering_states_exact [OF window_bounds.intro [OF assms], of events cp]
    total_order_states_exact [OF assms(1), of events cp]
  by (auto simp: point_states_def)

text \<open>The options of the campaign on a given model and crash points.\<close>

definition shipped_options :: "filesystem_model \<Rightarrow> nat list option \<Rightarrow> enumerate_options" where
  "shipped_options model cps =
     \<lparr>eo_model = model, eo_bounds = shipped_bounds, eo_crashPoints = cps\<rparr>"

lemma shipped_options_simps [simp]:
  "eo_model (shipped_options model cps) = model"
  "eo_bounds (shipped_options model cps) = shipped_bounds"
  "eo_crashPoints (shipped_options model cps) = cps"
  "(shipped_options model cps)\<lparr>eo_model := model'\<rparr> = shipped_options model' cps"
  by (simp_all add: shipped_options_def)

lemma shipped_points [simp]:
  "crash_points_of trace (shipped_options model None) = [0..<length (tr_events trace)]"
  "crash_points_of trace (shipped_options model (Some cps)) = cps"
  by (simp_all add: crash_points_of_def)

lemma enumerate_log_total:
  "\<exists>states. enumerateCrashStates log_trace (shipped_options model None) = Inr states"
  by (simp add: enumerate_cases)

section \<open>Properties\<close>

text \<open>C1: under a model that reorders, the enumeration is sound and complete: for every trace and
  every window between 1 and 30, the states it returns are exactly the legal states of the selected
  crash points.\<close>

theorem enumerate_reordering_exact:
  assumes "enumerateCrashStates trace options = Inr states"
    and "\<not> totalOrder (eo_model options)"
    and "0 < maxUnpersistedWindow (eo_bounds options)" "maxUnpersistedWindow (eo_bounds options) \<le> 30"
  shows "set states = {s. cs_crashPoint s \<in> set (crash_points_of trace options)
     \<and> legal_state (tr_events trace) (tornWrites (eo_bounds options))
          (nat (maxUnpersistedWindow (eo_bounds options))) s}"
  using in_enumerate [OF assms(1)] assms(2) point_states_legal [OF assms(3,4)] by auto

lemma enumerate_reordering_exact_witness:
  "\<exists>states. enumerateCrashStates log_trace (shipped_options ext4Ordered None) = Inr states
     \<and> set states = {s. cs_crashPoint s < 5 \<and> legal_state log_events True 8 s}"
proof -
  obtain states where states:
    "enumerateCrashStates log_trace (shipped_options ext4Ordered None) = Inr states"
    using enumerate_log_total by blast
  show ?thesis
    using enumerate_reordering_exact [OF states] states by auto
qed

text \<open>C14: under a total-order model the states are exactly the prefixes of the issued operations
  that contain the durability floor, and nothing is torn.\<close>

theorem enumerate_total_order_exact:
  assumes "enumerateCrashStates trace options = Inr states"
    and "totalOrder (eo_model options)" "0 < maxUnpersistedWindow (eo_bounds options)"
  shows "set states = {s. cs_crashPoint s \<in> set (crash_points_of trace options)
     \<and> legal_ordered (tr_events trace) (nat (maxUnpersistedWindow (eo_bounds options))) s}"
  using in_enumerate [OF assms(1)] assms(2) total_order_states_exact [OF assms(3)]
  by (auto simp: point_states_def)

lemma enumerate_total_order_exact_witness:
  "\<exists>states. enumerateCrashStates log_trace (shipped_options ext4Journal None) = Inr states
     \<and> set states = {s. cs_crashPoint s < 5 \<and> legal_ordered log_events 8 s}"
proof -
  obtain states where states:
    "enumerateCrashStates log_trace (shipped_options ext4Journal None) = Inr states"
    using enumerate_log_total by blast
  show ?thesis
    using enumerate_total_order_exact [OF states] states by auto
qed

text \<open>Every state of a total-order model is a state of every reordering model on the same trace,
  bounds and crash points.\<close>

lemma total_order_states_subset:
  assumes "enumerateCrashStates trace options = Inr ordered" "totalOrder (eo_model options)"
    and "enumerateCrashStates trace (options\<lparr>eo_model := model\<rparr>) = Inr reordered"
    and "\<not> totalOrder model"
    and "0 < maxUnpersistedWindow (eo_bounds options)" "maxUnpersistedWindow (eo_bounds options) \<le> 30"
  shows "set ordered \<subseteq> set reordered"
proof
  fix s assume "s \<in> set ordered"
  then show "s \<in> set reordered"
    using assms(2,4) in_enumerate [OF assms(1), of s] in_enumerate [OF assms(3), of s]
      legal_ordered_legal
    by (auto simp: point_states_legal [OF assms(5,6)] crash_points_of_def)
qed

lemma total_order_states_subset_example:
  "\<exists>ordered reordered.
     enumerateCrashStates log_trace (shipped_options ext4Journal None) = Inr ordered
     \<and> enumerateCrashStates log_trace (shipped_options xfs None) = Inr reordered
     \<and> set ordered \<subseteq> set reordered"
proof -
  obtain a b where ab: "enumerateCrashStates log_trace (shipped_options ext4Journal None) = Inr a"
    "enumerateCrashStates log_trace (shipped_options xfs None) = Inr b"
    using enumerate_log_total by blast
  then have "set a \<subseteq> set b"
    by (intro total_order_states_subset [OF ab(1), of xfs b]) simp_all
  with ab show ?thesis by blast
qed


text \<open>Whatever the bounds are, the always-present operations are in every state.\<close>

lemma always_in_state:
  assumes "s \<in> set (point_states events model bnds cp)"
  shows "set (alwaysPresent events bnds cp) \<subseteq> set (cs_persisted s)"
  using assms
  by (auto simp: point_states_def total_order_states_eq reordering_states_eq mask_states_def
      torn_states_def mask_persisted_def list_all_iff Let_def simp del: upt_Suc split: if_splits)

text \<open>C5: the durability floor. When a persistence call on a file returned at or before the crash
  point, every mutation of that file issued before the call is in every enumerated state, under
  every model and for every window size.\<close>

theorem durability_floor:
  assumes "enumerateCrashStates trace options = Inr states" "s \<in> set states"
    and "i \<le> cs_crashPoint s" "ev_call (tr_events trace ! i) \<in> PERSISTENCE"
    and "0 \<le> ev_returnValue (tr_events trace ! i)"
    and "j < i" "ev_call (tr_events trace ! j) \<in> MUTATING"
    and "ev_path (tr_events trace ! j) = ev_path (tr_events trace ! i)"
  shows "j \<in> set (cs_persisted s)"
proof -
  have "j \<in> pinned_set (tr_events trace) (cs_crashPoint s)"
    using assms(3-8) by (auto simp: pinned_set_def returned_persistence_def pins_def)
  then have "j \<in> set (alwaysPresent (tr_events trace) (eo_bounds options) (cs_crashPoint s))"
    by (simp add: set_alwaysPresent)
  then show ?thesis
    using assms(2) in_enumerate [OF assms(1)] always_in_state by blast
qed

lemma durability_floor_witness:
  "\<exists>states. enumerateCrashStates log_trace (shipped_options btrfs (Some [4])) = Inr states
     \<and> states \<noteq> [] \<and> (\<forall>s\<in>set states. 1 \<in> set (cs_persisted s))"
proof -
  obtain states where states:
    "enumerateCrashStates log_trace (shipped_options btrfs (Some [4])) = Inr states"
    by (simp add: enumerate_cases)
  have "\<forall>s\<in>set states. 1 \<in> set (cs_persisted s)"
    using in_enumerate [OF states]
    by (intro ballI durability_floor [OF states, of _ 2])
      (auto simp: log_events_def op_event_def PERSISTENCE_def MUTATING_def)
  moreover have "enumerateCrashStates log_trace (shipped_options btrfs (Some [4])) \<noteq> Inr []"
    by code_simp
  ultimately show ?thesis using states by auto
qed

text \<open>C12: refinement of the write-back machine. Under a reordering model the untorn states of a crash
  point are exactly the sets of operations that the machine can have on disk when it writes issued
  operations back one at a time in any order, provided the durability floor is among them.\<close>

theorem enumerate_refines_writeback:
  assumes "enumerateCrashStates trace options = Inr states"
    and "\<not> totalOrder (eo_model options)"
    and "0 < maxUnpersistedWindow (eo_bounds options)" "maxUnpersistedWindow (eo_bounds options) \<le> 30"
    and "cp \<in> set (crash_points_of trace options)"
  shows "{set (cs_persisted s) | s. s \<in> set states \<and> cs_crashPoint s = cp \<and> cs_partial s = []}
    = {P. writeback_reachable (tr_events trace) cp P
        \<and> floor_set (tr_events trace) (nat (maxUnpersistedWindow (eo_bounds options))) cp \<subseteq> P}"
    (is "?states = ?machine")
proof (intro equalityI subsetI)
  let ?events = "tr_events trace" and ?w = "nat (maxUnpersistedWindow (eo_bounds options))"
  have mem: "s \<in> set states \<longleftrightarrow> cs_crashPoint s \<in> set (crash_points_of trace options)
      \<and> legal_state ?events (tornWrites (eo_bounds options)) ?w s" for s
    using in_enumerate [OF assms(1)] assms(2) by (simp add: point_states_legal [OF assms(3,4)])
  show "P \<in> ?machine" if "P \<in> ?states" for P
    using that by (auto simp: mem legal_state_def legal_persisted_def writeback_reachable_iff)
  fix P assume P: "P \<in> ?machine"
  let ?s = "\<lparr>cs_crashPoint = cp, cs_persisted = sorted_list_of_set P, cs_partial = []\<rparr>"
  from P have sub: "P \<subseteq> issued_set ?events cp" "materializable ?events P"
    by (simp_all add: writeback_reachable_iff)
  then have "finite P" by (blast intro: finite_subset [OF _ finite_issued_set])
  then have "?s \<in> set states" "set (cs_persisted ?s) = P"
    using P sub assms(5) by (auto simp: mem legal_state_def legal_persisted_def legal_partial_def)
  then show "P \<in> ?states" by force
qed

lemma enumerate_refines_writeback_witness:
  "\<exists>states. enumerateCrashStates log_trace (shipped_options xfs None) = Inr states
     \<and> {set (cs_persisted s) | s. s \<in> set states \<and> cs_crashPoint s = 4 \<and> cs_partial s = []}
       = {P. writeback_reachable log_events 4 P \<and> floor_set log_events 8 4 \<subseteq> P}"
proof -
  obtain states where states: "enumerateCrashStates log_trace (shipped_options xfs None) = Inr states"
    using enumerate_log_total by blast
  show ?thesis
    using enumerate_refines_writeback [OF states, of 4] states by auto
qed

text \<open>C23: no state is enumerated twice: distinct crash points and a window between 1 and 30 give a
  list of distinct states, under every model.\<close>

theorem enumerate_distinct:
  assumes "enumerateCrashStates trace options = Inr states"
    and "distinct (crash_points_of trace options)"
    and "0 < maxUnpersistedWindow (eo_bounds options)" "maxUnpersistedWindow (eo_bounds options) \<le> 30"
  shows "distinct states"
proof -
  have "states = concat (map (point_states (tr_events trace) (eo_model options) (eo_bounds options))
      (crash_points_of trace options))"
    using assms(1) by (simp add: enumerate_Inr_iff)
  then show ?thesis
    using assms(2) distinct_point_states [OF assms(3,4)]
    by (auto intro!: distinct_concat_map dest: point_states_crashPoint)
qed

lemma enumerate_distinct_witness:
  "\<exists>states. enumerateCrashStates log_trace (shipped_options xfs None) = Inr states \<and> distinct states"
proof -
  obtain states where states: "enumerateCrashStates log_trace (shipped_options xfs None) = Inr states"
    using enumerate_log_total by blast
  show ?thesis
    using enumerate_distinct [OF states] states by auto
qed


text \<open>C24: the size of the state space. A crash point of a total-order model has at most one state per
  window operation and one more; one of a reordering model at most two to the number of window
  operations, times one plus the number of sector prefixes when writes can tear.\<close>

theorem enumerate_size:
  assumes "enumerateCrashStates trace options = Inr states"
    and "0 < maxUnpersistedWindow (eo_bounds options)" "maxUnpersistedWindow (eo_bounds options) \<le> 30"
  shows "length states \<le> (\<Sum>cp\<leftarrow>crash_points_of trace options.
     let window = window_ops (tr_events trace) (eo_bounds options) cp in
     if totalOrder (eo_model options) then length window + 1
     else 2 ^ length window
       * (1 + (if tornWrites (eo_bounds options) then torn_prefixes (tr_events trace) window else 0)))"
proof -
  have "states = concat (map (point_states (tr_events trace) (eo_model options) (eo_bounds options))
      (crash_points_of trace options))"
    using assms(1) by (simp add: enumerate_Inr_iff)
  then show ?thesis
    using length_total_order_states [OF assms(2)] length_reordering_states [OF assms(2,3)]
    by (auto simp: sum_list_concat_length point_states_def Let_def intro!: sum_list_mono)
qed

lemma enumerate_size_witness:
  "\<exists>states. enumerateCrashStates log_trace (shipped_options ext4Journal (Some [4])) = Inr states
     \<and> length states \<le> 3"
proof -
  obtain states where states:
    "enumerateCrashStates log_trace (shipped_options ext4Journal (Some [4])) = Inr states"
    by (simp add: enumerate_cases)
  have "length (window_ops log_events shipped_bounds 4) = 2"
    by code_simp
  then show ?thesis
    using enumerate_size [OF states] states by simp
qed

text \<open>C30: the enumeration throws only when a selected crash point lies past the end of the trace, and
  then it is the \<open>TypeError\<close> of reading a property of \<open>undefined\<close>; otherwise it returns.\<close>

theorem enumerate_error_iff:
  "enumerateCrashStates trace options = Inl e \<longleftrightarrow>
     e = TypeError \<and> (\<exists>cp\<in>set (crash_points_of trace options). length (tr_events trace) \<le> cp)"
  by (auto simp: enumerate_cases not_less)

text \<open>The loops of one crash point read the trace up to the crash point only.\<close>

lemma events_up_to:
  assumes "i \<le> cp" "cp < length events"
  shows "(events @ later) ! i = events ! i"
  using assms by (simp add: nth_append)

lemma pinned_set_append:
  "cp < length events \<Longrightarrow> pinned_set (events @ later) cp = pinned_set events cp"
  unfolding pinned_set_def
  by (intro Collect_cong ex_cong1 conj_cong refl) (simp_all add: nth_append)

lemma free_ops_append:
  assumes "cp < length events"
  shows "free_ops (events @ later) cp = free_ops events cp"
  using assms unfolding free_ops_def
  by (intro filter_cong refl) (auto simp: set_pinned_ops pinned_set_append nth_append simp del: upt_Suc)

lemma older_window_append:
  assumes "cp < length events"
  shows "older_ops (events @ later) bnds cp = older_ops events bnds cp"
    and "window_ops (events @ later) bnds cp = window_ops events bnds cp"
  using free_ops_append [OF assms] by (simp_all add: older_ops_eq window_ops_eq)

lemma always_append:
  assumes "cp < length events"
  shows "alwaysPresent (events @ later) bnds cp = alwaysPresent events bnds cp"
  using assms
  by (intro sorted_distinct_unique)
    (simp_all add: set_alwaysPresent pinned_set_append older_window_append)

lemma materializable_append:
  assumes "cp < length events" "P \<subseteq> {..cp}"
  shows "materializable (events @ later) P \<longleftrightarrow> materializable events P"
proof -
  have "creates (events @ later) i j \<longleftrightarrow> creates events i j" if "i \<le> cp" for i j
    using assms(1) that by (auto simp: creates_def nth_append)
  then show ?thesis
    using assms by (auto simp: materializable_def nth_append subset_iff; metis le_less_trans)
qed

lemma always_window_upto: "set (alwaysPresent events bnds cp) \<union> set (window_ops events bnds cp) \<subseteq> {..cp}"
  using set_window_subset [of events bnds cp] set_older_subset [of events bnds cp]
  by (fastforce simp: set_alwaysPresent set_free_ops dest: pinned_set_mutating)

lemma mask_states_append:
  assumes "cp < length events"
  shows "mask_states (events @ later) bnds cp (alwaysPresent events bnds cp) (window_ops events bnds cp)
       = mask_states events bnds cp (alwaysPresent events bnds cp) (window_ops events bnds cp)"
proof
  fix m
  let ?a = "alwaysPresent events bnds cp" and ?w = "window_ops events bnds cp"
  have sub: "set (mask_persisted ?a ?w m) \<subseteq> {..cp}"
    using always_window_upto [of events bnds cp] nth_mem [of _ ?w]
    by (fastforce simp: mask_persisted_def)
  have "torn_states (events @ later) cp ?w ps = torn_states events cp ?w ps" for ps
    unfolding torn_states_def
    using assms always_window_upto [of events bnds cp]
    by (intro arg_cong [where f = concat] map_cong refl) (auto simp: nth_append subset_iff)
  then show "mask_states (events @ later) bnds cp ?a ?w m = mask_states events bnds cp ?a ?w m"
    by (simp add: mask_states_def Let_def existsOnDisk_iff materializable_append [OF assms sub])
qed

text \<open>C29: causality. The states of a crash point do not depend on anything recorded after it: extending
  the trace leaves the enumeration of the earlier crash points unchanged.\<close>

theorem enumerate_causal:
  assumes "\<forall>cp\<in>set cps. cp < length (tr_events trace)" "eo_crashPoints options = Some cps"
  shows "enumerateCrashStates (trace\<lparr>tr_events := tr_events trace @ later\<rparr>) options
       = enumerateCrashStates trace options"
proof -
  let ?point = "\<lambda>events. point_states events (eo_model options) (eo_bounds options)"
  have "?point (tr_events trace @ later) cp = ?point (tr_events trace) cp" if "cp \<in> set cps" for cp
    using that assms(1)
    by (simp add: point_states_def total_order_states_eq reordering_states_eq issued_ops_eq Let_def
        always_append older_window_append mask_states_append)
  then have "map (?point (tr_events trace @ later)) cps = map (?point (tr_events trace)) cps"
    by simp
  moreover have "\<forall>cp\<in>set cps. cp < length (tr_events trace) + length later"
    using assms(1) by auto
  ultimately show ?thesis
    using assms by (simp add: enumerate_cases crash_points_of_def cong: map_cong)
qed

lemma enumerate_causal_witness:
  "enumerateCrashStates (log_trace\<lparr>tr_events := log_events @ failed_events\<rparr>)
       (shipped_options xfs (Some [1, 4]))
   = enumerateCrashStates log_trace (shipped_options xfs (Some [1, 4]))"
  using enumerate_causal [of "[1, 4]" log_trace "shipped_options xfs (Some [1, 4])" failed_events]
  by simp


text \<open>C40: the bound of 30 in the exactness properties is the code's own. The subset loop counts to
  \<open>1 << window.length\<close> in 32-bit arithmetic, so a crash point whose window holds 31 operations yields
  no state at all, and one with 32 operations yields only subsets of which the first is the floor.\<close>

theorem enumerate_mask_overflow:
  assumes "\<not> totalOrder (eo_model options)" "eo_crashPoints options = Some [cp]"
    and "cp < length (tr_events trace)"
    and "length (window_ops (tr_events trace) (eo_bounds options) cp) \<in> {31, 32}"
  shows "enumerateCrashStates trace options =
    (if length (window_ops (tr_events trace) (eo_bounds options) cp) = 31 then Inr []
     else Inr (mask_states (tr_events trace) (eo_bounds options) cp
            (alwaysPresent (tr_events trace) (eo_bounds options) cp)
            (window_ops (tr_events trace) (eo_bounds options) cp) 0))"
  using assms
  by (auto simp: enumerate_cases crash_points_of_def point_states_def reordering_states_eq Let_def
      one_shl_31 one_shl_32)

definition wide_trace :: trace where
  "wide_trace = trace_of (map (\<lambda>i. op_event CPwrite ''/d/f'' (int i) 0 8 8) [0..<31]) []"

definition wide_options :: enumerate_options where
  "wide_options = \<lparr>eo_model = xfs,
     eo_bounds = \<lparr>tornWrites = False, maxUnpersistedWindow = 31\<rparr>, eo_crashPoints = Some [30]\<rparr>"

lemma enumerate_mask_overflow_witness:
  "enumerateCrashStates wide_trace wide_options = Inr []"
proof -
  have "length (window_ops (tr_events wide_trace) (eo_bounds wide_options) 30) = 31"
    "length (tr_events wide_trace) = 31" "\<not> totalOrder (eo_model wide_options)"
    "eo_crashPoints wide_options = Some [30]"
    by code_simp+
  then show ?thesis
    using enumerate_mask_overflow [of wide_options 30 wide_trace] by simp
qed

text \<open>Of the five flags of a persistence model the enumerator reads one. Two models with the same
  \<open>totalOrder\<close> have the same states, so \<open>ext4-ordered\<close>, \<open>xfs\<close> and \<open>btrfs\<close> are indistinguishable.\<close>

lemma enumerate_reads_total_order_only:
  "totalOrder model = totalOrder model' \<longleftrightarrow>
     (\<forall>trace options. enumerateCrashStates trace (options\<lparr>eo_model := model\<rparr>)
        = enumerateCrashStates trace (options\<lparr>eo_model := model'\<rparr>))"
proof
  assume "totalOrder model = totalOrder model'"
  then have "point_states events model bnds cp = point_states events model' bnds cp" for events bnds cp
    by (simp add: point_states_def)
  then have "point_states events model bnds = point_states events model' bnds" for events bnds
    by blast
  then show "\<forall>trace options. enumerateCrashStates trace (options\<lparr>eo_model := model\<rparr>)
        = enumerateCrashStates trace (options\<lparr>eo_model := model'\<rparr>)"
    by (simp add: enumerate_cases crash_points_of_def)
next
  let ?count = "\<lambda>m. case enumerateCrashStates log_trace (shipped_options m (Some [4])) of
      Inl _ \<Rightarrow> 0 | Inr states \<Rightarrow> length states"
  have "?count model = length (point_states log_events model shipped_bounds 4)" for model
    by (simp add: enumerate_cases)
  then have split: "?count model = (if totalOrder model
      then length (total_order_states log_events shipped_bounds 4)
      else length (reordering_states log_events shipped_bounds 4))" for model
    by (simp add: point_states_def)
  have differ: "length (total_order_states log_events shipped_bounds 4)
      \<noteq> length (reordering_states log_events shipped_bounds 4)"
    by code_simp
  assume "\<forall>trace options. enumerateCrashStates trace (options\<lparr>eo_model := model\<rparr>)
        = enumerateCrashStates trace (options\<lparr>eo_model := model'\<rparr>)"
  then have "?count model = ?count model'"
    by (metis shipped_options_simps(4))
  then show "totalOrder model = totalOrder model'"
    using differ by (auto simp: split split: if_splits)
qed

section \<open>Concrete runs\<close>

text \<open>
  A write that failed is pinned by a later \<open>fsync\<close> of its file: \<open>pinnedBy\<close> tests the call of the
  earlier operation, not its return value, so every state contains the write that never happened.
\<close>

lemma failed_write_in_every_state:
  "enumerateCrashStates (trace_of failed_events []) (shipped_options xfs (Some [1]))
   = Inr [\<lparr>cs_crashPoint = 1, cs_persisted = [0], cs_partial = []\<rparr>]"
  by code_simp

text \<open>With a window of zero the code's \<open>slice(-0)\<close> takes every free operation, and states repeat.\<close>

lemma zero_window_repeats_states:
  "enumerateCrashStates
     (trace_of [op_event CMkdir ''/d/a'' 1 (-1) 0 0] [])
     \<lparr>eo_model = xfs, eo_bounds = \<lparr>tornWrites = False, maxUnpersistedWindow = 0\<rparr>,
      eo_crashPoints = None\<rparr>
   = Inr [\<lparr>cs_crashPoint = 0, cs_persisted = [0], cs_partial = []\<rparr>,
          \<lparr>cs_crashPoint = 0, cs_persisted = [0, 0], cs_partial = []\<rparr>]"
  by code_simp

text \<open>
  \<open>bounds.jsonc\<close> says that the window caps a crash point at 256 states. Torn writes are not counted
  there: one write of 300 sectors has 301 states with the shipped bounds.
\<close>

definition large_write :: trace where
  "large_write = trace_of [op_event CPwrite ''/d/f'' 1 0 153600 153600] []"

lemma shipped_bounds_exceed_256:
  "\<exists>states. enumerateCrashStates large_write (shipped_options ext4Ordered None) = Inr states
     \<and> length states = 301"
proof -
  let ?e = "tr_events large_write"
  have e: "length ?e = 1" "is_write (ev_call (?e ! 0))" "sectors (ev_length (?e ! 0)) = 300"
    by (simp_all add: large_write_def trace_of_def op_event_def is_write_def sectors_def SECTOR_BYTES_def)
  have "window_ops ?e shipped_bounds 0 = [0]" "alwaysPresent ?e shipped_bounds 0 = []"
    "existsOnDisk ?e []" "existsOnDisk ?e [0]" "nat (one_shl 1) = 2"
    "mask_persisted [] [0] 0 = []" "mask_persisted [] [0] 1 = [0]"
    by code_simp+
  then have "length (reordering_states ?e shipped_bounds 0) = 301"
    using length_strictSectorPrefixes [OF e(2)] e(3)
    by (simp add: reordering_states_eq mask_states_def torn_states_def numeral_2_eq_2)
  then show ?thesis
    using e(1) by (simp add: enumerate_cases point_states_def)
qed

section \<open>Shape of the states\<close>

text \<open>The invariant of the type \<open>CrashState\<close>: what its consumers, the replayer first, rely on.\<close>

definition well_formed_torn :: "trace_event list \<Rightarrow> nat \<Rightarrow> nat list \<Rightarrow> torn_op \<Rightarrow> bool" where
  "well_formed_torn events cp ps p \<longleftrightarrow>
     to_op p \<le> cp \<and> to_op p \<notin> set ps \<and> is_write (ev_call (events ! to_op p))
     \<and> 0 < to_bytes p \<and> to_bytes p mod SECTOR_BYTES = 0 \<and> int (to_bytes p) < ev_length (events ! to_op p)"

definition well_formed_state :: "trace_event list \<Rightarrow> crash_state \<Rightarrow> bool" where
  "well_formed_state events state \<longleftrightarrow>
     cs_crashPoint state < length events
     \<and> sorted_wrt (<) (cs_persisted state)
     \<and> list_all (\<lambda>i. i \<le> cs_crashPoint state \<and> ev_call (events ! i) \<in> MUTATING) (cs_persisted state)
     \<and> length (cs_partial state) \<le> 1
     \<and> list_all (well_formed_torn events (cs_crashPoint state) (cs_persisted state)) (cs_partial state)"

text \<open>C22: every enumerated state is well formed: its crash point is an event of the trace, its persisted
  operations are strictly increasing indices of mutations issued by then, and at most one further
  write is torn, at a positive multiple of the sector size below its length, and is not also
  persisted in full.\<close>

theorem enumerated_states_well_formed:
  assumes "enumerateCrashStates trace options = Inr states"
    and "0 < maxUnpersistedWindow (eo_bounds options)" "maxUnpersistedWindow (eo_bounds options) \<le> 30"
  shows "list_all (well_formed_state (tr_events trace)) states"
  unfolding list_all_iff
proof
  fix state assume state: "state \<in> set states"
  let ?e = "tr_events trace" and ?cp = "cs_crashPoint state" and ?w = "nat (maxUnpersistedWindow (eo_bounds options))"
  have cp: "?cp < length ?e"
    using assms(1) state in_enumerate [OF assms(1)] by (auto simp: enumerate_Inr_iff)
  have legal: "legal_state ?e (tornWrites (eo_bounds options)) ?w state"
    using state in_enumerate [OF assms(1)] legal_ordered_legal
    by (auto simp: point_states_legal [OF assms(2,3)] split: if_splits)
  then have ps: "sorted (cs_persisted state)" "distinct (cs_persisted state)"
    "set (cs_persisted state) \<subseteq> issued_set ?e ?cp"
    by (simp_all add: legal_state_def legal_persisted_def)
  have torn: "well_formed_torn ?e ?cp (cs_persisted state) p" if "cs_partial state = [p]" for p
  proof -
    have op: "to_op p \<in> window_set ?e ?w ?cp" "to_op p \<notin> set (cs_persisted state)"
      and b: "to_bytes p \<in> set (strictSectorPrefixes (?e ! to_op p))"
      using legal that by (auto simp: legal_state_def legal_partial_def)
    have "to_op p \<le> ?cp" using op(1) window_set_subset by (auto simp: free_set_def)
    then show ?thesis
      using op(2) b by (auto simp: well_formed_torn_def set_strictSectorPrefixes SECTOR_BYTES_def)
  qed
  have "cs_partial state = [] \<or> (\<exists>p. cs_partial state = [p])"
    using legal by (auto simp: legal_state_def legal_partial_def)
  then show "well_formed_state ?e state"
    unfolding well_formed_state_def
    using cp ps torn by (auto simp: list_all_iff strict_sorted_iff dest!: issued_set_mutating)
qed

lemma enumerated_states_well_formed_witness:
  "\<exists>states. enumerateCrashStates log_trace (shipped_options xfs (Some [4])) = Inr states
     \<and> 0 < length states \<and> list_all (well_formed_state log_events) states"
proof -
  obtain states where states: "enumerateCrashStates log_trace (shipped_options xfs (Some [4])) = Inr states"
    by (simp add: enumerate_cases)
  have "map_sum id (\<lambda>ss. ss \<noteq> []) (enumerateCrashStates log_trace (shipped_options xfs (Some [4]))) = Inr True"
    by code_simp
  then have "0 < length states" using states by simp
  then show ?thesis
    using enumerated_states_well_formed [OF states] states by simp
qed

end
