(* ===== verification/Hash.thy ===== *)
theory Hash
  imports JsNumber
begin

text \<open>
  The seeded hash that decides every sample. The source carries two copies, in
  \<open>core/src/enumerate/crash-points.ts\<close> and \<open>core/src/enumerate/sample.ts\<close>; both are modelled and
  proved equal. The locale \<open>unit_hash\<close> states what the samplers rely on: values in \<open>[0, 1)\<close> that
  depend on seed and index alone.
\<close>

unbundle bit_operations_syntax

definition unitHash :: "int \<Rightarrow> nat \<Rightarrow> rat" where
  "unitHash seed index =
     (let x = to_int32 (double_of_int (seed + double_of_int (int index * 0x9e3779b9)));
          x = (x XOR drop_bit 16 x) * 0x21f0aaad;
          x = (x XOR drop_bit 15 x) * 0x735a2d97;
          x = x XOR drop_bit 15 x
      in of_int (uint x) / 0x100000000)"

definition sample_unitHash :: "int \<Rightarrow> nat \<Rightarrow> rat" where
  "sample_unitHash seed index =
     (let x = to_int32 (double_of_int (seed + double_of_int (int index * 0x9e3779b9)));
          x = (x XOR drop_bit 16 x) * 0x21f0aaad;
          x = (x XOR drop_bit 15 x) * 0x735a2d97;
          x = x XOR drop_bit 15 x
      in of_int (uint x) / 0x100000000)"

locale unit_hash =
  fixes h :: "int \<Rightarrow> nat \<Rightarrow> rat"
  assumes hash_nonneg: "0 \<le> h seed i"
    and hash_less_one: "h seed i < 1"
begin

text \<open>A threshold on the hash is a sampling rate: nothing below 0, everything from 1 on, monotone.\<close>

lemma pick_all: "1 \<le> rate \<Longrightarrow> h seed i < rate"
  using hash_less_one [of seed i] by linarith

lemma pick_none: "rate \<le> 0 \<Longrightarrow> \<not> h seed i < rate"
  using hash_nonneg [of seed i] by linarith

lemma pick_mono: "rate \<le> rate' \<Longrightarrow> h seed i < rate \<Longrightarrow> h seed i < rate'"
  by linarith

end

lemma word32_fraction:
  fixes x :: int32
  shows "0 \<le> (of_int (uint x) / 0x100000000 :: rat)" "(of_int (uint x) / 0x100000000 :: rat) < 1"
proof -
  have "(of_int (uint x) :: rat) < of_int 0x100000000" "(of_int 0 :: rat) \<le> of_int (uint x)"
    unfolding of_int_less_iff of_int_le_iff using uint_lt2p [of x] by simp_all
  then show "0 \<le> (of_int (uint x) / 0x100000000 :: rat)" "(of_int (uint x) / 0x100000000 :: rat) < 1"
    by (simp_all del: of_int_uint)
qed

interpretation crash_point_hash: unit_hash unitHash
  by unfold_locales (unfold unitHash_def Let_def, (rule word32_fraction)+)

interpretation sample_hash: unit_hash sample_unitHash
  by unfold_locales (unfold sample_unitHash_def Let_def, (rule word32_fraction)+)

text \<open>Below two million operations and for a seed below \<open>2 ^ 52\<close> no rounding takes place.\<close>

lemma hash_argument_exact:
  assumes "index < 2 ^ 20" "\<bar>seed\<bar> < 2 ^ 52"
  shows "double_of_int (seed + double_of_int (int index * 0x9e3779b9))
         = seed + int index * 0x9e3779b9"
proof -
  have "int index < 2 ^ 20"
    using assms(1) by simp
  then have small: "\<bar>int index * 0x9e3779b9\<bar> < 2 ^ 52" by simp
  then have "\<bar>seed + int index * 0x9e3779b9\<bar> < 2 ^ 53"
    using assms(2) by simp
  then show ?thesis
    using small by (simp add: double_of_int_exact)
qed

text \<open>The two copies of the sampling hash, in \<open>crash-points.ts\<close> and in \<open>sample.ts\<close>, are the same
  function, and its values lie in \<open>[0, 1)\<close> for every seed and index.\<close>

lemma hash_copies_agree:
  "sample_unitHash seed index = unitHash seed index
   \<and> 0 \<le> unitHash seed index \<and> unitHash seed index < 1"
  using crash_point_hash.hash_nonneg crash_point_hash.hash_less_one
  by (simp add: sample_unitHash_def unitHash_def)

end
