(* ===== verification/CrashPoints.thy ===== *)
theory CrashPoints
  imports Hash SampleTraces
begin

text \<open>
  \<open>core/src/enumerate/crash-points.ts\<close>: which crash points of a trace are enumerated. Points next to
  a persistence call are always selected, the others are sampled by the seeded hash; short traces
  and traces without a persistence call are taken whole.
\<close>

definition crash_PERSISTENCE :: "call_name set" where
  "crash_PERSISTENCE = {CFsync, CFdatasync, CSyncFileRange}"

record selection_options =
  so_nonFsyncSampleRate :: rat
  so_seed :: int
  so_maxExhaustiveWorkloadOps :: "int option"

definition selectCrashPoints :: "trace \<Rightarrow> selection_options \<Rightarrow> nat list" where
  "selectCrashPoints trace options =
     (let events = tr_events trace;
          exhaustive = (case so_maxExhaustiveWorkloadOps options of Some k \<Rightarrow> k | None \<Rightarrow> 0)
      in if int (length events) \<le> exhaustive then [0..<length events]
         else if \<not> list_ex (\<lambda>event. ev_call event \<in> crash_PERSISTENCE) events
           then [0..<length events]
         else foldl (\<lambda>selected index.
             let isPersistence = ev_call (events ! index) \<in> crash_PERSISTENCE;
                 followsPersistence =
                   (0 < index \<and> ev_call (events ! (index - 1)) \<in> crash_PERSISTENCE)
             in if isPersistence \<or> followsPersistence then selected @ [index]
                else if unitHash (so_seed options) index < so_nonFsyncSampleRate options
                  then selected @ [index]
                else selected)
           [] [0..<length events])"

section \<open>The selection as a filter\<close>

definition persistence_adjacent :: "trace_event list \<Rightarrow> nat \<Rightarrow> bool" where
  "persistence_adjacent events i \<longleftrightarrow>
     ev_call (events ! i) \<in> PERSISTENCE \<or> (0 < i \<and> ev_call (events ! (i - 1)) \<in> PERSISTENCE)"

definition exhaustive_selection :: "trace \<Rightarrow> selection_options \<Rightarrow> bool" where
  "exhaustive_selection trace options \<longleftrightarrow>
     int (length (tr_events trace))
       \<le> (case so_maxExhaustiveWorkloadOps options of Some k \<Rightarrow> k | None \<Rightarrow> 0)
     \<or> (\<forall>event\<in>set (tr_events trace). ev_call event \<notin> PERSISTENCE)"

lemma crash_PERSISTENCE_eq: "crash_PERSISTENCE = PERSISTENCE"
  by (simp add: crash_PERSISTENCE_def PERSISTENCE_def)

lemma push_loop_filter:
  "foldl (\<lambda>acc i. if P i then acc @ [i] else if Q i then acc @ [i] else acc) acc xs
   = acc @ filter (\<lambda>i. P i \<or> Q i) xs"
  by (induction xs arbitrary: acc) auto

lemma selectCrashPoints_eq:
  "selectCrashPoints trace options =
     (if exhaustive_selection trace options then [0..<length (tr_events trace)]
      else filter (\<lambda>i. persistence_adjacent (tr_events trace) i
             \<or> unitHash (so_seed options) i < so_nonFsyncSampleRate options)
           [0..<length (tr_events trace)])"
  by (auto simp: selectCrashPoints_def exhaustive_selection_def persistence_adjacent_def Let_def
      crash_PERSISTENCE_eq list_ex_iff push_loop_filter split: option.splits)

lemma in_selectCrashPoints:
  "i \<in> set (selectCrashPoints trace options) \<longleftrightarrow>
     i < length (tr_events trace)
     \<and> (exhaustive_selection trace options \<or> persistence_adjacent (tr_events trace) i
        \<or> unitHash (so_seed options) i < so_nonFsyncSampleRate options)"
  by (auto simp: selectCrashPoints_eq)

lemma sorted_selectCrashPoints: "sorted (selectCrashPoints trace options)"
  by (simp add: selectCrashPoints_eq sorted_wrt_filter)

lemma distinct_selectCrashPoints: "distinct (selectCrashPoints trace options)"
  by (simp add: selectCrashPoints_eq)

lemma exhaustive_selection_rate [simp]:
  "exhaustive_selection trace (options\<lparr>so_nonFsyncSampleRate := rate\<rparr>)
   = exhaustive_selection trace options"
  by (simp add: exhaustive_selection_def)

section \<open>Properties\<close>

text \<open>C31: the selected crash points are, in increasing order and without repetition, the indices of the
  trace that are a persistence call, follow one, or hash below the sample rate; a short trace or one
  without persistence calls is selected whole.\<close>

theorem select_exact:
  "sorted (selectCrashPoints trace options) \<and> distinct (selectCrashPoints trace options)
   \<and> set (selectCrashPoints trace options) =
      {i. i < length (tr_events trace)
        \<and> (exhaustive_selection trace options \<or> persistence_adjacent (tr_events trace) i
           \<or> unitHash (so_seed options) i < so_nonFsyncSampleRate options)}"
  by (auto simp: in_selectCrashPoints sorted_selectCrashPoints distinct_selectCrashPoints)

text \<open>Raising the sample rate only adds crash points; from rate 1 on every index is selected, and at
  rate 0 and below a trace that is not taken whole is reduced to its persistence points.\<close>

lemma select_rate:
  "(rate \<le> rate' \<longrightarrow>
      set (selectCrashPoints trace (options\<lparr>so_nonFsyncSampleRate := rate\<rparr>))
      \<subseteq> set (selectCrashPoints trace (options\<lparr>so_nonFsyncSampleRate := rate'\<rparr>)))
   \<and> (1 \<le> rate \<longrightarrow>
      selectCrashPoints trace (options\<lparr>so_nonFsyncSampleRate := rate\<rparr>)
      = [0..<length (tr_events trace)])
   \<and> (rate \<le> 0 \<longrightarrow> \<not> exhaustive_selection trace options \<longrightarrow>
      selectCrashPoints trace (options\<lparr>so_nonFsyncSampleRate := rate\<rparr>)
      = filter (persistence_adjacent (tr_events trace)) [0..<length (tr_events trace)])"
proof (intro conjI impI)
  assume "rate \<le> rate'"
  then show "set (selectCrashPoints trace (options\<lparr>so_nonFsyncSampleRate := rate\<rparr>))
      \<subseteq> set (selectCrashPoints trace (options\<lparr>so_nonFsyncSampleRate := rate'\<rparr>))"
    using crash_point_hash.pick_mono
    by (auto simp: in_selectCrashPoints)
next
  assume "1 \<le> rate"
  then show "selectCrashPoints trace (options\<lparr>so_nonFsyncSampleRate := rate\<rparr>)
      = [0..<length (tr_events trace)]"
    by (simp add: selectCrashPoints_eq crash_point_hash.pick_all)
next
  assume "rate \<le> 0" "\<not> exhaustive_selection trace options"
  then show "selectCrashPoints trace (options\<lparr>so_nonFsyncSampleRate := rate\<rparr>)
      = filter (persistence_adjacent (tr_events trace)) [0..<length (tr_events trace)]"
    by (simp add: selectCrashPoints_eq crash_point_hash.pick_none)
qed

definition sample_selection :: selection_options where
  "sample_selection = \<lparr>so_nonFsyncSampleRate = 0, so_seed = 7, so_maxExhaustiveWorkloadOps = Some 3\<rparr>"

lemma select_rate_witness:
  "selectCrashPoints log_trace sample_selection
   = filter (persistence_adjacent log_events) [0..<5]
   \<and> selectCrashPoints log_trace (sample_selection\<lparr>so_nonFsyncSampleRate := 1\<rparr>) = [0..<5]"
proof -
  have "sample_selection = sample_selection\<lparr>so_nonFsyncSampleRate := 0\<rparr>"
    "\<not> exhaustive_selection log_trace sample_selection"
    by (simp_all add: sample_selection_def exhaustive_selection_def log_events_def op_event_def
        PERSISTENCE_def)
  then show ?thesis
    using select_rate [of 0 1 log_trace sample_selection]
      select_rate [of 1 1 log_trace sample_selection]
    by (metis events_log_trace length_log_events order_refl)
qed

end
