(* ===== verification/Sample.thy ===== *)
theory Sample
  imports Hash States
begin

text \<open>
  \<open>core/src/enumerate/sample.ts\<close>: the states of each crash point are sampled down to a cap, by the
  rank of a seeded hash, keeping the first and the last state of the group.
\<close>

record sample_options =
  sa_maxPerCrashPoint :: int
  sa_seed :: int

section \<open>Operations\<close>

definition group_by_crash_point :: "crash_state list \<Rightarrow> (nat, crash_state list) js_map" where
  "group_by_crash_point states =
     foldl (\<lambda>groups state.
         case map_get groups (cs_crashPoint state) of
           None \<Rightarrow> map_set (cs_crashPoint state) [state] groups
         | Some grp \<Rightarrow> map_set (cs_crashPoint state) (grp @ [state]) groups)
       map_empty states"

text \<open>\<open>[...keep]\<close> grows by the best-ranked indices until it holds \<open>cap\<close> of them.\<close>

fun keep_loop :: "int \<Rightarrow> nat list \<Rightarrow> nat list \<Rightarrow> nat list" where
  "keep_loop cap keep [] = keep"
| "keep_loop cap keep (candidate # ranked) =
     (if cap \<le> int (length keep) then keep
      else keep_loop cap (set_add candidate keep) ranked)"

definition ranked_indices :: "int \<Rightarrow> nat \<Rightarrow> nat \<Rightarrow> nat list" where
  "ranked_indices seed crashPoint n =
     map fst (sort_key snd (map (\<lambda>index. (index, sample_unitHash (double_of_int (seed + int crashPoint)) index)) [0..<n]))"

definition sample_group :: "sample_options \<Rightarrow> nat \<Rightarrow> crash_state list \<Rightarrow> crash_state list" where
  "sample_group options crashPoint grp =
     (if int (length grp) \<le> sa_maxPerCrashPoint options then grp
      else let keep = keep_loop (sa_maxPerCrashPoint options) (set_of_list [0, length grp - 1])
                        (ranked_indices (sa_seed options) crashPoint (length grp))
           in map (\<lambda>index. grp ! index) (sort keep))"

definition sampleStates :: "crash_state list \<Rightarrow> sample_options \<Rightarrow> crash_state list" where
  "sampleStates states options =
     concat (map (\<lambda>(crashPoint, grp). sample_group options crashPoint grp)
       (sort_key fst (group_by_crash_point states)))"

section \<open>Groups\<close>

text \<open>What one state does to the entry of its crash point: a new group or a push.\<close>

definition push_state :: "crash_state list option \<Rightarrow> crash_state \<Rightarrow> crash_state list" where
  "push_state old s = (case old of None \<Rightarrow> [s] | Some grp \<Rightarrow> grp @ [s])"

lemma group_loop:
  "group_by_crash_point states =
     foldl (\<lambda>m s. case Some (cs_crashPoint s) of None \<Rightarrow> m
        | Some k \<Rightarrow> map_set k (push_state (map_get m k) s) m) map_empty states"
  unfolding group_by_crash_point_def
  by (rule arg_cong [where f = "\<lambda>f. foldl f map_empty states"])
    (auto simp: fun_eq_iff push_state_def split: option.splits)

lemma group_wf: "map_wf (group_by_crash_point states)"
  unfolding group_loop by (rule jsmap.loop_invar) simp

lemma group_keys: "map fst (group_by_crash_point states) = set_of_list (map cs_crashPoint states)"
  unfolding group_loop
    jsmap.loop_keys [where key = "\<lambda>s. Some (cs_crashPoint s)" and upd = push_state]
  by (simp add: map_filter_def comp_def)

lemma push_loop:
  "foldl (\<lambda>acc s. Some (push_state acc s)) acc xs
   = (if xs = [] then acc else Some ((case acc of None \<Rightarrow> [] | Some grp \<Rightarrow> grp) @ xs))"
  by (induction xs arbitrary: acc) (auto simp: push_state_def split: option.splits)

lemma group_get:
  "map_get (group_by_crash_point states) c =
     (let grp = filter (\<lambda>s. cs_crashPoint s = c) states in if grp = [] then None else Some grp)"
  unfolding group_loop
    jsmap.loop_get [OF map_wf_empty, where key = "\<lambda>s. Some (cs_crashPoint s)" and upd = push_state]
  by (simp add: push_loop Let_def)

lemma in_groups_iff:
  "(c, grp) \<in> set (group_by_crash_point states) \<longleftrightarrow>
     grp = filter (\<lambda>s. cs_crashPoint s = c) states \<and> grp \<noteq> []"
  by (auto simp: jsmap.entries_in_get [OF group_wf] group_get Let_def)

section \<open>One group\<close>

lemma keep_loop_superset: "set keep \<subseteq> set (keep_loop cap keep ranked)"
  by (induction ranked arbitrary: keep) fastforce+

lemma keep_loop_subset: "set (keep_loop cap keep ranked) \<subseteq> set keep \<union> set ranked"
proof (induction ranked arbitrary: keep)
  case (Cons c ranked)
  then show ?case using Cons.IH [of "set_add c keep"] by auto
qed simp

lemma keep_loop_distinct: "distinct keep \<Longrightarrow> distinct (keep_loop cap keep ranked)"
  by (induction ranked arbitrary: keep) auto

lemma keep_loop_upper:
  "int (length keep) \<le> cap \<Longrightarrow> int (length (keep_loop cap keep ranked)) \<le> cap"
  by (induction ranked arbitrary: keep) (auto simp: length_set_add)

lemma keep_loop_lower:
  "distinct keep \<Longrightarrow>
   cap \<le> int (length (keep_loop cap keep ranked)) \<or> set (keep_loop cap keep ranked) = set keep \<union> set ranked"
proof (induction ranked arbitrary: keep)
  case Nil
  then show ?case by simp
next
  case (Cons c ranked)
  then show ?case using Cons.IH [of "set_add c keep"] by auto
qed

lemma set_ranked_indices [simp]: "set (ranked_indices seed cp n) = {0..<n}"
  by (auto simp: ranked_indices_def image_image)

lemma subseq_map_nth_sorted:
  assumes "sorted ks" "distinct ks" "set ks \<subseteq> {0..<length xs}"
  shows "subseq (map (\<lambda>k. xs ! k) ks) xs"
proof -
  have "set (filter (\<lambda>i. i \<in> set ks) [0..<length xs]) = set ks"
    using assms(3) by auto
  then have "filter (\<lambda>i. i \<in> set ks) [0..<length xs] = ks"
    using assms(1,2) by (intro sorted_distinct_unique) (simp_all add: sorted_wrt_filter)
  then have "subseq ks [0..<length xs]"
    by (metis subseq_filter_left)
  then have "subseq (map (\<lambda>k. xs ! k) ks) (map (\<lambda>k. xs ! k) [0..<length xs])"
    by (rule subseq_map)
  then show ?thesis by (simp add: map_nth)
qed

text \<open>The indices kept of a group above the cap.\<close>

definition kept_indices :: "sample_options \<Rightarrow> nat \<Rightarrow> nat \<Rightarrow> nat list" where
  "kept_indices options crashPoint n =
     sort (keep_loop (sa_maxPerCrashPoint options) (set_of_list [0, n - 1])
        (ranked_indices (sa_seed options) crashPoint n))"

lemma sample_group_eq:
  "sample_group options c grp =
     (if int (length grp) \<le> sa_maxPerCrashPoint options then grp
      else map (\<lambda>index. grp ! index) (kept_indices options c (length grp)))"
  by (simp add: sample_group_def kept_indices_def Let_def)

lemma kept_indices_facts:
  assumes "0 < n"
  shows "sorted (kept_indices options c n)" "distinct (kept_indices options c n)"
    and "set (kept_indices options c n) \<subseteq> {0..<n}"
    and "{0, n - 1} \<subseteq> set (kept_indices options c n)"
proof -
  let ?l = "keep_loop (sa_maxPerCrashPoint options) (set_of_list [0, n - 1])
        (ranked_indices (sa_seed options) c n)"
  show "sorted (kept_indices options c n)" "distinct (kept_indices options c n)"
    by (simp_all add: kept_indices_def keep_loop_distinct)
  show "set (kept_indices options c n) \<subseteq> {0..<n}"
    using keep_loop_subset [of "sa_maxPerCrashPoint options" "set_of_list [0, n - 1]"
        "ranked_indices (sa_seed options) c n"] assms
    by (auto simp: kept_indices_def)
  show "{0, n - 1} \<subseteq> set (kept_indices options c n)"
    using keep_loop_superset [of "set_of_list [0, n - 1]" "sa_maxPerCrashPoint options"
        "ranked_indices (sa_seed options) c n"]
    by (auto simp: kept_indices_def)
qed

lemma length_kept_indices:
  assumes "2 \<le> sa_maxPerCrashPoint options" "sa_maxPerCrashPoint options < int n"
  shows "int (length (kept_indices options c n)) = sa_maxPerCrashPoint options"
proof -
  let ?keep = "set_of_list [0, n - 1]" and ?ranked = "ranked_indices (sa_seed options) c n"
  let ?l = "keep_loop (sa_maxPerCrashPoint options) ?keep ?ranked"
  have "length ?keep \<le> 2"
    by (simp add: set_of_list_def set_add_def)
  then have "int (length ?l) \<le> sa_maxPerCrashPoint options"
    using assms(1) by (intro keep_loop_upper) simp
  moreover have "sa_maxPerCrashPoint options \<le> int (length ?l)"
  proof (rule ccontr)
    assume "\<not> sa_maxPerCrashPoint options \<le> int (length ?l)"
    then have "set ?l = set ?keep \<union> set ?ranked"
      using keep_loop_lower [of ?keep "sa_maxPerCrashPoint options" ?ranked] by simp
    then have "{0..<n} \<subseteq> set ?l" by auto
    then have "n \<le> length ?l"
      by (metis List.finite_set card_atLeastLessThan card_length card_mono diff_zero le_trans)
    then show False
      using assms(2) \<open>int (length ?l) \<le> sa_maxPerCrashPoint options\<close> by linarith
  qed
  ultimately show ?thesis
    by (simp add: kept_indices_def)
qed

lemma sample_group_subseq: "grp \<noteq> [] \<Longrightarrow> subseq (sample_group options c grp) grp"
  using kept_indices_facts [of "length grp" options c]
  by (auto simp: sample_group_eq intro: subseq_map_nth_sorted)

lemma set_sample_group: "grp \<noteq> [] \<Longrightarrow> set (sample_group options c grp) \<subseteq> set grp"
  by (auto dest: sample_group_subseq list_emb_set)

lemma length_sample_group:
  assumes "2 \<le> sa_maxPerCrashPoint options"
  shows "int (length (sample_group options c grp)) = min (int (length grp)) (sa_maxPerCrashPoint options)"
  using length_kept_indices [OF assms, of "length grp" c] by (auto simp: sample_group_eq)

lemma hd_last_sample_group:
  assumes "grp \<noteq> []"
  shows "hd (sample_group options c grp) = hd grp" "last (sample_group options c grp) = last grp"
    and "sample_group options c grp \<noteq> []"
proof -
  let ?ks = "kept_indices options c (length grp)"
  have n: "0 < length grp" using assms by simp
  note facts = kept_indices_facts [OF n, of options c]
  have ne: "?ks \<noteq> []" using facts(4) by auto
  have hd: "hd ?ks = 0"
    using facts(1,4) ne by (cases ?ks) auto
  have "?ks ! (length ?ks - 1) = length grp - 1"
  proof (rule antisym)
    show "?ks ! (length ?ks - 1) \<le> length grp - 1"
      using facts(3) ne n nth_mem [of "length ?ks - 1" ?ks] by fastforce
    obtain i where "i < length ?ks" "?ks ! i = length grp - 1"
      using facts(4) by (auto simp: in_set_conv_nth)
    then show "length grp - 1 \<le> ?ks ! (length ?ks - 1)"
      using sorted_nth_mono [OF facts(1), of i "length ?ks - 1"] by simp
  qed
  then have last: "last ?ks = length grp - 1"
    using ne by (simp add: last_conv_nth)
  show "hd (sample_group options c grp) = hd grp" "last (sample_group options c grp) = last grp"
    and "sample_group options c grp \<noteq> []"
    using assms ne hd last by (auto simp: sample_group_eq hd_map last_map hd_conv_nth last_conv_nth)
qed

section \<open>The whole sample\<close>

definition points_of :: "crash_state list \<Rightarrow> nat list" where
  "points_of states = sorted_list_of_set (set (map cs_crashPoint states))"

lemma sorted_groups_keys:
  "map fst (sort_key fst (group_by_crash_point states)) = points_of states"
proof -
  have "mset (map fst (sort_key fst (group_by_crash_point states)))
      = mset (set_of_list (map cs_crashPoint states))"
    by (simp flip: group_keys)
  then have "set (map fst (sort_key fst (group_by_crash_point states))) = set (map cs_crashPoint states)"
    and "distinct (map fst (sort_key fst (group_by_crash_point states)))"
    by (metis set_mset_mset set_set_of_list, metis distinct_set_of_list mset_eq_imp_distinct_iff)
  then show ?thesis
    unfolding points_of_def by (intro sorted_distinct_unique) simp_all
qed

lemma sampleStates_eq:
  "sampleStates states options =
     concat (map (\<lambda>c. sample_group options c (filter (\<lambda>s. cs_crashPoint s = c) states))
       (points_of states))"
proof -
  let ?gs = "sort_key fst (group_by_crash_point states)"
  have "map (\<lambda>(c, grp). sample_group options c grp) ?gs
      = map (\<lambda>(c, _). sample_group options c (filter (\<lambda>s. cs_crashPoint s = c) states)) ?gs"
    by (rule map_cong) (auto simp: in_groups_iff)
  also have "\<dots> = map (\<lambda>c. sample_group options c (filter (\<lambda>s. cs_crashPoint s = c) states)) (map fst ?gs)"
    by (simp add: comp_def case_prod_beta)
  finally show ?thesis
    by (simp add: sampleStates_def sorted_groups_keys)
qed

text \<open>Each crash point's sample is a function of its own states only.\<close>

lemma filter_sampleStates:
  "filter (\<lambda>s. cs_crashPoint s = c) (sampleStates states options)
   = (if c \<in> set (points_of states)
      then sample_group options c (filter (\<lambda>s. cs_crashPoint s = c) states) else [])"
proof -
  let ?grp = "\<lambda>c. filter (\<lambda>s. cs_crashPoint s = c) states"
  have own: "filter (\<lambda>s. cs_crashPoint s = c) (sample_group options d (?grp d))
      = (if d = c then sample_group options d (?grp d) else [])" if "d \<in> set (points_of states)" for d
  proof -
    have "?grp d \<noteq> []"
      using that by (auto simp: points_of_def filter_empty_conv)
    then have "set (sample_group options d (?grp d)) \<subseteq> {s. cs_crashPoint s = d}"
      using set_sample_group by fastforce
    then show ?thesis
      by (auto simp: filter_id_conv filter_empty_conv)
  qed
  have "filter (\<lambda>s. cs_crashPoint s = c) (concat (map (\<lambda>d. sample_group options d (?grp d)) ds))
      = (if c \<in> set ds then sample_group options c (?grp c) else [])"
    if "distinct ds" "set ds \<subseteq> set (points_of states)" for ds
    using that by (induction ds) (auto simp: own)
  then show ?thesis
    by (simp add: sampleStates_eq points_of_def)
qed

lemma points_of_nonempty:
  "c \<in> set (points_of states) \<longleftrightarrow> filter (\<lambda>s. cs_crashPoint s = c) states \<noteq> []"
  by (auto simp: points_of_def filter_empty_conv)

lemma set_sampleStates: "set (sampleStates states options) \<subseteq> set states"
proof
  fix s assume "s \<in> set (sampleStates states options)"
  then have "s \<in> set (filter (\<lambda>t. cs_crashPoint t = cs_crashPoint s) (sampleStates states options))"
    by simp
  then show "s \<in> set states"
    using set_sample_group [of "filter (\<lambda>t. cs_crashPoint t = cs_crashPoint s) states" options]
    by (auto simp: filter_sampleStates points_of_nonempty split: if_splits)
qed

lemma sorted_sampleStates: "sorted (map cs_crashPoint (sampleStates states options))"
proof -
  let ?grp = "\<lambda>c. filter (\<lambda>s. cs_crashPoint s = c) states"
  have own: "cs_crashPoint s = d"
    if "d \<in> set (points_of states)" "s \<in> set (sample_group options d (?grp d))" for d s
    using that set_sample_group [of "?grp d" options d] by (auto simp: points_of_nonempty)
  have "sorted (map cs_crashPoint (concat (map (\<lambda>d. sample_group options d (?grp d)) ds)))"
    if "sorted ds" "set ds \<subseteq> set (points_of states)" for ds
    using that
  proof (induction ds)
    case (Cons d ds)
    let ?rest = "concat (map (\<lambda>d. sample_group options d (?grp d)) ds)"
    have this_group: "map cs_crashPoint (sample_group options d (?grp d))
        = replicate (length (sample_group options d (?grp d))) d"
    proof (rule replicate_eqI)
      fix c assume "c \<in> set (map cs_crashPoint (sample_group options d (?grp d)))"
      then obtain s where "s \<in> set (sample_group options d (?grp d))" "c = cs_crashPoint s" by auto
      then show "c = d"
        using own [of d s] Cons.prems(2) by simp
    qed simp
    have "cs_crashPoint s \<in> set ds" if "s \<in> set ?rest" for s
    proof -
      from that obtain e where e: "e \<in> set ds" "s \<in> set (sample_group options e (?grp e))"
        by auto
      with Cons.prems(2) have "cs_crashPoint s = e"
        by (intro own) auto
      with e show ?thesis by simp
    qed
    moreover have "sorted (map cs_crashPoint ?rest)"
      using Cons by simp
    ultimately show ?case
      using Cons.prems(1) by (auto simp: sorted_append this_group sorted_replicate)
  qed simp
  then show ?thesis
    by (simp add: sampleStates_eq points_of_def)
qed

section \<open>Properties\<close>

lemma points_of_sample: "points_of (sampleStates states options) = points_of states"
proof -
  have "c \<in> set (points_of (sampleStates states options)) \<longleftrightarrow> c \<in> set (points_of states)" for c
    unfolding points_of_nonempty [of c "sampleStates states options"]
    using hd_last_sample_group(3) [of "filter (\<lambda>s. cs_crashPoint s = c) states" options c]
    by (auto simp: filter_sampleStates points_of_nonempty)
  then have "set (points_of (sampleStates states options)) = set (points_of states)"
    by blast
  then show ?thesis
    by (intro sorted_distinct_unique) (simp_all add: points_of_def)
qed

text \<open>C32: the sample of each crash point has exactly the capped number of states, keeps the first and
  the last state of its group, keeps the enumeration order, and the crash points come out in
  increasing order. It holds for every cap from 2 on.\<close>

theorem sample_exact_size:
  assumes "2 \<le> sa_maxPerCrashPoint options"
    and "filter (\<lambda>s. cs_crashPoint s = c) states = grp"
    and "filter (\<lambda>s. cs_crashPoint s = c) (sampleStates states options) = kept"
  shows "int (length kept) = min (int (length grp)) (sa_maxPerCrashPoint options)
    \<and> (grp \<noteq> [] \<longrightarrow> kept \<noteq> [] \<and> hd kept = hd grp \<and> last kept = last grp)
    \<and> subseq kept grp
    \<and> sorted (map cs_crashPoint (sampleStates states options))"
proof (cases "grp = []")
  case True
  then have "kept = []"
    using assms(2,3) by (simp add: filter_sampleStates points_of_nonempty)
  then show ?thesis
    using True assms(1) sorted_sampleStates by simp
next
  case False
  then have "kept = sample_group options c grp"
    using assms(2,3) by (simp add: filter_sampleStates points_of_nonempty)
  then show ?thesis
    using False length_sample_group [OF assms(1)] hd_last_sample_group [OF False]
      sample_group_subseq [OF False] sorted_sampleStates by simp
qed

definition numbered_states :: "nat \<Rightarrow> nat \<Rightarrow> crash_state list" where
  "numbered_states c n =
     map (\<lambda>k. \<lparr>cs_crashPoint = c, cs_persisted = [0..<k], cs_partial = []\<rparr>) [0..<n]"

lemma sample_exact_size_witness:
  "length (filter (\<lambda>s. cs_crashPoint s = 2)
     (sampleStates (numbered_states 2 5) \<lparr>sa_maxPerCrashPoint = 3, sa_seed = 1\<rparr>)) = 3"
proof -
  have "filter (\<lambda>s. cs_crashPoint s = 2) (numbered_states 2 5) = numbered_states 2 5"
    by (simp add: numbered_states_def filter_map comp_def)
  moreover have "length (numbered_states 2 5) = 5"
    by (simp add: numbered_states_def)
  ultimately show ?thesis
    using sample_exact_size [of "\<lparr>sa_maxPerCrashPoint = 3, sa_seed = 1\<rparr>" 2 "numbered_states 2 5",
        OF _ refl refl]
    by simp
qed

text \<open>The sample of a crash point is a function of that crash point's own states: whatever is
  enumerated for the others, the same states are kept.\<close>

lemma sample_local:
  assumes "filter (\<lambda>s. cs_crashPoint s = c) states = filter (\<lambda>s. cs_crashPoint s = c) states'"
  shows "filter (\<lambda>s. cs_crashPoint s = c) (sampleStates states options)
       = filter (\<lambda>s. cs_crashPoint s = c) (sampleStates states' options)"
  using assms by (simp add: filter_sampleStates points_of_nonempty)

lemma sample_local_witness:
  "filter (\<lambda>s. cs_crashPoint s = 2)
     (sampleStates (numbered_states 1 9 @ numbered_states 2 5) \<lparr>sa_maxPerCrashPoint = 3, sa_seed = 1\<rparr>)
   = filter (\<lambda>s. cs_crashPoint s = 2)
     (sampleStates (numbered_states 2 5) \<lparr>sa_maxPerCrashPoint = 3, sa_seed = 1\<rparr>)"
  by (rule sample_local) (simp add: numbered_states_def filter_map comp_def)

text \<open>Sampling is idempotent: a sample is its own sample under the same options.\<close>

lemma sample_idempotent:
  assumes "2 \<le> sa_maxPerCrashPoint options"
  shows "sampleStates (sampleStates states options) options = sampleStates states options"
proof -
  let ?grp = "\<lambda>c. filter (\<lambda>s. cs_crashPoint s = c) states"
  have "sample_group options c (filter (\<lambda>s. cs_crashPoint s = c) (sampleStates states options))
      = sample_group options c (?grp c)" if "c \<in> set (points_of states)" for c
  proof -
    have "int (length (sample_group options c (?grp c))) \<le> sa_maxPerCrashPoint options"
      using length_sample_group [OF assms] by simp
    then show ?thesis
      using that by (simp add: filter_sampleStates sample_group_eq [of _ _ "sample_group options c (?grp c)"])
  qed
  then have "concat (map (\<lambda>c. sample_group options c
        (filter (\<lambda>s. cs_crashPoint s = c) (sampleStates states options))) (points_of states))
      = concat (map (\<lambda>c. sample_group options c (?grp c)) (points_of states))"
    by (intro arg_cong [where f = concat] map_cong refl)
  also have "\<dots> = sampleStates states options"
    by (rule sampleStates_eq [symmetric])
  finally show ?thesis
    by (simp add: sampleStates_eq [of "sampleStates states options"] points_of_sample)
qed

lemma sample_idempotent_witness:
  "sampleStates (sampleStates (numbered_states 2 5) \<lparr>sa_maxPerCrashPoint = 2, sa_seed = 1\<rparr>)
     \<lparr>sa_maxPerCrashPoint = 2, sa_seed = 1\<rparr>
   = sampleStates (numbered_states 2 5) \<lparr>sa_maxPerCrashPoint = 2, sa_seed = 1\<rparr>"
  by (rule sample_idempotent) simp

text \<open>The two extremes are kept before the cap is read: a cap of 1 lets two states through.\<close>

lemma cap_one_keeps_two:
  "length (sampleStates (numbered_states 2 3) \<lparr>sa_maxPerCrashPoint = 1, sa_seed = 1\<rparr>) = 2"
  by (simp add: numbered_states_def sampleStates_def group_by_crash_point_def sample_group_def
      map_set_def map_get_def map_empty_def set_of_list_def set_add_def ranked_indices_def Let_def upt_rec
      sort_key_def)

end
