(* ===== verification/JsString.thy ===== *)
theory JsString
  imports JsNumber "HOL-Library.Char_ord"
begin

text \<open>
  The string operations of the JavaScript library the program uses. A string is a list of
  characters with code units below 256; the traces, keys, digests and command lines the program
  handles are in that range.
\<close>

section \<open>Characters\<close>

definition char_code :: "char \<Rightarrow> nat" where
  "char_code c = of_char c"

text \<open>White space in the sense of \<open>trim\<close> and of \<open>\s\<close> in a regular expression.\<close>

definition is_space :: "char \<Rightarrow> bool" where
  "is_space c \<longleftrightarrow> (let n = char_code c in (9 \<le> n \<and> n \<le> 13) \<or> n = 32 \<or> n = 160)"

definition is_digit :: "char \<Rightarrow> bool" where
  "is_digit c \<longleftrightarrow> (let n = char_code c in 48 \<le> n \<and> n \<le> 57)"

definition NL :: char where
  "NL = char_of (10 :: nat)"

definition digit_char :: "nat \<Rightarrow> char" where
  "digit_char d = char_of (48 + d)"

definition digit_value :: "char \<Rightarrow> nat" where
  "digit_value c = char_code c - 48"

lemma char_code_char_of: "n < 256 \<Longrightarrow> char_code (char_of n) = n"
  by (simp add: char_code_def)

lemma char_code_inj: "char_code c = char_code d \<longleftrightarrow> c = d"
  by (simp add: char_code_def)

lemma digit_char_facts:
  assumes "d < 10"
  shows "is_digit (digit_char d)" "digit_value (digit_char d) = d" "\<not> is_space (digit_char d)"
  using assms by (simp_all add: is_digit_def digit_value_def digit_char_def is_space_def char_code_char_of)

definition starts_char :: "char \<Rightarrow> string \<Rightarrow> bool" where
  "starts_char c s \<longleftrightarrow> s \<noteq> [] \<and> hd s = c"

section \<open>Splitting and joining\<close>

text \<open>\<open>s.split(c)\<close> for a one-character separator.\<close>

fun split_on :: "char \<Rightarrow> string \<Rightarrow> string list" where
  "split_on c [] = [[]]"
| "split_on c (x # xs) =
     (if x = c then [] # split_on c xs
      else (case split_on c xs of [] \<Rightarrow> [[x]] | w # ws \<Rightarrow> (x # w) # ws))"

text \<open>\<open>xs.join(sep)\<close>.\<close>

fun join :: "string \<Rightarrow> string list \<Rightarrow> string" where
  "join sep [] = []"
| "join sep [w] = w"
| "join sep (w # ws) = w @ sep @ join sep ws"

lemma split_on_nonempty [simp]: "split_on c s \<noteq> []"
  by (cases s) (auto split: list.splits)

lemma join_Cons_nonempty: "ws \<noteq> [] \<Longrightarrow> join sep (w # ws) = w @ sep @ join sep ws"
  by (cases ws) auto

lemma split_on_no_sep: "c \<notin> set w \<Longrightarrow> split_on c w = [w]"
  by (induction w) auto

lemma split_on_append: "c \<notin> set w \<Longrightarrow> split_on c (w @ c # s) = w # split_on c s"
  by (induction w) (auto split: list.splits)

lemma split_on_join:
  assumes "ws \<noteq> []" "\<forall>w\<in>set ws. c \<notin> set w"
  shows "split_on c (join [c] ws) = ws"
  using assms
proof (induction ws)
  case (Cons w ws)
  then show ?case
    by (cases ws) (auto simp: split_on_no_sep split_on_append)
qed simp

lemma join_split_on: "join [c] (split_on c s) = s"
proof (induction s)
  case (Cons x s)
  obtain w ws where "split_on c s = w # ws"
    using split_on_nonempty [of c s] by (cases "split_on c s") auto
  with Cons show ?case
    by (cases ws) auto
qed simp

lemma split_on_pieces: "w \<in> set (split_on c s) \<Longrightarrow> c \<notin> set w"
  by (induction s arbitrary: w) (auto split: if_splits list.splits)

text \<open>\<open>s.split(/\s+/)\<close>: maximal runs of white space separate; a leading run gives an empty token.\<close>

lemma dropWhile_length_Cons:
  "dropWhile P s = c # r \<Longrightarrow> length (dropWhile Q (c # r)) \<le> length s"
  by (metis le_trans length_dropWhile_le)

function split_spaces :: "string \<Rightarrow> string list" where
  "split_spaces s =
     (case dropWhile (\<lambda>c. \<not> is_space c) s of
        [] \<Rightarrow> [takeWhile (\<lambda>c. \<not> is_space c) s]
      | c # r \<Rightarrow> takeWhile (\<lambda>c. \<not> is_space c) s # split_spaces (dropWhile is_space r))"
  by pat_completeness auto
termination
proof (relation "measure length", goal_cases)
  case (2 s c r)
  then have "length (c # r) \<le> length s"
    by (metis length_dropWhile_le)
  then show ?case
    using length_dropWhile_le [of is_space r] by simp
qed simp

declare split_spaces.simps [simp del]

lemma split_lines:
  assumes "\<forall>l\<in>set ls. c \<notin> set l"
  shows "split_on c (concat (map (\<lambda>l. l @ [c]) ls)) = ls @ [[]]"
  using assms by (induction ls) (simp_all add: split_on_append)

section \<open>Searching and trimming\<close>

definition trim :: "string \<Rightarrow> string" where
  "trim s = rev (dropWhile is_space (rev (dropWhile is_space s)))"

definition blank :: "string \<Rightarrow> bool" where
  "blank s \<longleftrightarrow> trim s = []"

lemma blank_iff: "blank s \<longleftrightarrow> (\<forall>c\<in>set s. is_space c)"
proof -
  have "dropWhile is_space (rev (dropWhile is_space s)) = [] \<longleftrightarrow> (\<forall>c\<in>set (dropWhile is_space s). is_space c)"
    by simp
  also have "\<dots> \<longleftrightarrow> (\<forall>c\<in>set s. is_space c)"
    by (induction s) auto
  finally show ?thesis by (simp add: blank_def trim_def)
qed

text \<open>\<open>indexOf\<close> and \<open>lastIndexOf\<close> of a character, with \<open>-1\<close> for "absent".\<close>

fun index_of :: "char \<Rightarrow> string \<Rightarrow> int" where
  "index_of c [] = -1"
| "index_of c (x # xs) = (if x = c then 0 else (let i = index_of c xs in if i < 0 then -1 else i + 1))"

definition last_index_of :: "char \<Rightarrow> string \<Rightarrow> int" where
  "last_index_of c s =
     (let i = index_of c (rev s) in if i < 0 then -1 else int (length s) - 1 - i)"

lemma index_of_neg: "index_of c s < 0 \<longleftrightarrow> c \<notin> set s"
  by (induction s) (auto simp: Let_def)

lemma index_of_append: "c \<notin> set w \<Longrightarrow> index_of c (w @ c # s) = int (length w)"
  by (induction w) (auto simp: Let_def)

lemma last_index_of_append: "c \<notin> set w \<Longrightarrow> last_index_of c (s @ c # w) = int (length s)"
  by (simp add: last_index_of_def Let_def index_of_append)

lemma last_index_of_absent: "c \<notin> set s \<Longrightarrow> last_index_of c s = -1"
  using index_of_neg [of c "rev s"] by (simp add: last_index_of_def Let_def)

section \<open>Padding and numbers in text\<close>

definition pad_end :: "nat \<Rightarrow> string \<Rightarrow> string" where
  "pad_end n s = s @ replicate (n - length s) (CHR '' '')"

definition pad_start :: "nat \<Rightarrow> char \<Rightarrow> string \<Rightarrow> string" where
  "pad_start n c s = replicate (n - length s) c @ s"

lemma length_pad_end: "length (pad_end n s) = max n (length s)"
  by (simp add: pad_end_def)

lemma length_pad_start: "length (pad_start n c s) = max n (length s)"
  by (simp add: pad_start_def)

text \<open>The decimal text of a natural number, as \<open>String(n)\<close> and a template literal print it.\<close>

fun nat_string :: "nat \<Rightarrow> string" where
  "nat_string n = (if n < 10 then [digit_char n] else nat_string (n div 10) @ [digit_char (n mod 10)])"

declare nat_string.simps [simp del]

definition int_string :: "int \<Rightarrow> string" where
  "int_string n = (if n < 0 then CHR ''-'' # nat_string (nat (- n)) else nat_string (nat n))"

definition digits_value :: "string \<Rightarrow> nat" where
  "digits_value s = foldl (\<lambda>n c. 10 * n + digit_value c) 0 s"

lemma digits_value_snoc: "digits_value (s @ [c]) = 10 * digits_value s + digit_value c"
  by (simp add: digits_value_def)

lemma nat_string_digits: "nat_string n \<noteq> [] \<and> (\<forall>c\<in>set (nat_string n). is_digit c)"
proof (induction n rule: nat_string.induct)
  case (1 n)
  then show ?case
    by (subst (1 2) nat_string.simps) (auto simp: digit_char_facts)
qed

lemma digits_value_nat_string: "digits_value (nat_string n) = n"
proof (induction n rule: nat_string.induct)
  case (1 n)
  show ?case
  proof (cases "n < 10")
    case True
    then show ?thesis
      by (subst nat_string.simps) (simp add: digits_value_def digit_char_facts)
  next
    case False
    then show ?thesis
      using 1 by (subst nat_string.simps) (simp add: digits_value_snoc digit_char_facts)
  qed
qed

lemma nat_string_inj: "nat_string m = nat_string n \<longleftrightarrow> m = n"
  by (metis digits_value_nat_string)

lemma int_string_inj: "int_string m = int_string n \<longleftrightarrow> m = n"
proof -
  have "hd (nat_string k) \<noteq> CHR ''-''" for k
    using nat_string_digits [of k] by (cases "nat_string k") (auto simp: is_digit_def char_code_def)
  then show ?thesis
    by (auto simp: int_string_def nat_string_inj) (metis list.sel(1))+
qed

end
