(* ===== verification/JsNumeric.thy ===== *)
theory JsNumeric
  imports JsString Complex_Main
begin

text \<open>
  \<open>Number(text)\<close>: the numeric literal grammar of JavaScript and the rounding of its value to a
  double. A finite double is the rational number it stands for; the result is \<open>None\<close> for \<open>NaN\<close> and
  the infinities, which is the distinction \<open>Number.isFinite\<close> makes.
\<close>

section \<open>Rounding to a double\<close>

definition pow2 :: "int \<Rightarrow> rat" where
  "pow2 e = (if 0 \<le> e then 2 ^ nat e else 1 / 2 ^ nat (- e))"

definition round_half_even :: "rat \<Rightarrow> int" where
  "round_half_even r =
     (let f = \<lfloor>r\<rfloor>; d = r - of_int f in
      if d < 1 / 2 then f else if 1 / 2 < d then f + 1 else if even f then f else f + 1)"

text \<open>The exponent that leaves 53 significant bits, bounded below by the subnormal range.\<close>

definition binade :: "rat \<Rightarrow> int" where
  "binade a =
     (let (p, q) = quotient_of a;
          e = int (floorlog 2 (nat p)) - int (floorlog 2 (nat q)) - 53
      in max (-1074) (if a < 2 ^ 53 * pow2 e then e else e + 1))"

definition double_of_rat :: "rat \<Rightarrow> rat option" where
  "double_of_rat x =
     (if x = 0 then Some 0
      else let e = binade \<bar>x\<bar>; r = of_int (round_half_even (\<bar>x\<bar> / pow2 e)) * pow2 e in
           if 2 ^ 1024 \<le> r then None else Some (sgn x * r))"

lemma round_half_even_of_int [simp]: "round_half_even (of_int n) = n"
  by (simp add: round_half_even_def)

lemma binade_int_nonpos:
  assumes "0 < k" "k < 2 ^ 53"
  shows "binade (of_int k) \<le> 0"
proof -
  have quot: "quotient_of (of_int k) = (k, 1)"
    unfolding of_int_rat quotient_of_Fract by (simp add: normalize_def)
  have "nat k < 2 ^ 53"
    using assms by (simp add: nat_less_iff)
  then have "floorlog 2 (nat k) \<le> 53"
    by (intro floorlog_leI) simp_all
  moreover have "floorlog 2 1 = 1" by (simp add: floorlog_def)
  ultimately show ?thesis
    by (simp add: binade_def quot Let_def)
qed

lemma double_of_rat_int:
  assumes "\<bar>n\<bar> < 2 ^ 53"
  shows "double_of_rat (of_int n) = Some (of_int n)"
proof (cases "n = 0")
  case False
  define a :: rat where "a = of_int \<bar>n\<bar>"
  have a: "\<bar>of_int n\<bar> = a" "0 < a"
    using False by (simp_all add: a_def)
  have e: "binade a \<le> 0"
    unfolding a_def using assms False by (intro binade_int_nonpos) simp_all
  have "a / pow2 (binade a) = of_int (\<bar>n\<bar> * 2 ^ nat (- binade a))"
    using e by (simp add: pow2_def a_def)
  then have "of_int (round_half_even (a / pow2 (binade a))) * pow2 (binade a) = a"
    using e by (simp only: round_half_even_of_int) (simp add: pow2_def a_def)
  moreover have "\<not> 2 ^ 1024 \<le> a"
  proof -
    have "a < of_int (2 ^ 53)"
      unfolding a_def using assms by (simp only: of_int_less_iff)
    also have "\<dots> \<le> (2::rat) ^ 1024"
      by (simp add: power_increasing)
    finally show ?thesis by simp
  qed
  moreover have "sgn (of_int n) * a = (of_int n :: rat)"
    by (simp add: sgn_mult_abs flip: a(1))
  ultimately show ?thesis
    using False by (simp add: double_of_rat_def Let_def a)
qed (simp add: double_of_rat_def)

section \<open>Numeric literals\<close>

definition ten_power :: "int \<Rightarrow> rat" where
  "ten_power e = (if 0 \<le> e then 10 ^ nat e else 1 / 10 ^ nat (- e))"

text \<open>The exponent part: empty, or \<open>e\<close> with an optional sign and at least one digit.\<close>

definition parse_exponent :: "string \<Rightarrow> int option" where
  "parse_exponent s =
     (case s of
        [] \<Rightarrow> Some 0
      | c # r \<Rightarrow>
          if c \<noteq> CHR ''e'' \<and> c \<noteq> CHR ''E'' then None
          else let neg = starts_char (CHR ''-'') r;
                   ds = (if neg \<or> starts_char (CHR ''+'') r then tl r else r)
               in if ds \<noteq> [] \<and> list_all is_digit ds
                  then Some (if neg then - int (digits_value ds) else int (digits_value ds))
                  else None)"

text \<open>Digits, an optional fraction, an optional exponent; at least one digit before the exponent.\<close>

definition parse_unsigned_decimal :: "string \<Rightarrow> rat option" where
  "parse_unsigned_decimal s =
     (let ip = takeWhile is_digit s; r = dropWhile is_digit s;
          (fp, r') = (if starts_char (CHR ''.'') r
                      then (takeWhile is_digit (tl r), dropWhile is_digit (tl r)) else ([], r))
      in if ip = [] \<and> fp = [] then None
         else map_option (\<lambda>e. of_nat (digits_value (ip @ fp)) * ten_power (e - int (length fp)))
                (parse_exponent r'))"

definition parse_decimal :: "string \<Rightarrow> rat option" where
  "parse_decimal s =
     (if starts_char (CHR ''-'') s then map_option uminus (parse_unsigned_decimal (tl s))
      else if starts_char (CHR ''+'') s then parse_unsigned_decimal (tl s)
      else parse_unsigned_decimal s)"

text \<open>\<open>0x\<close>, \<open>0o\<close> and \<open>0b\<close> literals, without a sign.\<close>

definition radix_digit :: "char \<Rightarrow> nat" where
  "radix_digit c =
     (let n = char_code c in
      if 48 \<le> n \<and> n \<le> 57 then n - 48
      else if 97 \<le> n \<and> n \<le> 102 then n - 87
      else if 65 \<le> n \<and> n \<le> 70 then n - 55 else 99)"

text \<open>A lower-case hexadecimal digit.\<close>

definition hex_digit :: "nat \<Rightarrow> char" where
  "hex_digit d = (if d < 10 then char_of (48 + d) else char_of (87 + d))"

definition parse_radix :: "nat \<Rightarrow> string \<Rightarrow> rat option" where
  "parse_radix b s =
     (if s \<noteq> [] \<and> list_all (\<lambda>c. radix_digit c < b) s
      then Some (of_nat (foldl (\<lambda>n c. b * n + radix_digit c) 0 s)) else None)"

definition js_number :: "string \<Rightarrow> rat option" where
  "js_number text =
     (let s = trim text in
      if s = [] then Some 0
      else Option.bind
        (if take 2 s = ''0x'' \<or> take 2 s = ''0X'' then parse_radix 16 (drop 2 s)
         else if take 2 s = ''0o'' \<or> take 2 s = ''0O'' then parse_radix 8 (drop 2 s)
         else if take 2 s = ''0b'' \<or> take 2 s = ''0B'' then parse_radix 2 (drop 2 s)
         else parse_decimal s)
        double_of_rat)"

text \<open>The decimal text of a number below \<open>2 ^ 53\<close> reads back as that number.\<close>

lemma no_drop: "\<forall>c\<in>set s. \<not> P c \<Longrightarrow> dropWhile P s = s"
  by (cases s) auto

lemma no_space_trim: "\<forall>c\<in>set s. \<not> is_space c \<Longrightarrow> trim s = s"
  by (simp add: trim_def no_drop)

lemma takeWhile_all: "\<forall>c\<in>set s. P c \<Longrightarrow> takeWhile P s = s \<and> dropWhile P s = []"
  by (induction s) auto

lemma digit_no_space: "is_digit c \<Longrightarrow> \<not> is_space c"
  by (auto simp: is_digit_def is_space_def Let_def)

lemma js_number_nat_string:
  assumes "n < 2 ^ 53"
  shows "js_number (nat_string n) = Some (of_nat n)"
proof -
  let ?s = "nat_string n"
  have digits: "?s \<noteq> []" "\<forall>c\<in>set ?s. is_digit c"
    using nat_string_digits by blast+
  then have "trim ?s = ?s"
    by (intro no_space_trim) (auto dest: digit_no_space)
  moreover have "take 2 ?s \<noteq> [c, d]" if "\<not> is_digit d" for c d
  proof
    assume "take 2 ?s = [c, d]"
    then have "d \<in> set (take 2 ?s)" by simp
    then have "d \<in> set ?s" by (rule in_set_takeD)
    then show False using digits(2) that by blast
  qed
  then have "take 2 ?s \<noteq> ''0x''" "take 2 ?s \<noteq> ''0X''" "take 2 ?s \<noteq> ''0o''" "take 2 ?s \<noteq> ''0O''"
    "take 2 ?s \<noteq> ''0b''" "take 2 ?s \<noteq> ''0B''"
    by (auto simp: is_digit_def char_code_def)
  moreover have "parse_decimal ?s = Some (of_nat n)"
  proof -
    have "hd ?s \<noteq> CHR ''-''" "hd ?s \<noteq> CHR ''+''"
      using digits by (cases ?s; auto simp: is_digit_def char_code_def)+
    then have "parse_decimal ?s = parse_unsigned_decimal ?s"
      by (simp add: parse_decimal_def starts_char_def)
    also have "\<dots> = Some (of_nat n)"
      using digits(1)
      by (simp add: takeWhile_all [OF digits(2), THEN conjunct1] takeWhile_all [OF digits(2), THEN conjunct2] parse_unsigned_decimal_def parse_exponent_def digits_value_nat_string
          ten_power_def starts_char_def Let_def)
    finally show ?thesis .
  qed
  moreover have "double_of_rat (of_nat n) = Some (of_nat n)"
    using double_of_rat_int [of "int n"] assms by simp
  ultimately show ?thesis
    using digits(1) by (simp add: js_number_def Let_def)
qed

end
