(* ===== verification/AckLog.thy ===== *)
theory AckLog
  imports JsCollections JsNumeric SampleTraces
begin

text \<open>
  \<open>core/src/oracle/acklog.ts\<close>: the marker channel read into one record per logical operation. A
  \<open>begin\<close> marker opens the record of its operation, an \<open>ack\<close> marker completes it; markers without
  a finite operation number are skipped.
\<close>

record acked_operation =
  ao_op :: rat
  ao_kind :: string
  ao_key :: string
  ao_digest :: string
  ao_beganAt :: int
  ao_acknowledgedAt :: "int option"
  ao_durable :: bool

text \<open>
  An operation as a workload driver issues it, for the round trip at the end: the thread it runs in, its
  number, key and digest, the stamp of its begin marker, and the stamp and durability of its ack marker
  if it was acknowledged.
\<close>

record driver_operation =
  dr_thread :: int
  dr_op :: nat
  dr_key :: string
  dr_digest :: string
  dr_began :: int
  dr_acked :: "(int \<times> bool) option"

section \<open>Operations\<close>

definition fields :: "string \<Rightarrow> (string, string) js_map" where
  "fields text =
     foldl (\<lambda>pairs token.
         let split = index_of (CHR ''='') token in
         if split \<le> 0 then pairs
         else map_set (take (nat split) token) (drop (nat split + 1) token) pairs)
       map_empty (split_spaces text)"

definition field_or :: "string \<Rightarrow> (string, string) js_map \<Rightarrow> string \<Rightarrow> string" where
  "field_or name pairs fallback = (case map_get pairs name of Some v \<Rightarrow> v | None \<Rightarrow> fallback)"

text \<open>The record a marker opens, before any acknowledgement.\<close>

definition opened_record :: "rat \<Rightarrow> (string, string) js_map \<Rightarrow> trace_marker \<Rightarrow> acked_operation" where
  "opened_record op pairs marker =
     \<lparr>ao_op = op, ao_kind = field_or ''kind'' pairs '''', ao_key = field_or ''key'' pairs '''',
      ao_digest = '''', ao_beganAt = mk_index marker, ao_acknowledgedAt = None, ao_durable = False\<rparr>"

definition ack_step ::
    "(rat, acked_operation) js_map \<Rightarrow> trace_marker \<Rightarrow> (rat, acked_operation) js_map" where
  "ack_step operations marker =
     (let pairs = fields (mk_text marker) in
      case Option.bind (map_get pairs ''op'') js_number of
        None \<Rightarrow> operations
      | Some op \<Rightarrow>
          if map_get pairs ''phase'' = Some ''begin''
          then map_set op (opened_record op pairs marker) operations
          else if map_get pairs ''phase'' = Some ''ack''
          then let record = (case map_get operations op of
                     Some existing \<Rightarrow> existing | None \<Rightarrow> opened_record op pairs marker)
               in map_set op
                    (record\<lparr>ao_digest := field_or ''digest'' pairs '''',
                            ao_acknowledgedAt := Some (mk_index marker),
                            ao_durable := (map_get pairs ''durable'' = Some ''1'')\<rparr>)
                    operations
          else operations)"

definition parseAckLog :: "trace \<Rightarrow> acked_operation list" where
  "parseAckLog trace =
     sort_key ao_beganAt (map_values (foldl ack_step map_empty (tr_markers trace)))"

section \<open>The loop as updates of one record at a time\<close>

text \<open>The operation a marker is about, if it is one the loop reacts to.\<close>

definition marker_op :: "trace_marker \<Rightarrow> rat option" where
  "marker_op marker =
     (let pairs = fields (mk_text marker) in
      if map_get pairs ''phase'' \<in> {Some ''begin'', Some ''ack''}
      then Option.bind (map_get pairs ''op'') js_number else None)"

definition update_record :: "acked_operation option \<Rightarrow> trace_marker \<Rightarrow> acked_operation" where
  "update_record old marker =
     (let pairs = fields (mk_text marker);
          op = the (marker_op marker) in
      if map_get pairs ''phase'' = Some ''begin'' then opened_record op pairs marker
      else (case old of Some existing \<Rightarrow> existing | None \<Rightarrow> opened_record op pairs marker)
        \<lparr>ao_digest := field_or ''digest'' pairs '''', ao_acknowledgedAt := Some (mk_index marker),
         ao_durable := (map_get pairs ''durable'' = Some ''1'')\<rparr>)"

lemma ack_step_eq:
  "ack_step operations marker =
     (case marker_op marker of None \<Rightarrow> operations
      | Some op \<Rightarrow> map_set op (update_record (map_get operations op) marker) operations)"
  by (auto simp: ack_step_def marker_op_def update_record_def Let_def split: option.splits)

lemma ack_loop:
  "foldl ack_step m ms = foldl (\<lambda>m x. case marker_op x of None \<Rightarrow> m
     | Some k \<Rightarrow> map_set k (update_record (map_get m k) x) m) m ms"
  by (rule arg_cong [where f = "\<lambda>f. foldl f m ms"]) (simp add: fun_eq_iff ack_step_eq)

lemma ack_loop_wf: "map_wf (foldl ack_step map_empty ms)"
  unfolding ack_loop by (rule jsmap.loop_invar) simp

lemma ack_loop_get:
  "map_get (foldl ack_step map_empty ms) op
   = foldl (\<lambda>acc x. Some (update_record acc x)) None (filter (\<lambda>x. marker_op x = Some op) ms)"
  unfolding ack_loop jsmap.loop_get [OF map_wf_empty, where key = marker_op and upd = update_record]
  by simp

lemma update_record_op:
  "marker_op x = Some op \<Longrightarrow> (\<And>r. old = Some r \<Longrightarrow> ao_op r = op) \<Longrightarrow> ao_op (update_record old x) = op"
  by (auto simp: update_record_def opened_record_def Let_def split: option.splits)

lemma update_fold_op:
  assumes "\<And>r. acc = Some r \<Longrightarrow> ao_op r = op" "\<forall>x\<in>set xs. marker_op x = Some op"
    and "foldl (\<lambda>acc x. Some (update_record acc x)) acc xs = Some r"
  shows "ao_op r = op"
  using assms
proof (induction xs arbitrary: acc)
  case (Cons x xs)
  have "ao_op (update_record acc x) = op"
    using Cons.prems(1,2) by (intro update_record_op) auto
  then show ?case
    using Cons.prems(2,3) by (intro Cons.IH [of "Some (update_record acc x)"]) auto
qed simp

lemma ack_loop_op:
  "map_get (foldl ack_step map_empty ms) op = Some r \<Longrightarrow> ao_op r = op"
  unfolding ack_loop_get by (erule update_fold_op [rotated 2]) auto

text \<open>The record of an operation: the fold of its own markers, in the order of the channel.\<close>

definition record_of :: "trace_marker list \<Rightarrow> rat \<Rightarrow> acked_operation option" where
  "record_of ms op =
     foldl (\<lambda>acc x. Some (update_record acc x)) None (filter (\<lambda>x. marker_op x = Some op) ms)"

lemma mem_parseAckLog:
  "r \<in> set (parseAckLog trace) \<longleftrightarrow> record_of (tr_markers trace) (ao_op r) = Some r"
proof -
  let ?m = "foldl ack_step map_empty (tr_markers trace)"
  have "r \<in> set (parseAckLog trace) \<longleftrightarrow> (\<exists>op. (op, r) \<in> set ?m)"
    by (force simp: parseAckLog_def map_values_def)
  also have "\<dots> \<longleftrightarrow> (\<exists>op. map_get ?m op = Some r)"
    by (simp add: jsmap.entries_in_get [OF ack_loop_wf])
  also have "\<dots> \<longleftrightarrow> map_get ?m (ao_op r) = Some r"
    using ack_loop_op by metis
  finally show ?thesis
    by (simp add: ack_loop_get record_of_def)
qed

lemma distinct_ops_parseAckLog: "distinct (map ao_op (parseAckLog trace))"
proof -
  let ?m = "foldl ack_step map_empty (tr_markers trace)"
  have "ao_op r = op" if "(op, r) \<in> set ?m" for op r
    using that ack_loop_op jsmap.entries_in_get [OF ack_loop_wf] by metis
  then have "map ao_op (map_values ?m) = map fst ?m"
    by (auto simp: map_values_def)
  then have "distinct (map ao_op (map_values ?m))"
    using jsmap.distinct_keys [OF ack_loop_wf] by simp
  then have "inj_on ao_op (set (map_values ?m))" "distinct (map_values ?m)"
    by (simp_all add: distinct_map)
  then show ?thesis
    by (simp add: parseAckLog_def distinct_map)
qed

lemma sorted_parseAckLog: "sorted (map ao_beganAt (parseAckLog trace))"
  by (simp add: parseAckLog_def)

section \<open>The driver's side of the channel\<close>

text \<open>
  What a workload driver writes (\<open>run_operation\<close> of \<open>src/targets/redb-workload/src/workload.rs\<close>): one line of
  \<open>name=value\<close> words per marker, a \<open>begin\<close> before the operation and an \<open>ack\<close> once the target has acknowledged
  it. The stamp and the thread are added by the shim.
\<close>

definition marker_text :: "(string \<times> string) list \<Rightarrow> string" where
  "marker_text kvs = join '' '' (map (\<lambda>(k, v). k @ ''='' @ v) kvs)"

definition clean_word :: "string \<Rightarrow> bool" where
  "clean_word w \<longleftrightarrow> (\<forall>c\<in>set w. \<not> is_space c)"

definition begin_marker :: "driver_operation \<Rightarrow> trace_marker" where
  "begin_marker d = \<lparr>mk_index = dr_began d, mk_threadId = dr_thread d, mk_text = marker_text
     [(''op'', nat_string (dr_op d)), (''phase'', ''begin''), (''kind'', ''put''), (''key'', dr_key d)]\<rparr>"

definition ack_marker :: "driver_operation \<Rightarrow> int \<Rightarrow> bool \<Rightarrow> trace_marker" where
  "ack_marker d stamp durable = \<lparr>mk_index = stamp, mk_threadId = dr_thread d, mk_text = marker_text
     [(''op'', nat_string (dr_op d)), (''phase'', ''ack''), (''kind'', ''put''), (''key'', dr_key d),
      (''digest'', dr_digest d), (''durable'', if durable then ''1'' else ''0'')]\<rparr>"

definition driver_markers :: "driver_operation \<Rightarrow> trace_marker list" where
  "driver_markers d = begin_marker d
     # (case dr_acked d of None \<Rightarrow> [] | Some (stamp, durable) \<Rightarrow> [ack_marker d stamp durable])"

definition driver_record :: "driver_operation \<Rightarrow> acked_operation" where
  "driver_record d =
     \<lparr>ao_op = of_nat (dr_op d), ao_kind = ''put'', ao_key = dr_key d,
      ao_digest = (case dr_acked d of None \<Rightarrow> '''' | Some _ \<Rightarrow> dr_digest d), ao_beganAt = dr_began d,
      ao_acknowledgedAt = map_option fst (dr_acked d),
      ao_durable = (case dr_acked d of None \<Rightarrow> False | Some (_, durable) \<Rightarrow> durable)\<rparr>"

definition clean_operation :: "driver_operation \<Rightarrow> bool" where
  "clean_operation d \<longleftrightarrow> dr_op d < 2 ^ 53 \<and> clean_word (dr_key d) \<and> clean_word (dr_digest d)"

lemma clean_word_run:
  "clean_word w \<Longrightarrow> takeWhile (\<lambda>c. \<not> is_space c) w = w \<and> dropWhile (\<lambda>c. \<not> is_space c) w = []"
  by (rule takeWhile_all) (simp add: clean_word_def)

lemma split_spaces_clean: "clean_word w \<Longrightarrow> split_spaces w = [w]"
  by (subst split_spaces.simps)
    (simp only: clean_word_run [THEN conjunct1] clean_word_run [THEN conjunct2] list.case)

lemma marker_stamps [simp]:
  "mk_index (begin_marker d) = dr_began d" "mk_index (ack_marker d stamp durable) = stamp"
  by (simp_all add: begin_marker_def ack_marker_def)

lemma split_spaces_word:
  assumes "clean_word w" "s \<noteq> []" "\<not> is_space (hd s)"
  shows "split_spaces (w @ '' '' @ s) = w # split_spaces s"
proof -
  have "is_space (CHR '' '')" by code_simp
  moreover have "dropWhile is_space s = s"
    using assms(2,3) by (cases s) auto
  ultimately show ?thesis
    using assms(1)
    by (subst split_spaces.simps) (simp add: clean_word_def takeWhile_tail)
qed

lemma split_spaces_join:
  assumes "ws \<noteq> []" "\<forall>w\<in>set ws. clean_word w \<and> w \<noteq> []"
  shows "split_spaces (join '' '' ws) = ws"
  using assms
proof (induction ws)
  case (Cons w ws)
  show ?case
  proof (cases "ws = []")
    case True
    then show ?thesis using Cons.prems by (simp add: split_spaces_clean)
  next
    case False
    then obtain v vs where ws: "ws = v # vs" by (cases ws) auto
    have v: "v \<noteq> []" "clean_word v" using Cons.prems ws by auto
    have "join '' '' ws \<noteq> [] \<and> hd (join '' '' ws) = hd v"
      using v(1) by (cases vs) (simp_all add: ws)
    then show ?thesis
      using Cons.IH Cons.prems False v
      by (simp add: join_Cons_nonempty split_spaces_word [simplified] clean_word_def)
  qed
qed simp

lemma fields_marker_text:
  assumes "kvs \<noteq> []" "\<forall>(k, v)\<in>set kvs. k \<noteq> [] \<and> clean_word k \<and> clean_word v \<and> CHR ''='' \<notin> set k"
  shows "fields (marker_text kvs) = foldl (\<lambda>m (k, v). map_set k v m) map_empty kvs"
proof -
  have "\<not> is_space (CHR ''='')" by code_simp
  then have "split_spaces (marker_text kvs) = map (\<lambda>(k, v). k @ ''='' @ v) kvs"
    unfolding marker_text_def using assms
    by (intro split_spaces_join) (auto simp: clean_word_def)
  moreover have "foldl (\<lambda>pairs token. let split = index_of (CHR ''='') token in
         if split \<le> 0 then pairs
         else map_set (take (nat split) token) (drop (nat split + 1) token) pairs)
       m (map (\<lambda>(k, v). k @ ''='' @ v) kvs) = foldl (\<lambda>m (k, v). map_set k v m) m kvs" for m
    using assms(2) by (induction kvs arbitrary: m) (auto simp: index_of_append)
  ultimately show ?thesis
    by (simp add: fields_def)
qed

lemma nat_string_clean: "clean_word (nat_string n)"
  using nat_string_digits [of n] by (auto simp: clean_word_def dest: digit_no_space)

lemma clean_literals:
  "clean_word ''op''" "clean_word ''phase''" "clean_word ''kind''" "clean_word ''key''"
  "clean_word ''digest''" "clean_word ''durable''" "clean_word ''begin''" "clean_word ''ack''"
  "clean_word ''put''" "clean_word ''0''" "clean_word ''1''"
  unfolding clean_word_def by code_simp+

lemma fields_begin:
  "clean_operation d \<Longrightarrow> fields (mk_text (begin_marker d)) =
     foldl (\<lambda>m (k, v). map_set k v m) map_empty
       [(''op'', nat_string (dr_op d)), (''phase'', ''begin''), (''kind'', ''put''), (''key'', dr_key d)]"
  unfolding begin_marker_def trace_marker.select_convs
  by (rule fields_marker_text) (auto simp: clean_operation_def clean_literals nat_string_clean)

lemma fields_ack:
  "clean_operation d \<Longrightarrow> fields (mk_text (ack_marker d stamp durable)) =
     foldl (\<lambda>m (k, v). map_set k v m) map_empty
       [(''op'', nat_string (dr_op d)), (''phase'', ''ack''), (''kind'', ''put''), (''key'', dr_key d),
        (''digest'', dr_digest d), (''durable'', if durable then ''1'' else ''0'')]"
  unfolding ack_marker_def trace_marker.select_convs
  by (rule fields_marker_text) (auto simp: clean_operation_def clean_literals nat_string_clean)

lemma step_begin:
  "clean_operation d \<Longrightarrow> ack_step m (begin_marker d)
   = map_set (of_nat (dr_op d)) (driver_record (d\<lparr>dr_acked := None\<rparr>)) m"
  by (simp add: ack_step_def fields_begin js_number_nat_string clean_operation_def Let_def
      opened_record_def field_or_def driver_record_def)

lemma step_ack:
  "clean_operation d \<Longrightarrow> map_get m (of_nat (dr_op d)) = Some (driver_record (d\<lparr>dr_acked := None\<rparr>)) \<Longrightarrow>
   ack_step m (ack_marker d stamp durable)
   = map_set (of_nat (dr_op d)) (driver_record (d\<lparr>dr_acked := Some (stamp, durable)\<rparr>)) m"
  by (simp add: ack_step_def fields_ack js_number_nat_string clean_operation_def Let_def field_or_def
      driver_record_def)

lemma driver_loop_one:
  assumes "clean_operation d" "of_nat (dr_op d) \<notin> set (map fst m)"
  shows "foldl ack_step m (driver_markers d) = m @ [(of_nat (dr_op d), driver_record d)]"
proof (cases "dr_acked d")
  case None
  then have "driver_record (d\<lparr>dr_acked := None\<rparr>) = driver_record d"
    by (simp add: driver_record_def)
  then show ?thesis
    using assms None by (simp add: driver_markers_def step_begin map_set_def update_fresh)
next
  case (Some a)
  obtain stamp durable where a: "a = (stamp, durable)" by (cases a)
  then have "driver_record (d\<lparr>dr_acked := Some (stamp, durable)\<rparr>) = driver_record d"
    using Some by (simp add: driver_record_def)
  then show ?thesis
    using assms Some a
    by (simp add: driver_markers_def step_begin step_ack)
      (simp add: map_set_def update_fresh update_append)
qed

lemma driver_loop:
  assumes "\<forall>d\<in>set ds. clean_operation d" "distinct (map dr_op ds)"
    and "\<forall>d\<in>set ds. of_nat (dr_op d) \<notin> set (map fst m)"
  shows "foldl ack_step m (concat (map driver_markers ds))
       = m @ map (\<lambda>d. (of_nat (dr_op d), driver_record d)) ds"
  using assms
proof (induction ds arbitrary: m)
  case (Cons d ds)
  have "foldl ack_step (m @ [(of_nat (dr_op d), driver_record d)]) (concat (map driver_markers ds))
      = (m @ [(of_nat (dr_op d), driver_record d)]) @ map (\<lambda>d. (of_nat (dr_op d), driver_record d)) ds"
    using Cons.prems by (intro Cons.IH) (auto simp: image_iff)
  then show ?case
    using Cons.prems by (simp add: driver_loop_one)
qed simp

lemma driver_log:
  assumes "\<forall>d\<in>set ds. clean_operation d" "distinct (map dr_op ds)" "sorted (map dr_began ds)"
    and "tr_markers trace = concat (map driver_markers ds)"
  shows "parseAckLog trace = map driver_record ds"
proof -
  have "map_values (foldl ack_step map_empty (tr_markers trace)) = map driver_record ds"
    unfolding assms(4) driver_loop [OF assms(1,2), of map_empty, simplified map_empty_def, simplified]
    using driver_loop [OF assms(1,2), of "[]"]
    by (simp add: map_values_def map_empty_def comp_def)
  moreover have "map ao_beganAt (map driver_record ds) = map dr_began ds"
    by (simp add: driver_record_def)
  then have "sort_key ao_beganAt (map driver_record ds) = map driver_record ds"
    using assms(3) by (intro sort_key_id_if_sorted) (simp only:)
  ultimately show ?thesis
    by (simp add: parseAckLog_def)
qed

section \<open>Concurrent drivers\<close>

text \<open>The interleavings of several streams of markers, each stream kept in its order.\<close>

fun interleavings :: "'a list list \<Rightarrow> 'a list set" where
  "interleavings [] = {[]}"
| "interleavings (xs # xss) = (\<Union>ys\<in>interleavings xss. shuffles xs ys)"

lemma interleavings_filter_none:
  assumes "\<forall>xs\<in>set xss. filter P xs = []" "ys \<in> interleavings xss"
  shows "filter P ys = []"
  using assms
proof (induction xss arbitrary: ys)
  case (Cons xs xss)
  then obtain zs where zs: "zs \<in> interleavings xss" "ys \<in> shuffles xs zs" by auto
  have "filter P ys \<in> shuffles (filter P xs) (filter P zs)"
    using filter_shuffles [of P xs zs] zs(2) by blast
  then show ?case
    using Cons.IH [OF _ zs(1)] Cons.prems(1) by simp
qed simp

text \<open>What one stream alone satisfies survives in the interleaving as that stream wrote it.\<close>

lemma interleavings_filter_one:
  assumes "xss = us @ xs # vs" "\<forall>zs\<in>set us \<union> set vs. filter P zs = []" "ys \<in> interleavings xss"
  shows "filter P ys = filter P xs"
  using assms
proof (induction us arbitrary: xss ys)
  case Nil
  then obtain zs where zs: "zs \<in> interleavings vs" "ys \<in> shuffles xs zs" by auto
  have "filter P ys \<in> shuffles (filter P xs) (filter P zs)"
    using filter_shuffles [of P xs zs] zs(2) by blast
  moreover have "filter P zs = []"
    using interleavings_filter_none [OF _ zs(1)] Nil.prems(2) by simp
  ultimately show ?case by simp
next
  case (Cons u us)
  then obtain zs where zs: "zs \<in> interleavings (us @ xs # vs)" "ys \<in> shuffles u zs" by auto
  have "filter P ys \<in> shuffles (filter P u) (filter P zs)"
    using filter_shuffles [of P u zs] zs(2) by blast
  moreover have "filter P zs = filter P xs"
    using Cons.IH [OF refl _ zs(1)] Cons.prems(2) by simp
  ultimately show ?case
    using Cons.prems(2) by simp
qed

lemma contiguous_interleaving: "concat xss \<in> interleavings xss"
proof (induction xss)
  case (Cons xs xss)
  have "xs @ ys \<in> shuffles xs ys" for ys :: "'a list"
    by (induction xs) (simp_all add: Cons_in_shuffles_iff)
  then show ?case using Cons.IH by auto
qed simp

lemma marker_op_driver:
  assumes "clean_operation d" "x \<in> set (driver_markers d)"
  shows "marker_op x = Some (of_nat (dr_op d))"
  using assms
  by (auto simp: driver_markers_def marker_op_def fields_begin fields_ack js_number_nat_string
      clean_operation_def Let_def split: option.splits)

lemma filter_driver_markers:
  "clean_operation d \<Longrightarrow> filter (\<lambda>x. marker_op x = Some op) (driver_markers d)
   = (if op = of_nat (dr_op d) then driver_markers d else [])"
  by (auto simp: filter_id_conv filter_empty_conv marker_op_driver)

lemma fold_driver_markers:
  assumes "clean_operation d"
  shows "foldl (\<lambda>acc x. Some (update_record acc x)) None (driver_markers d) = Some (driver_record d)"
proof -
  have one: "filter (\<lambda>x. marker_op x = Some (of_nat (dr_op d))) (driver_markers d) = driver_markers d"
    using assms by (simp add: filter_driver_markers)
  have "foldl ack_step map_empty (driver_markers d) = [(of_nat (dr_op d), driver_record d)]"
    using driver_loop_one [OF assms, of map_empty] by (simp add: map_empty_def)
  then show ?thesis
    using ack_loop_get [of "driver_markers d" "of_nat (dr_op d)"] one
    by (simp add: map_get_def)
qed

lemma record_of_interleaved:
  assumes clean: "\<forall>d\<in>set ds. clean_operation d" and ops: "distinct (map dr_op ds)"
    and ms: "ms \<in> interleavings (map driver_markers ds)"
  shows "record_of ms op = Some r \<longleftrightarrow> (\<exists>d\<in>set ds. op = of_nat (dr_op d) \<and> r = driver_record d)"
proof (cases "\<exists>d\<in>set ds. op = of_nat (dr_op d)")
  case True
  then obtain d where d: "d \<in> set ds" "op = of_nat (dr_op d)" by blast
  obtain us vs where ds: "ds = us @ d # vs" using d(1) split_list by metis
  have "filter (\<lambda>x. marker_op x = Some op) ms = filter (\<lambda>x. marker_op x = Some op) (driver_markers d)"
  proof (rule interleavings_filter_one [OF _ _ ms])
    show "map driver_markers ds = map driver_markers us @ driver_markers d # map driver_markers vs"
      by (simp add: ds)
    show "\<forall>zs\<in>set (map driver_markers us) \<union> set (map driver_markers vs). filter (\<lambda>x. marker_op x = Some op) zs = []"
      using clean ops by (auto simp: ds d(2) filter_driver_markers)
  qed
  then have mine: "record_of ms op = Some (driver_record d)"
    using clean d by (simp add: record_of_def filter_driver_markers fold_driver_markers)
  have only: "e = d" if "e \<in> set ds" "op = of_nat (dr_op e)" for e
  proof (rule inj_onD)
    show "inj_on dr_op (set ds)" using ops by (simp add: distinct_map)
    show "dr_op e = dr_op d" using trans [OF that(2) [symmetric] d(2)] by (simp only: of_nat_eq_iff)
  qed (fact that(1) d(1))+
  show ?thesis
  proof
    assume "record_of ms op = Some r"
    then have "r = driver_record d" using mine by (simp only: option.inject)
    then show "\<exists>d\<in>set ds. op = of_nat (dr_op d) \<and> r = driver_record d" using d by blast
  next
    assume "\<exists>d\<in>set ds. op = of_nat (dr_op d) \<and> r = driver_record d"
    then obtain e where e: "e \<in> set ds" "op = of_nat (dr_op e)" "r = driver_record e" by blast
    show "record_of ms op = Some r" using mine only [OF e(1,2)] e(3) by (simp only:)
  qed
next
  case False
  then have "filter (\<lambda>x. marker_op x = Some op) ms = []"
    using clean by (intro interleavings_filter_none [OF _ ms]) (auto simp: filter_driver_markers)
  then show ?thesis using False by (auto simp: record_of_def)
qed

lemma driver_log_interleaved:
  assumes clean: "\<forall>d\<in>set ds. clean_operation d" and ops: "distinct (map dr_op ds)"
    and began: "distinct (map dr_began ds)" and ms: "tr_markers trace \<in> interleavings (map driver_markers ds)"
  shows "parseAckLog trace = map driver_record (sort_key dr_began ds)"
proof -
  have stamp: "ao_beganAt (driver_record d) = dr_began d" and op: "ao_op (driver_record d) = of_nat (dr_op d)" for d
    by (simp_all add: driver_record_def)
  have members: "set (parseAckLog trace) = driver_record ` set ds"
    by (auto simp: mem_parseAckLog record_of_interleaved [OF clean ops ms] op)
  have inj: "inj_on ao_beganAt (driver_record ` set ds)"
    using began by (auto simp: inj_on_def distinct_map stamp)
  have "map ao_beganAt (parseAckLog trace) = map ao_beganAt (map driver_record (sort_key dr_began ds))"
  proof (rule sorted_distinct_set_unique)
    show "distinct (map ao_beganAt (parseAckLog trace))"
      using distinct_ops_parseAckLog [of trace] inj by (simp add: distinct_map members)
    show "sorted (map ao_beganAt (map driver_record (sort_key dr_began ds)))"
      by (simp add: comp_def stamp)
    show "distinct (map ao_beganAt (map driver_record (sort_key dr_began ds)))"
      using began by (simp add: comp_def stamp distinct_map)
    show "set (map ao_beganAt (parseAckLog trace)) = set (map ao_beganAt (map driver_record (sort_key dr_began ds)))"
      using members by (simp add: image_image)
  qed (rule sorted_parseAckLog)
  then show ?thesis
    using inj by (intro map_inj_on [of ao_beganAt]) (simp_all add: members)
qed

text \<open>One driver alone writes its operations one after the other.\<close>

section \<open>Properties\<close>

text \<open>The acknowledgement log has one record per operation, ordered by when the operation began, and
  the record of an operation is computed from that operation's own markers, in their order.\<close>

lemma ack_log_exact:
  "distinct (map ao_op (parseAckLog trace)) \<and> sorted (map ao_beganAt (parseAckLog trace))
   \<and> (\<forall>r. r \<in> set (parseAckLog trace) \<longleftrightarrow> record_of (tr_markers trace) (ao_op r) = Some r)"
  by (simp add: distinct_ops_parseAckLog sorted_parseAckLog mem_parseAckLog)

text \<open>C17: round trip of the marker channel under concurrency. The drivers' operations run in any number of
  threads and processes, so their markers reach the trace in some interleaving: an operation may begin
  and end while another is in flight, begin markers may arrive out of the order of their stamps, and an
  operation cut off by the crash has no ack at all. Only the two markers of one operation keep their
  order. Whatever the interleaving, the log holds exactly the operations that began, ordered by when
  they began, and gives each of them its own key, digest, acknowledgement stamp and durability.\<close>

theorem ack_log_roundtrip:
  assumes "\<forall>d\<in>set ds. clean_operation d" "distinct (map dr_op ds)" "distinct (map dr_began ds)"
    and "tr_markers trace \<in> interleavings (map driver_markers ds)"
  shows "parseAckLog trace = map driver_record (sort_key dr_began ds)"
  by (rule driver_log_interleaved) fact+

text \<open>Three operations of three threads: the second begins while the first is in flight and is cut off by
  the crash; the begin of the third, stamped first of all, reaches the channel last.\<close>

definition sample_driver :: "driver_operation list" where
  "sample_driver =
     [\<lparr>dr_thread = 1, dr_op = 1, dr_key = ''alpha'', dr_digest = ''aaaa'', dr_began = 1, dr_acked = Some (5, True)\<rparr>,
      \<lparr>dr_thread = 2, dr_op = 2, dr_key = ''beta'', dr_digest = ''bbbb'', dr_began = 2, dr_acked = None\<rparr>,
      \<lparr>dr_thread = 3, dr_op = 3, dr_key = ''alpha'', dr_digest = ''cccc'', dr_began = 0, dr_acked = Some (6, False)\<rparr>]"

definition sample_channel :: "trace_marker list" where
  "sample_channel = (case sample_driver of [first, second, third] \<Rightarrow>
     [begin_marker first, begin_marker second, begin_marker third, ack_marker first 5 True, ack_marker third 6 False])"

lemma ack_log_roundtrip_witness:
  "parseAckLog (trace_of [] sample_channel)
   = map driver_record [sample_driver ! 2, sample_driver ! 0, sample_driver ! 1]"
proof -
  have "parseAckLog (trace_of [] sample_channel) = map driver_record (sort_key dr_began sample_driver)"
  proof (rule ack_log_roundtrip)
    show "\<forall>d\<in>set sample_driver. clean_operation d"
      by (simp add: sample_driver_def clean_operation_def clean_word_def) code_simp
    show "tr_markers (trace_of [] sample_channel) \<in> interleavings (map driver_markers sample_driver)"
      by (simp add: sample_channel_def sample_driver_def trace_of_def driver_markers_def)
  qed (simp_all add: sample_driver_def)
  then show ?thesis
    by (simp add: sample_driver_def)
qed

end
