(* ===== verification/Oracle.thy ===== *)
theory Oracle
  imports AckLog
begin

text \<open>
  \<open>core/src/oracle/oracle.ts\<close>: the judgement on one recovered image. What was promised before the
  crash stamp decides whether anything can be reported at all; a failed recovery is one violation,
  an opened database is checked for its own integrity and for every promised value.
\<close>

datatype violation_class = LOST_ACKED | CORRUPT_INVARIANT | RECOVERY_FAILED | PHANTOM_UNACKED

datatype recovery_result =
    Opened (integrityOk: bool) (recovered_values: "(string, string) js_map")
      (opened_detail: "string option")
  | Failed (failed_detail: string)

record oracle_input =
  oi_crashStamp :: int
  oi_ackLog :: "acked_operation list"
  oi_recovery :: recovery_result

record violation =
  vi_violationClass :: violation_class
  vi_crashStamp :: int
  vi_op :: "rat option"
  vi_key :: string
  vi_expected :: string
  vi_actual :: string

definition ABSENT :: string where
  "ABSENT = ''<absent>''"

definition promisedBefore :: "acked_operation list \<Rightarrow> int \<Rightarrow> acked_operation list" where
  "promisedBefore ackLog crashStamp =
     filter (\<lambda>operation. ao_durable operation
        \<and> (case ao_acknowledgedAt operation of None \<Rightarrow> False | Some ackedAt \<Rightarrow> ackedAt < crashStamp)) ackLog"

definition lost_acked :: "int \<Rightarrow> acked_operation \<Rightarrow> string option \<Rightarrow> violation" where
  "lost_acked crashStamp operation actual =
     \<lparr>vi_violationClass = LOST_ACKED, vi_crashStamp = crashStamp, vi_op = Some (ao_op operation),
      vi_key = ao_key operation, vi_expected = ao_digest operation,
      vi_actual = (case actual of Some v \<Rightarrow> v | None \<Rightarrow> ABSENT)\<rparr>"

definition checkOracle :: "oracle_input \<Rightarrow> violation list" where
  "checkOracle input =
     (let violations = [];
          promised = promisedBefore (oi_ackLog input) (oi_crashStamp input) in
      if promised = [] then violations
      else (case oi_recovery input of
          Failed detail \<Rightarrow>
            violations @ [\<lparr>vi_violationClass = RECOVERY_FAILED, vi_crashStamp = oi_crashStamp input,
              vi_op = None, vi_key = '''', vi_expected = ''<opens and recovers>'',
              vi_actual = detail\<rparr>]
        | Opened ok vals detail \<Rightarrow>
            let violations = (if \<not> ok then violations @ [\<lparr>vi_violationClass = CORRUPT_INVARIANT,
                  vi_crashStamp = oi_crashStamp input, vi_op = None, vi_key = '''',
                  vi_expected = ''<integrity check passes>'',
                  vi_actual = (case detail of Some d \<Rightarrow> d | None \<Rightarrow> ''<integrity check failed>'')\<rparr>]
                else violations)
            in foldl (\<lambda>violations operation.
                 let actual = map_get vals (ao_key operation) in
                 if actual = None \<or> actual \<noteq> Some (ao_digest operation)
                 then violations @ [lost_acked (oi_crashStamp input) operation actual]
                 else violations)
               violations promised))"

section \<open>The contract\<close>

text \<open>
  The contract of \<open>docs/model.md\<close>: the target opens the image, its integrity check passes, and
  every promised operation reads back with its digest.
\<close>

definition honoured :: "recovery_result \<Rightarrow> acked_operation \<Rightarrow> bool" where
  "honoured recovery operation \<longleftrightarrow>
     (case recovery of Opened _ vals _ \<Rightarrow> map_get vals (ao_key operation) = Some (ao_digest operation)
                     | Failed _ \<Rightarrow> False)"

definition contract_holds :: "oracle_input \<Rightarrow> bool" where
  "contract_holds input \<longleftrightarrow>
     (\<exists>ok vals detail. oi_recovery input = Opened ok vals detail \<and> ok)
     \<and> (\<forall>operation\<in>set (promisedBefore (oi_ackLog input) (oi_crashStamp input)).
          honoured (oi_recovery input) operation)"

lemma lost_loop:
  "foldl (\<lambda>violations operation.
       let actual = map_get vals (ao_key operation) in
       if actual = None \<or> actual \<noteq> Some (ao_digest operation)
       then violations @ [lost_acked stamp operation actual] else violations) vs ops
   = vs @ map (\<lambda>operation. lost_acked stamp operation (map_get vals (ao_key operation)))
        (filter (\<lambda>operation. map_get vals (ao_key operation) \<noteq> Some (ao_digest operation)) ops)"
  by (induction ops arbitrary: vs) (auto simp: Let_def)

lemma checkOracle_nothing_promised:
  "promisedBefore (oi_ackLog input) (oi_crashStamp input) = [] \<Longrightarrow> checkOracle input = []"
  by (simp add: checkOracle_def Let_def)

lemma checkOracle_failed:
  "promisedBefore (oi_ackLog input) (oi_crashStamp input) \<noteq> [] \<Longrightarrow>
   oi_recovery input = Failed detail \<Longrightarrow>
   checkOracle input = [\<lparr>vi_violationClass = RECOVERY_FAILED, vi_crashStamp = oi_crashStamp input,
      vi_op = None, vi_key = '''', vi_expected = ''<opens and recovers>'', vi_actual = detail\<rparr>]"
  by (simp add: checkOracle_def Let_def)

text \<open>For an opened image: at most one integrity violation, then one per dishonoured promise.\<close>

lemma checkOracle_opened:
  assumes "promisedBefore (oi_ackLog input) (oi_crashStamp input) \<noteq> []"
    and "oi_recovery input = Opened ok vals detail"
  shows "checkOracle input =
     (if ok then [] else [\<lparr>vi_violationClass = CORRUPT_INVARIANT, vi_crashStamp = oi_crashStamp input,
        vi_op = None, vi_key = '''', vi_expected = ''<integrity check passes>'',
        vi_actual = (case detail of Some d \<Rightarrow> d | None \<Rightarrow> ''<integrity check failed>'')\<rparr>])
     @ map (\<lambda>operation. lost_acked (oi_crashStamp input) operation (map_get vals (ao_key operation)))
        (filter (\<lambda>operation. \<not> honoured (oi_recovery input) operation)
           (promisedBefore (oi_ackLog input) (oi_crashStamp input)))"
  using assms unfolding checkOracle_def Let_def lost_loop [unfolded Let_def]
  by (simp add: honoured_def)

lemma checkOracle_stamp: "v \<in> set (checkOracle input) \<Longrightarrow> vi_crashStamp v = oi_crashStamp input"
proof (cases "promisedBefore (oi_ackLog input) (oi_crashStamp input) = []")
  case False
  then show "v \<in> set (checkOracle input) \<Longrightarrow> vi_crashStamp v = oi_crashStamp input"
    by (cases "oi_recovery input")
      (auto simp: checkOracle_opened checkOracle_failed lost_acked_def split: if_splits)
qed (simp add: checkOracle_nothing_promised)

lemma promised_mono:
  "stamp \<le> stamp' \<Longrightarrow> set (promisedBefore ackLog stamp) \<subseteq> set (promisedBefore ackLog stamp')"
  by (auto simp: promisedBefore_def split: option.splits)

section \<open>Properties\<close>

definition promised_operation :: "rat \<Rightarrow> string \<Rightarrow> string \<Rightarrow> int \<Rightarrow> acked_operation" where
  "promised_operation op key digest acked =
     \<lparr>ao_op = op, ao_kind = ''put'', ao_key = key, ao_digest = digest, ao_beganAt = acked - 2,
      ao_acknowledgedAt = Some acked, ao_durable = True\<rparr>"

definition oracle_input_of ::
    "int \<Rightarrow> acked_operation list \<Rightarrow> (string, string) js_map \<Rightarrow> oracle_input" where
  "oracle_input_of stamp ackLog vals =
     \<lparr>oi_crashStamp = stamp, oi_ackLog = ackLog, oi_recovery = Opened True vals None\<rparr>"

lemmas oracle_sample_defs = promised_operation_def oracle_input_of_def promisedBefore_def map_get_def

lemma contract_clean: "contract_holds input \<Longrightarrow> checkOracle input = []"
  by (cases "promisedBefore (oi_ackLog input) (oi_crashStamp input) = []")
    (auto simp: checkOracle_nothing_promised contract_holds_def checkOracle_opened filter_empty_conv)

text \<open>C6: the oracle is sound and complete for the contract. It reports nothing exactly when nothing was
  promised before the crash, or the target opened the image, passed its integrity check and returned
  every promised value.\<close>

theorem oracle_exact:
  "checkOracle input = [] \<longleftrightarrow>
     promisedBefore (oi_ackLog input) (oi_crashStamp input) = [] \<or> contract_holds input"
proof (cases "promisedBefore (oi_ackLog input) (oi_crashStamp input) = []")
  case False
  then show ?thesis
    by (cases "oi_recovery input")
      (auto simp: checkOracle_opened checkOracle_failed contract_holds_def filter_empty_conv)
qed (simp add: checkOracle_nothing_promised)

text \<open>C19: a lost acknowledgement is reported exactly for the operations that were durable and
  acknowledged before the crash stamp and whose value the opened database does not return.\<close>

theorem lost_acked_iff:
  "(\<exists>v\<in>set (checkOracle input). vi_violationClass v = LOST_ACKED \<and> vi_op v = Some op) \<longleftrightarrow>
     (\<exists>ok vals detail operation acked. oi_recovery input = Opened ok vals detail
        \<and> operation \<in> set (oi_ackLog input) \<and> ao_op operation = op \<and> ao_durable operation
        \<and> ao_acknowledgedAt operation = Some acked \<and> acked < oi_crashStamp input
        \<and> map_get vals (ao_key operation) \<noteq> Some (ao_digest operation))"
proof (cases "promisedBefore (oi_ackLog input) (oi_crashStamp input) = []")
  case True
  then show ?thesis
    by (auto simp: checkOracle_nothing_promised promisedBefore_def filter_empty_conv split: option.splits)
next
  case False
  then show ?thesis
  proof (cases "oi_recovery input")
    case (Opened ok vals detail)
    then show ?thesis
      by (auto simp: checkOracle_opened [OF False Opened] honoured_def lost_acked_def promisedBefore_def
          split: option.splits)
  next
    case (Failed detail)
    then show ?thesis by (simp add: checkOracle_failed [OF False Failed])
  qed
qed

text \<open>A recovery that fails is one violation, whatever number of operations was promised; an opened
  image has at most one integrity violation, and the class \<open>PHANTOM_UNACKED\<close> is never reported.\<close>

lemma oracle_violation_counts:
  "length (filter (\<lambda>v. vi_violationClass v \<noteq> LOST_ACKED) (checkOracle input)) \<le> 1
   \<and> PHANTOM_UNACKED \<notin> vi_violationClass ` set (checkOracle input)
   \<and> ((\<exists>v\<in>set (checkOracle input). vi_violationClass v = RECOVERY_FAILED) \<longleftrightarrow>
        (\<exists>detail. oi_recovery input = Failed detail)
        \<and> promisedBefore (oi_ackLog input) (oi_crashStamp input) \<noteq> [])"
proof (cases "promisedBefore (oi_ackLog input) (oi_crashStamp input) = []")
  case False
  show ?thesis
  proof (cases "oi_recovery input")
    case (Opened ok vals detail)
    have "filter (\<lambda>v. vi_violationClass v \<noteq> LOST_ACKED)
        (map (\<lambda>operation. lost_acked stamp operation (f operation)) ops) = []" for stamp f ops
      by (induction ops) (simp_all add: lost_acked_def)
    then show ?thesis
      unfolding checkOracle_opened [OF False Opened] by (auto simp: Opened lost_acked_def)
  next
    case (Failed detail)
    then show ?thesis using False by (simp add: checkOracle_failed [OF False Failed])
  qed
qed (simp add: checkOracle_nothing_promised)

text \<open>An acknowledgement that races the crash is no promise, and promises only accumulate: moving the
  crash later keeps every lost acknowledgement of the same recovered database.\<close>

lemma lost_acked_monotone:
  assumes "oi_recovery input = Opened ok vals detail" "oi_crashStamp input \<le> stamp"
    and "v \<in> set (checkOracle input)" "vi_violationClass v = LOST_ACKED"
  shows "v\<lparr>vi_crashStamp := stamp\<rparr> \<in> set (checkOracle (input\<lparr>oi_crashStamp := stamp\<rparr>))"
proof -
  have ne: "promisedBefore (oi_ackLog input) (oi_crashStamp input) \<noteq> []"
    using assms(3) checkOracle_nothing_promised [of input] by auto
  then have ne': "promisedBefore (oi_ackLog (input\<lparr>oi_crashStamp := stamp\<rparr>))
      (oi_crashStamp (input\<lparr>oi_crashStamp := stamp\<rparr>)) \<noteq> []"
    using promised_mono [OF assms(2), of "oi_ackLog input"] by auto
  obtain operation where operation:
    "operation \<in> set (promisedBefore (oi_ackLog input) (oi_crashStamp input))"
    "v = lost_acked (oi_crashStamp input) operation (map_get vals (ao_key operation))"
    "\<not> honoured (oi_recovery input) operation"
    using assms(3,4) unfolding checkOracle_opened [OF ne assms(1)] by (auto split: if_splits)
  then have "v\<lparr>vi_crashStamp := stamp\<rparr> = lost_acked stamp operation (map_get vals (ao_key operation))"
    by (simp add: lost_acked_def)
  moreover have "operation \<in> set (promisedBefore (oi_ackLog input) stamp)"
    using operation(1) promised_mono [OF assms(2)] by blast
  ultimately show ?thesis
    using operation(3) checkOracle_opened [OF ne', of ok vals detail] assms(1) by auto
qed

lemma lost_acked_monotone_example:
  "lost_acked 20 (promised_operation 1 ''k'' ''d1'' 5) None
   \<in> set (checkOracle (oracle_input_of 20 [promised_operation 1 ''k'' ''d1'' 5] []))"
proof -
  let ?o = "promised_operation 1 ''k'' ''d1'' 5"
  have "lost_acked 9 ?o None \<in> set (checkOracle (oracle_input_of 9 [?o] []))"
    by (simp add: checkOracle_def oracle_sample_defs lost_acked_def Let_def)
  then show ?thesis
    using lost_acked_monotone [of "oracle_input_of 9 [?o] []" True "[]" None 20 "lost_acked 9 ?o None"]
    by (simp add: oracle_input_of_def lost_acked_def)
qed

text \<open>C39: two durable operations on one key with different digests cannot both be honoured: once both
  are acknowledged, every opened image is reported as having lost one of them, also the image of a
  target that lost nothing.\<close>

theorem overwritten_key_always_reported:
  assumes "oi_recovery input = Opened ok vals detail"
    and "{a, b} \<subseteq> set (promisedBefore (oi_ackLog input) (oi_crashStamp input))"
    and "ao_key a = ao_key b" "ao_digest a \<noteq> ao_digest b"
  shows "\<exists>v\<in>set (checkOracle input). vi_violationClass v = LOST_ACKED \<and> vi_key v = ao_key a"
proof -
  have ne: "promisedBefore (oi_ackLog input) (oi_crashStamp input) \<noteq> []"
    using assms(2) by auto
  have "\<not> honoured (oi_recovery input) a \<or> \<not> honoured (oi_recovery input) b"
    using assms(1,3,4) by (auto simp: honoured_def)
  then obtain operation where "operation \<in> {a, b}" "\<not> honoured (oi_recovery input) operation"
    by auto
  then have "lost_acked (oi_crashStamp input) operation (map_get vals (ao_key operation))
      \<in> set (checkOracle input)" "ao_key operation = ao_key a"
    using assms(2,3) by (auto simp: checkOracle_opened [OF ne assms(1)])
  then show ?thesis
    by (intro bexI) (simp_all add: lost_acked_def)
qed

lemma overwritten_key_always_reported_witness:
  "\<exists>v\<in>set (checkOracle (oracle_input_of 9
       [promised_operation 1 ''k'' ''d1'' 3, promised_operation 2 ''k'' ''d2'' 6] [(''k'', ''d2'')])).
     vi_violationClass v = LOST_ACKED \<and> vi_key v = ''k''"
proof -
  let ?a = "promised_operation 1 ''k'' ''d1'' 3" and ?b = "promised_operation 2 ''k'' ''d2'' 6"
  let ?input = "oracle_input_of 9 [?a, ?b] [(''k'', ''d2'')]"
  have "{?a, ?b} \<subseteq> set (promisedBefore (oi_ackLog ?input) (oi_crashStamp ?input))"
    by (simp add: oracle_sample_defs)
  then show ?thesis
    using overwritten_key_always_reported [of ?input True "[(''k'', ''d2'')]" None ?a ?b]
    by (simp add: oracle_input_of_def promised_operation_def)
qed

end
