(* ===== verification/Dedup.thy ===== *)
theory Dedup
  imports Oracle States SampleTraces
begin

text \<open>
  \<open>core/src/oracle/dedup.ts\<close>: the signature of a violation names its class and the earliest
  mutation issued while the operation was in flight that the state does not hold in full.
\<close>

definition dedup_MUTATING :: "call_name set" where
  "dedup_MUTATING =
     {CWrite, CPwrite, CWritev, CTruncate, CFtruncate, CMkdir, CUnlink, CLink, CRename}"

definition basename :: "string \<Rightarrow> string" where
  "basename path = (let cut = last_index_of (CHR ''/'') path in
     if cut < 0 then path else drop (nat (cut + 1)) path)"

definition describe :: "trace_event \<Rightarrow> string" where
  "describe event = call_string (ev_call event) @ ''@'' @ basename (ev_path event)"

text \<open>The loop over the events, with its two \<open>continue\<close>s and two early returns.\<close>

fun earliest_loop ::
    "nat list \<Rightarrow> nat list \<Rightarrow> trace_event list \<Rightarrow> acked_operation \<Rightarrow> nat list \<Rightarrow> string" where
  "earliest_loop persisted torn events operation [] = ''missing:none''"
| "earliest_loop persisted torn events operation (index # rest) =
     (let event = events ! index in
      if ev_call event \<notin> dedup_MUTATING \<or> ev_returnValue event < 0
        then earliest_loop persisted torn events operation rest
      else if ev_index event < ao_beganAt operation
          \<or> (case ao_acknowledgedAt operation of None \<Rightarrow> False | Some ackedAt \<Rightarrow> ackedAt < ev_index event)
        then earliest_loop persisted torn events operation rest
      else if index \<in> set torn then ''torn:'' @ describe event
      else if index \<notin> set persisted then ''missing:'' @ describe event
      else earliest_loop persisted torn events operation rest)"

definition earliestMissing :: "crash_state \<Rightarrow> trace \<Rightarrow> acked_operation \<Rightarrow> string" where
  "earliestMissing state trace operation =
     earliest_loop (cs_persisted state) (map to_op (cs_partial state)) (tr_events trace) operation
       [0..<length (tr_events trace)]"

fun class_string :: "violation_class \<Rightarrow> string" where
  "class_string LOST_ACKED = ''LOST_ACKED''"
| "class_string CORRUPT_INVARIANT = ''CORRUPT_INVARIANT''"
| "class_string RECOVERY_FAILED = ''RECOVERY_FAILED''"
| "class_string PHANTOM_UNACKED = ''PHANTOM_UNACKED''"

definition signatureOf :: "violation \<Rightarrow> crash_state \<Rightarrow> trace \<Rightarrow> acked_operation \<Rightarrow> string" where
  "signatureOf violation state trace operation =
     join ''|'' [class_string (vi_violationClass violation), earliestMissing state trace operation]"

section \<open>The earliest missing operation\<close>

definition in_flight :: "acked_operation \<Rightarrow> trace_event \<Rightarrow> bool" where
  "in_flight operation event \<longleftrightarrow>
     ev_call event \<in> MUTATING \<and> 0 \<le> ev_returnValue event \<and> ao_beganAt operation \<le> ev_index event
     \<and> (case ao_acknowledgedAt operation of None \<Rightarrow> True | Some ackedAt \<Rightarrow> ev_index event \<le> ackedAt)"

definition not_whole :: "crash_state \<Rightarrow> nat \<Rightarrow> bool" where
  "not_whole state i \<longleftrightarrow> i \<in> to_op ` set (cs_partial state) \<or> i \<notin> set (cs_persisted state)"

definition blame :: "crash_state \<Rightarrow> trace_event list \<Rightarrow> nat \<Rightarrow> string" where
  "blame state events i =
     (if i \<in> to_op ` set (cs_partial state) then ''torn:'' else ''missing:'') @ describe (events ! i)"

lemma dedup_MUTATING_eq: "dedup_MUTATING = MUTATING"
  by (simp add: dedup_MUTATING_def MUTATING_def)

lemma earliest_loop_find:
  "earliest_loop (cs_persisted state) (map to_op (cs_partial state)) events operation is =
     (case List.find (\<lambda>i. in_flight operation (events ! i) \<and> not_whole state i) is of
        None \<Rightarrow> ''missing:none''
      | Some i \<Rightarrow> blame state events i)"
  by (induction "is")
    (auto simp: Let_def in_flight_def not_whole_def blame_def dedup_MUTATING_eq split: option.splits)

lemma earliestMissing_eq:
  "earliestMissing state trace operation =
     (case List.find (\<lambda>i. in_flight operation (tr_events trace ! i) \<and> not_whole state i)
             [0..<length (tr_events trace)] of
        None \<Rightarrow> ''missing:none''
      | Some i \<Rightarrow> blame state (tr_events trace) i)"
  unfolding earliestMissing_def by (rule earliest_loop_find)

lemma find_upt_Some:
  "List.find P [0..<n] = Some i \<longleftrightarrow> i < n \<and> P i \<and> (\<forall>j<i. \<not> P j)"
proof
  assume "List.find P [0..<n] = Some i"
  then show "i < n \<and> P i \<and> (\<forall>j<i. \<not> P j)"
    by (auto simp: find_Some_iff)
next
  assume "i < n \<and> P i \<and> (\<forall>j<i. \<not> P j)"
  then show "List.find P [0..<n] = Some i"
    by (auto simp: find_Some_iff)
qed

lemma basename_no_slash: "CHR ''/'' \<notin> set w \<Longrightarrow> basename (d @ CHR ''/'' # w) = w"
  by (simp add: basename_def last_index_of_append nat_add_distrib)

lemma basename_plain: "CHR ''/'' \<notin> set w \<Longrightarrow> basename w = w"
  by (simp add: basename_def last_index_of_absent)

section \<open>Properties\<close>

lemma describe_at: "CHR ''@'' \<in> set (describe event)"
  by (simp add: describe_def)

lemma blame_not_none: "blame state events i \<noteq> ''missing:none''"
proof
  assume "blame state events i = ''missing:none''"
  moreover have "CHR ''@'' \<in> set (blame state events i)"
    using describe_at by (simp add: blame_def)
  ultimately show False by simp
qed

text \<open>C37: the signature blames the earliest mutation issued while the operation was in flight that the
  state lacks in part or in full, as torn if it is torn; it reads \<open>missing:none\<close> exactly when the
  state holds all of them in full.\<close>

theorem earliest_missing_exact:
  "(earliestMissing state trace operation = ''missing:none'' \<longleftrightarrow>
      (\<forall>i<length (tr_events trace).
         in_flight operation (tr_events trace ! i) \<longrightarrow> \<not> not_whole state i))
   \<and> (\<forall>i<length (tr_events trace).
        in_flight operation (tr_events trace ! i) \<and> not_whole state i
        \<and> (\<forall>j<i. in_flight operation (tr_events trace ! j) \<longrightarrow> \<not> not_whole state j) \<longrightarrow>
        earliestMissing state trace operation = blame state (tr_events trace) i)"
proof (intro conjI allI impI)
  show "earliestMissing state trace operation = ''missing:none'' \<longleftrightarrow>
      (\<forall>i<length (tr_events trace). in_flight operation (tr_events trace ! i) \<longrightarrow> \<not> not_whole state i)"
    using blame_not_none [of state "tr_events trace"]
    by (auto simp: earliestMissing_eq find_None_iff find_upt_Some split: option.splits)
next
  fix i assume "i < length (tr_events trace)" "in_flight operation (tr_events trace ! i) \<and> not_whole state i
        \<and> (\<forall>j<i. in_flight operation (tr_events trace ! j) \<longrightarrow> \<not> not_whole state j)"
  then have "List.find (\<lambda>i. in_flight operation (tr_events trace ! i) \<and> not_whole state i)
      [0..<length (tr_events trace)] = Some i"
    by (simp add: find_upt_Some)
  then show "earliestMissing state trace operation = blame state (tr_events trace) i"
    by (simp add: earliestMissing_eq)
qed

definition log_operation :: acked_operation where
  "log_operation = \<lparr>ao_op = 1, ao_kind = ''put'', ao_key = ''k'', ao_digest = ''d'', ao_beganAt = 2,
     ao_acknowledgedAt = Some 8, ao_durable = True\<rparr>"

lemma earliest_missing_exact_witness:
  "earliestMissing \<lparr>cs_crashPoint = 4, cs_persisted = [1], cs_partial = []\<rparr> log_trace log_operation
   = ''missing:pwrite@log''"
proof -
  let ?s = "\<lparr>cs_crashPoint = 4, cs_persisted = [1], cs_partial = []\<rparr>"
  have "in_flight log_operation (log_events ! 3) \<and> not_whole ?s 3
      \<and> (\<forall>j<3. in_flight log_operation (log_events ! j) \<longrightarrow> \<not> not_whole ?s j)"
    by (auto simp: in_flight_def not_whole_def log_operation_def log_events_def op_event_def MUTATING_def
        less_Suc_eq numeral_3_eq_3 nth_Cons split: nat.splits)
  then have "earliestMissing ?s log_trace log_operation = blame ?s log_events 3"
    using earliest_missing_exact [of ?s log_trace log_operation] by simp
  moreover have "blame ?s log_events 3 = ''missing:pwrite@log''"
    by code_simp
  ultimately show ?thesis by simp
qed

text \<open>C38: the signature of a violation does not depend on directories, offsets, lengths, descriptors or
  threads: two traces whose calls agree in call, outcome, stamp and base name give the same signature,
  so one bug at two file offsets is one finding.\<close>

theorem signature_invariant:
  assumes "length (tr_events trace) = length (tr_events trace')"
    and "\<forall>i<length (tr_events trace).
       ev_call (tr_events trace ! i) = ev_call (tr_events trace' ! i)
       \<and> ev_index (tr_events trace ! i) = ev_index (tr_events trace' ! i)
       \<and> (ev_returnValue (tr_events trace ! i) < 0 \<longleftrightarrow> ev_returnValue (tr_events trace' ! i) < 0)
       \<and> basename (ev_path (tr_events trace ! i)) = basename (ev_path (tr_events trace' ! i))"
    and "vi_violationClass v = vi_violationClass v'"
    and "ao_beganAt operation = ao_beganAt operation'"
      "ao_acknowledgedAt operation = ao_acknowledgedAt operation'"
  shows "signatureOf v state trace operation = signatureOf v' state trace' operation'"
proof -
  have "earliest_loop ps ts (tr_events trace) operation is
      = earliest_loop ps ts (tr_events trace') operation' is"
    if "\<forall>i\<in>set is. i < length (tr_events trace)" for ps ts "is"
    using that assms(2,4,5)
    by (induction "is") (simp_all add: Let_def describe_def split: option.splits)
  then show ?thesis
    using assms(1,3) by (simp add: signatureOf_def earliestMissing_def)
qed

lemma signature_invariant_witness:
  "\<forall>v state. signatureOf v state (trace_of [op_event CPwrite ''/d/log'' 3 0 1024 1024] []) log_operation
   = signatureOf v state (trace_of [op_event CPwrite ''/mnt/x/log'' 3 4096 512 512] []) log_operation"
  by (intro allI signature_invariant) (simp_all add: trace_of_def op_event_def basename_def last_index_of_def)

end
