(* ===== verification/Effects.thy ===== *)
theory Effects
  imports Prelude
begin

text \<open>
  Statements that read and change a state and may throw: a function from the state to a result and
  the next state. The state after an error is kept, because a \<open>finally\<close> block runs on it.
\<close>

type_synonym ('s, 'a) io = "'s \<Rightarrow> 'a result \<times> 's"

definition io_return :: "'a \<Rightarrow> ('s, 'a) io" where
  "io_return x s = (Inr x, s)"

definition io_throw :: "js_error \<Rightarrow> ('s, 'a) io" where
  "io_throw e s = (Inl e, s)"

definition io_bind :: "('s, 'a) io \<Rightarrow> ('a \<Rightarrow> ('s, 'b) io) \<Rightarrow> ('s, 'b) io" where
  "io_bind m f s = (case m s of (Inl e, s') \<Rightarrow> (Inl e, s') | (Inr x, s') \<Rightarrow> f x s')"

definition io_seq :: "('s, 'a) io \<Rightarrow> ('s, 'b) io \<Rightarrow> ('s, 'b) io" where
  "io_seq m n = io_bind m (\<lambda>_. n)"

text \<open>\<open>try { m } catch { n }\<close>\<close>

definition io_catch :: "('s, 'a) io \<Rightarrow> ('s, 'a) io \<Rightarrow> ('s, 'a) io" where
  "io_catch m n s = (case m s of (Inl e, s') \<Rightarrow> n s' | (Inr x, s') \<Rightarrow> (Inr x, s'))"

text \<open>\<open>try { m } finally { n }\<close>: an error of the \<open>finally\<close> block replaces the outcome of \<open>m\<close>.\<close>

definition io_finally :: "('s, 'a) io \<Rightarrow> ('s, 'b) io \<Rightarrow> ('s, 'a) io" where
  "io_finally m n s =
     (case m s of (r, s') \<Rightarrow> (case n s' of (Inl e, s'') \<Rightarrow> (Inl e, s'') | (Inr _, s'') \<Rightarrow> (r, s'')))"

text \<open>\<open>for (const x of xs) body(x)\<close>\<close>

fun io_each :: "('a \<Rightarrow> ('s, unit) io) \<Rightarrow> 'a list \<Rightarrow> ('s, unit) io" where
  "io_each body [] = io_return ()"
| "io_each body (x # xs) = io_seq (body x) (io_each body xs)"

lemmas io_defs = io_return_def io_throw_def io_bind_def io_seq_def io_catch_def io_finally_def

lemma io_bind_return [simp]: "io_bind (io_return x) f = f x"
  by (rule ext) (simp add: io_defs)

lemma io_bind_Inr_iff:
  "io_bind m f s = (Inr y, t) \<longleftrightarrow> (\<exists>x u. m s = (Inr x, u) \<and> f x u = (Inr y, t))"
  by (auto simp: io_bind_def split: prod.splits sum.splits)

lemma io_seq_Inr_iff:
  "io_seq m n s = (Inr y, t) \<longleftrightarrow> (\<exists>x u. m s = (Inr x, u) \<and> n u = (Inr y, t))"
  by (simp add: io_seq_def io_bind_Inr_iff)

lemma io_each_append: "io_each body (xs @ ys) = io_seq (io_each body xs) (io_each body ys)"
  by (induction xs) (auto simp: io_defs fun_eq_iff split: prod.splits sum.splits)

lemma io_each_cong: "(\<And>x. x \<in> set xs \<Longrightarrow> f x = g x) \<Longrightarrow> io_each f xs = io_each g xs"
  by (induction xs) auto

lemma io_each_filter:
  "io_each (\<lambda>x. if P x then body x else io_return ()) xs = io_each body (filter P xs)"
  by (induction xs) (auto simp: io_seq_def)

lemma io_each_map: "io_each body (map f xs) = io_each (\<lambda>x. body (f x)) xs"
  by (induction xs) auto

text \<open>An invariant kept by every statement of a loop is kept by the loop, errors included.\<close>

lemma io_each_invariant:
  assumes "\<And>x s. x \<in> set xs \<Longrightarrow> I s \<Longrightarrow> I (snd (body x s))" "I s"
  shows "I (snd (io_each body xs s))"
  using assms
proof (induction xs arbitrary: s)
  case (Cons x xs)
  have "I (snd (body x s))" using Cons.prems by simp
  then show ?case
    using Cons.IH Cons.prems(1)
    by (cases "body x s"; cases "fst (body x s)") (auto simp: io_defs)
qed (simp add: io_defs)

lemma io_bind_invariant:
  assumes "I s" "I (snd (m s))" "\<And>x t. m s = (Inr x, t) \<Longrightarrow> I t \<Longrightarrow> I (snd (f x t))"
  shows "I (snd (io_bind m f s))"
  using assms by (cases "m s"; cases "fst (m s)") (auto simp: io_defs)

text \<open>A loop with an accumulator.\<close>

fun io_fold :: "('a \<Rightarrow> 'b \<Rightarrow> ('s, 'b) io) \<Rightarrow> 'b \<Rightarrow> 'a list \<Rightarrow> ('s, 'b) io" where
  "io_fold body acc [] = io_return acc"
| "io_fold body acc (x # xs) = io_bind (body x acc) (\<lambda>acc'. io_fold body acc' xs)"

end
