(* ===== verification/Paths.thy ===== *)
theory Paths
  imports JsString
begin

text \<open>
  The part of \<open>node:path\<close> (POSIX) the program uses. A path is resolved to the list of its
  segments: empty and \<open>.\<close> segments disappear, \<open>..\<close> removes the segment before it and stops at the
  root. \<open>cwd\<close> is \<open>process.cwd()\<close>.
\<close>

type_synonym segs = "string list"

definition norm_step :: "segs \<Rightarrow> string \<Rightarrow> segs" where
  "norm_step acc s = (if s = [] \<or> s = ''.'' then acc else if s = ''..'' then butlast acc else acc @ [s])"

definition norm_from :: "segs \<Rightarrow> segs \<Rightarrow> segs" where
  "norm_from base ss = foldl norm_step base ss"

definition segments :: "string \<Rightarrow> segs" where
  "segments p = split_on (CHR ''/'') p"

definition resolve :: "string \<Rightarrow> string \<Rightarrow> segs" where
  "resolve cwd p =
     (if starts_char (CHR ''/'') p then norm_from [] (segments p)
      else norm_from (norm_from [] (segments cwd)) (segments p))"

fun common_prefix :: "segs \<Rightarrow> segs \<Rightarrow> nat" where
  "common_prefix (a # as) (b # bs) = (if a = b then Suc (common_prefix as bs) else 0)"
| "common_prefix _ _ = 0"

text \<open>\<open>relative(from, to)\<close> as segments: up to the common ancestor, then down.\<close>

definition relative :: "string \<Rightarrow> string \<Rightarrow> string \<Rightarrow> segs" where
  "relative cwd from to =
     (let a = resolve cwd from; b = resolve cwd to; k = common_prefix a b in
      replicate (length a - k) ''..'' @ drop k b)"

section \<open>Normalised paths\<close>

definition plain_segment :: "string \<Rightarrow> bool" where
  "plain_segment s \<longleftrightarrow> s \<noteq> [] \<and> s \<noteq> ''.'' \<and> s \<noteq> ''..'' \<and> CHR ''/'' \<notin> set s"

definition plain :: "segs \<Rightarrow> bool" where
  "plain ss \<longleftrightarrow> (\<forall>s\<in>set ss. plain_segment s)"

lemma norm_from_plain: "plain ss \<Longrightarrow> norm_from base ss = base @ ss"
  unfolding norm_from_def plain_def
  by (induction ss arbitrary: base) (auto simp: norm_step_def plain_segment_def)

lemma plain_norm_step:
  "plain acc \<Longrightarrow> CHR ''/'' \<notin> set s \<Longrightarrow> plain (norm_step acc s)"
  by (auto simp: norm_step_def plain_def plain_segment_def dest: in_set_butlastD)

lemma plain_norm_from:
  "plain base \<Longrightarrow> \<forall>s\<in>set ss. CHR ''/'' \<notin> set s \<Longrightarrow> plain (norm_from base ss)"
  unfolding norm_from_def by (induction ss arbitrary: base) (auto simp: plain_norm_step)

lemma plain_resolve: "plain (resolve cwd p)"
proof -
  have "plain []" by (simp add: plain_def)
  then show ?thesis
    unfolding resolve_def segments_def
    by (auto intro!: plain_norm_from dest: split_on_pieces)
qed

lemma common_prefix_append [simp]: "common_prefix xs (xs @ ys) = length xs"
  by (induction xs) auto

text \<open>The text of an absolute normalised path resolves to its segments.\<close>

definition path_string :: "segs \<Rightarrow> string" where
  "path_string ss = CHR ''/'' # join ''/'' ss"

lemma segments_path_string: "plain ss \<Longrightarrow> ss \<noteq> [] \<Longrightarrow> segments (path_string ss) = [] # ss"
  by (simp add: segments_def path_string_def split_on_join plain_def plain_segment_def)

lemma resolve_path_string: "plain ss \<Longrightarrow> resolve cwd (path_string ss) = ss"
proof (cases "ss = []")
  case True
  then show ?thesis
    by (simp add: resolve_def starts_char_def path_string_def segments_def norm_from_def norm_step_def)
next
  case False
  assume "plain ss"
  then have "norm_from [] ([] # ss) = ss"
    using norm_from_plain [of ss "[]"] by (simp add: norm_from_def norm_step_def)
  then show ?thesis
    using False \<open>plain ss\<close>
    by (simp add: resolve_def segments_path_string) (simp add: starts_char_def path_string_def)
qed

section \<open>Joined texts\<close>

text \<open>\<open>join(dir, name)\<close> as a text: a relative directory keeps its leading \<open>..\<close> segments.\<close>

definition rel_step :: "segs \<Rightarrow> string \<Rightarrow> segs" where
  "rel_step acc s =
     (if s = [] \<or> s = ''.'' then acc
      else if s = ''..'' then (if acc = [] \<or> List.last acc = ''..'' then acc @ [''..''] else butlast acc)
      else acc @ [s])"

definition path_join :: "string \<Rightarrow> string \<Rightarrow> string" where
  "path_join dir name =
     (let p = (if dir = [] then name else dir @ ''/'' @ name) in
      if starts_char (CHR ''/'') p then path_string (norm_from [] (segments p))
      else (let ss = foldl rel_step [] (segments p) in if ss = [] then ''.'' else join ''/'' ss))"

lemma split_on_last: "c \<notin> set w \<Longrightarrow> split_on c (s @ c # w) = split_on c s @ [w]"
  by (induction s) (auto simp: split_on_no_sep split: list.splits)

lemma join_snoc: "join sep (ss @ [w]) = (if ss = [] then w else join sep ss @ sep @ w)"
  by (induction ss) (simp_all add: join_Cons_nonempty)

text \<open>The joined text ends with the name, after a slash unless nothing precedes it.\<close>

lemma path_join_ends:
  assumes "plain_segment name"
  shows "path_join dir name = name \<or> (\<exists>p. path_join dir name = p @ CHR ''/'' # name)"
proof -
  let ?p = "if dir = [] then name else dir @ ''/'' @ name"
  have "\<exists>ss. segments ?p = ss @ [name]"
    using assms split_on_last [of "CHR ''/''" name dir]
    by (auto simp: segments_def plain_segment_def split_on_no_sep intro: exI [of _ "[]"])
  then obtain ss where ss: "segments ?p = ss @ [name]" by blast
  have step: "norm_step acc name = acc @ [name]" "rel_step acc name = acc @ [name]" for acc
    using assms by (simp_all add: plain_segment_def norm_step_def rel_step_def)
  have abs: "norm_from [] (segments ?p) = norm_from [] ss @ [name]"
    by (simp add: ss norm_from_def step del: if_split)
  have rel: "foldl rel_step [] (segments ?p) = foldl rel_step [] ss @ [name]"
    by (simp add: ss step)
  show ?thesis
    unfolding path_join_def Let_def abs rel path_string_def
    by (simp add: join_snoc)
qed

lemma path_join_inj:
  assumes "plain_segment a" "plain_segment b" "path_join dir a = path_join dir b"
  shows "a = b"
proof -
  have "rev (takeWhile (\<lambda>c. c \<noteq> CHR ''/'') (rev (path_join dir n))) = n" if "plain_segment n" for n
  proof -
    have no: "\<forall>c\<in>set (rev n). c \<noteq> CHR ''/''" using that by (auto simp: plain_segment_def)
    have "takeWhile (\<lambda>c. c \<noteq> CHR ''/'') (rev n) = rev n"
      using no by (simp only: takeWhile_eq_all_conv)
    then have "rev (takeWhile (\<lambda>c. c \<noteq> CHR ''/'') (rev n)) = n"
      by (simp only: rev_rev_ident)
    moreover have "takeWhile (\<lambda>c. c \<noteq> CHR ''/'') (rev n @ CHR ''/'' # x) = rev n" for x
      using no by (simp add: takeWhile_tail)
    ultimately show ?thesis
      using path_join_ends [OF that, of dir] by (elim disjE exE) simp_all
  qed
  then show ?thesis using assms by metis
qed

end
