(* ===== verification/FileSystem.thy ===== *)
theory FileSystem
  imports Effects JsCollections Paths "HOL-Library.Word"
begin

text \<open>
  The part of \<open>node:fs\<close> the program uses, on an explicit file tree: directory entries map resolved
  paths to directories or inodes, inodes hold bytes, and two entries may share an inode (hard
  links). Each call is one statement with the error codes of the system call behind it.
\<close>

type_synonym byte = "8 word"

datatype node = Dir | File nat

record fs =
  fs_nodes :: "(segs, node) js_map"
  fs_inodes :: "(nat, byte list) js_map"
  fs_next :: nat

definition fs_lookup :: "fs \<Rightarrow> segs \<Rightarrow> node option" where
  "fs_lookup s p = (if p = [] then Some Dir else map_get (fs_nodes s) p)"

text \<open>The first proper ancestor that is not a directory decides the error of a path walk.\<close>

definition ancestors :: "segs \<Rightarrow> segs list" where
  "ancestors p = map (\<lambda>n. take n p) [0..<length p]"

definition walk_error :: "fs \<Rightarrow> segs \<Rightarrow> errno option" where
  "walk_error s p =
     (case List.find (\<lambda>q. fs_lookup s q \<noteq> Some Dir) (ancestors p) of
        None \<Rightarrow> None
      | Some q \<Rightarrow> Some (if fs_lookup s q = None then ENOENT else ENOTDIR))"

definition sys_error :: "errno \<Rightarrow> (fs, 'a) io" where
  "sys_error e = io_throw (SystemError e)"

text \<open>Runs the continuation on the node at a path, or on \<open>None\<close> when only the last step is missing.\<close>

definition with_node :: "segs \<Rightarrow> (node option \<Rightarrow> (fs, 'a) io) \<Rightarrow> (fs, 'a) io" where
  "with_node p f s =
     (case walk_error s p of Some e \<Rightarrow> sys_error e s | None \<Rightarrow> f (fs_lookup s p) s)"

definition content_of :: "fs \<Rightarrow> segs \<Rightarrow> byte list option" where
  "content_of s p = (case fs_lookup s p of Some (File i) \<Rightarrow> map_get (fs_inodes s) i | _ \<Rightarrow> None)"

section \<open>Calls\<close>

text \<open>\<open>mkdirSync(p, { recursive: true })\<close>: the missing directories from the root down.\<close>

definition mkdir_one :: "segs \<Rightarrow> (fs, unit) io" where
  "mkdir_one p s =
     (case fs_lookup s p of
        None \<Rightarrow> (Inr (), s\<lparr>fs_nodes := map_set p Dir (fs_nodes s)\<rparr>)
      | Some Dir \<Rightarrow> (Inr (), s)
      | Some (File _) \<Rightarrow> sys_error ENOTDIR s)"

definition mkdirp :: "segs \<Rightarrow> (fs, unit) io" where
  "mkdirp p =
     io_seq (io_each mkdir_one (ancestors p))
       (\<lambda>s. case fs_lookup s p of Some (File _) \<Rightarrow> sys_error EEXIST s | _ \<Rightarrow> mkdir_one p s)"

text \<open>A new empty file in an existing directory.\<close>

definition create_file :: "segs \<Rightarrow> (fs, nat) io" where
  "create_file p s =
     (Inr (fs_next s),
      s\<lparr>fs_nodes := map_set p (File (fs_next s)) (fs_nodes s),
        fs_inodes := map_set (fs_next s) [] (fs_inodes s),
        fs_next := Suc (fs_next s)\<rparr>)"

definition set_content :: "nat \<Rightarrow> byte list \<Rightarrow> (fs, unit) io" where
  "set_content i bs s = (Inr (), s\<lparr>fs_inodes := map_set i bs (fs_inodes s)\<rparr>)"

definition inode_content :: "fs \<Rightarrow> nat \<Rightarrow> byte list" where
  "inode_content s i = (case map_get (fs_inodes s) i of Some bs \<Rightarrow> bs | None \<Rightarrow> [])"

text \<open>\<open>openSync(p, flags)\<close> for the flags \<open>'a'\<close>, \<open>'r+'\<close> and \<open>'w+'\<close>; the descriptor is the inode.\<close>

definition open_append :: "segs \<Rightarrow> (fs, nat) io" where
  "open_append p = with_node p (\<lambda>n. case n of
       Some (File i) \<Rightarrow> io_return i | Some Dir \<Rightarrow> sys_error EISDIR | None \<Rightarrow> create_file p)"

definition open_rplus :: "segs \<Rightarrow> (fs, nat) io" where
  "open_rplus p = with_node p (\<lambda>n. case n of
       Some (File i) \<Rightarrow> io_return i | Some Dir \<Rightarrow> sys_error EISDIR | None \<Rightarrow> sys_error ENOENT)"

definition open_wplus :: "segs \<Rightarrow> (fs, nat) io" where
  "open_wplus p = with_node p (\<lambda>n. case n of
       Some (File i) \<Rightarrow> io_seq (set_content i []) (io_return i)
     | Some Dir \<Rightarrow> sys_error EISDIR | None \<Rightarrow> create_file p)"

text \<open>
  \<open>writeSync(fd, payload, 0, payload.length, offset)\<close>: a gap before the offset reads as zeros. What the
  runtime makes of a negative offset is outside the model, which marks it \<open>IllTyped\<close>.
\<close>

definition patch :: "nat \<Rightarrow> byte list \<Rightarrow> byte list \<Rightarrow> byte list" where
  "patch off bs old =
     (if bs = [] then old
      else take off (old @ replicate (off - length old) 0) @ bs @ drop (off + length bs) old)"

definition write_at :: "nat \<Rightarrow> byte list \<Rightarrow> int \<Rightarrow> (fs, unit) io" where
  "write_at i bs off s =
     (if off < 0 then (Inl IllTyped, s)
      else set_content i (patch (nat off) bs (inode_content s i)) s)"

text \<open>\<open>truncateSync(p, len)\<close>: cut or extend with zeros; a negative length counts as 0.\<close>

definition resize :: "nat \<Rightarrow> byte list \<Rightarrow> byte list" where
  "resize n bs = take n bs @ replicate (n - length bs) 0"

definition truncate_file :: "segs \<Rightarrow> int \<Rightarrow> (fs, unit) io" where
  "truncate_file p len =
     io_bind (open_rplus p) (\<lambda>i s. set_content i (resize (nat len) (inode_content s i)) s)"

definition read_file :: "segs \<Rightarrow> (fs, byte list) io" where
  "read_file p = with_node p (\<lambda>n s. case n of
       Some (File i) \<Rightarrow> (Inr (inode_content s i), s)
     | Some Dir \<Rightarrow> sys_error EISDIR s | None \<Rightarrow> sys_error ENOENT s)"

definition remove_entry :: "segs \<Rightarrow> (fs, unit) io" where
  "remove_entry p s = (Inr (), s\<lparr>fs_nodes := filter (\<lambda>(q, _). q \<noteq> p) (fs_nodes s)\<rparr>)"

definition set_entry :: "segs \<Rightarrow> node \<Rightarrow> (fs, unit) io" where
  "set_entry p n s = (Inr (), s\<lparr>fs_nodes := map_set p n (fs_nodes s)\<rparr>)"

text \<open>
  \<open>renameSync\<close> of a regular file (the replayer never renames anything else): replaces a file at the
  destination, refuses a directory there, and does nothing when both names are one file.
\<close>

definition rename_file :: "segs \<Rightarrow> segs \<Rightarrow> (fs, unit) io" where
  "rename_file p q = with_node p (\<lambda>np. case np of
       Some (File i) \<Rightarrow> with_node q (\<lambda>nq. case nq of
           Some Dir \<Rightarrow> sys_error EISDIR
         | Some (File j) \<Rightarrow> if i = j then io_return ()
             else io_seq (set_entry q (File i)) (remove_entry p)
         | None \<Rightarrow> io_seq (set_entry q (File i)) (remove_entry p))
     | Some Dir \<Rightarrow> sys_error EINVAL | None \<Rightarrow> sys_error ENOENT)"

definition link_file :: "segs \<Rightarrow> segs \<Rightarrow> (fs, unit) io" where
  "link_file p q = with_node p (\<lambda>np. case np of
       Some (File i) \<Rightarrow> with_node q (\<lambda>nq. case nq of
           Some _ \<Rightarrow> sys_error EEXIST | None \<Rightarrow> set_entry q (File i))
     | Some Dir \<Rightarrow> sys_error EINVAL | None \<Rightarrow> sys_error ENOENT)"

text \<open>\<open>rmSync(p, { force: true })\<close>: a missing path is ignored, a directory is an error.\<close>

definition rm_force :: "segs \<Rightarrow> (fs, unit) io" where
  "rm_force p s =
     (case walk_error s p of
        Some ENOENT \<Rightarrow> (Inr (), s)
      | Some e \<Rightarrow> sys_error e s
      | None \<Rightarrow> (case fs_lookup s p of
            None \<Rightarrow> (Inr (), s)
          | Some Dir \<Rightarrow> sys_error EISDIR s
          | Some (File _) \<Rightarrow> remove_entry p s))"

lemmas fs_call_defs = mkdir_one_def mkdirp_def create_file_def set_content_def open_append_def
  open_rplus_def open_wplus_def write_at_def truncate_file_def read_file_def remove_entry_def
  set_entry_def rename_file_def link_file_def rm_force_def with_node_def sys_error_def

end
