(* ===== verification/Replay.thy ===== *)
theory Replay
  imports FileSystem SampleTraces States
begin

text \<open>
  \<open>core/src/trace/replay.ts\<close>: applies recorded operations to a directory, either all that succeeded
  (\<open>replayTrace\<close>) or the selection of a crash state (\<open>replaySelection\<close>). Payloads come from the
  content-addressed store. \<open>cwd\<close> is the working directory relative paths resolve against.
\<close>

record replay_options =
  ro_casDir :: string
  ro_rootDir :: string
  ro_targetDir :: string

record selection =
  se_persisted :: "nat list"
  se_partial :: "torn_op list"

definition close_fd :: "nat \<Rightarrow> (fs, unit) io" where
  "close_fd fd = io_return ()"

definition ensureFile :: "segs \<Rightarrow> (fs, segs) io" where
  "ensureFile path =
     io_seq (mkdirp (butlast path))
       (io_seq (io_bind (open_append path) close_fd) (io_return path))"

definition rebase :: "string \<Rightarrow> string \<Rightarrow> replay_options \<Rightarrow> segs" where
  "rebase cwd path options =
     norm_from (resolve cwd (ro_targetDir options)) (relative cwd (ro_rootDir options) path)"

definition cas_path :: "string \<Rightarrow> replay_options \<Rightarrow> string \<Rightarrow> segs" where
  "cas_path cwd options digest = norm_from (resolve cwd (ro_casDir options)) (segments digest)"

definition applyWrite ::
    "string \<Rightarrow> trace_event \<Rightarrow> replay_options \<Rightarrow> nat option \<Rightarrow> (fs, unit) io" where
  "applyWrite cwd event options bytes =
     io_bind (read_file (cas_path cwd options (ev_digest event))) (\<lambda>whole.
       let payload = (case bytes of None \<Rightarrow> whole | Some b \<Rightarrow> take (min b (length whole)) whole);
           path = rebase cwd (ev_path event) options
       in io_seq (mkdirp (butlast path))
            (io_bind (io_catch (open_rplus path) (open_wplus path)) (\<lambda>fd.
               io_finally (write_at fd payload (ev_offset event)) (close_fd fd))))"

definition applySelected ::
    "string \<Rightarrow> trace_event \<Rightarrow> replay_options \<Rightarrow> nat option \<Rightarrow> (fs, unit) io" where
  "applySelected cwd event options bytes =
     (let path = rebase cwd (ev_path event) options; path2 = rebase cwd (ev_path2 event) options in
      case ev_call event of
        CWrite \<Rightarrow> applyWrite cwd event options bytes
      | CPwrite \<Rightarrow> applyWrite cwd event options bytes
      | CWritev \<Rightarrow> applyWrite cwd event options bytes
      | CTruncate \<Rightarrow> io_bind (ensureFile path) (\<lambda>p. truncate_file p (ev_length event))
      | CFtruncate \<Rightarrow> io_bind (ensureFile path) (\<lambda>p. truncate_file p (ev_length event))
      | CMkdir \<Rightarrow> mkdirp path
      | CRename \<Rightarrow> io_bind (ensureFile path) (\<lambda>p. rename_file p path2)
      | CLink \<Rightarrow> io_bind (ensureFile path) (\<lambda>p. link_file p path2)
      | CUnlink \<Rightarrow> rm_force path
      | _ \<Rightarrow> io_return ())"

definition torn_bytes :: "selection \<Rightarrow> (nat, nat) js_map" where
  "torn_bytes selection =
     foldl (\<lambda>m entry. map_set (to_op entry) (to_bytes entry) m) map_empty (se_partial selection)"

definition replaySelection ::
    "string \<Rightarrow> trace \<Rightarrow> replay_options \<Rightarrow> selection \<Rightarrow> (fs, unit) io" where
  "replaySelection cwd trace options selection =
     io_seq (mkdirp (resolve cwd (ro_targetDir options)))
       (let tornBytes = torn_bytes selection; whole = set_of_list (se_persisted selection) in
        io_each (\<lambda>index.
            if index \<notin> set whole \<and> \<not> map_has tornBytes index then io_return ()
            else applySelected cwd (tr_events trace ! index) options (map_get tornBytes index))
          [0..<length (tr_events trace)])"

definition replayTrace :: "string \<Rightarrow> trace \<Rightarrow> replay_options \<Rightarrow> (fs, unit) io" where
  "replayTrace cwd trace options =
     io_seq (mkdirp (resolve cwd (ro_targetDir options)))
       (io_each (\<lambda>event. if ev_returnValue event < 0 then io_return ()
                         else applySelected cwd event options None)
          (tr_events trace))"

section \<open>Selection and full replay\<close>

lemma applySelected_other:
  "ev_call event \<notin> MUTATING \<Longrightarrow> applySelected cwd event options bytes = io_return ()"
  by (cases "ev_call event") (simp_all add: applySelected_def MUTATING_def Let_def)

text \<open>Both loops as a walk over the events that do something.\<close>

lemma io_each_skip:
  assumes "\<And>x. x \<in> set xs \<Longrightarrow> \<not> P x \<Longrightarrow> f x = io_return ()" "\<And>x. x \<in> set xs \<Longrightarrow> P x \<Longrightarrow> f x = g x"
  shows "io_each f xs = io_each g (filter P xs)"
proof -
  have "io_each f xs = io_each (\<lambda>x. if P x then g x else io_return ()) xs"
    using assms by (intro io_each_cong) auto
  then show ?thesis by (simp add: io_each_filter)
qed

lemma io_each_nth: "io_each body xs = io_each (\<lambda>i. body (xs ! i)) [0..<length xs]"
  using io_each_map [of body "\<lambda>i. xs ! i" "[0..<length xs]"] by (simp add: map_nth)

text \<open>C33: replaying the crash state in which every mutation that returned is present, and nothing is torn,
  does exactly what replaying the whole trace does: the same errors and the same files, from every
  initial file system. Operations outside the mutating calls may be selected or not.\<close>

theorem replay_full_selection:
  assumes "se_partial selection = []"
    and "\<forall>i<length (tr_events trace). ev_call (tr_events trace ! i) \<in> MUTATING \<longrightarrow>
       (i \<in> set (se_persisted selection) \<longleftrightarrow> 0 \<le> ev_returnValue (tr_events trace ! i))"
  shows "replaySelection cwd trace options selection = replayTrace cwd trace options"
proof -
  let ?e = "\<lambda>i. tr_events trace ! i" and ?n = "length (tr_events trace)"
  let ?P = "\<lambda>i. ev_call (?e i) \<in> MUTATING \<and> 0 \<le> ev_returnValue (?e i)"
  have torn: "torn_bytes selection = map_empty"
    using assms(1) by (simp add: torn_bytes_def)
  have "io_each (\<lambda>i. if i \<notin> set (set_of_list (se_persisted selection)) \<and> \<not> map_has (torn_bytes selection) i
        then io_return () else applySelected cwd (?e i) options (map_get (torn_bytes selection) i)) [0..<?n]
      = io_each (\<lambda>i. applySelected cwd (?e i) options None) (filter ?P [0..<?n])"
    using assms(2) applySelected_other
    by (intro io_each_skip) (auto simp: torn map_has_def)
  also have "\<dots> = io_each (\<lambda>i. if ev_returnValue (?e i) < 0 then io_return ()
        else applySelected cwd (?e i) options None) [0..<?n]"
    using applySelected_other by (intro io_each_skip [symmetric]) auto
  also have "\<dots> = io_each (\<lambda>event. if ev_returnValue event < 0 then io_return ()
        else applySelected cwd event options None) (tr_events trace)"
    by (subst io_each_nth [of _ "tr_events trace"]) simp
  finally show ?thesis
    unfolding replaySelection_def replayTrace_def Let_def by simp
qed

lemma replay_full_selection_witness:
  "\<forall>cwd options. replaySelection cwd log_trace options \<lparr>se_persisted = [1, 3, 4], se_partial = []\<rparr>
     = replayTrace cwd log_trace options"
proof ((rule allI)+, rule replay_full_selection)
  have "\<forall>i\<in>{0..<5}. ev_call (log_events ! i) \<in> MUTATING \<longrightarrow>
      (i \<in> {1, 3, 4} \<longleftrightarrow> 0 \<le> ev_returnValue (log_events ! i))"
    by (simp add: log_events_def op_event_def MUTATING_def atLeastLessThan_nat_numeral)
  then show "\<forall>i<length (tr_events log_trace). ev_call (tr_events log_trace ! i) \<in> MUTATING \<longrightarrow>
      (i \<in> set (se_persisted \<lparr>se_persisted = [1, 3, 4], se_partial = []\<rparr>)
        \<longleftrightarrow> 0 \<le> ev_returnValue (tr_events log_trace ! i))"
    by auto
qed simp

end
