(* ===== verification/FileTree.thy ===== *)
theory FileTree
  imports FileSystem
begin

text \<open>
  The abstract view of the file system of \<open>FileSystem\<close>: a function from paths to entries, without
  inode numbers. On a file system without hard links every call is an update of this function;
  the invariant \<open>fs_ok\<close> says what makes the view faithful.
\<close>

datatype entry = D | F "byte list"

definition tree :: "fs \<Rightarrow> segs \<Rightarrow> entry option" where
  "tree s p = (case fs_lookup s p of
      None \<Rightarrow> None | Some Dir \<Rightarrow> Some D | Some (File i) \<Rightarrow> Some (F (inode_content s i)))"

definition fs_ok :: "fs \<Rightarrow> bool" where
  "fs_ok s \<longleftrightarrow>
     (\<forall>p q i. fs_lookup s p = Some (File i) \<longrightarrow> fs_lookup s q = Some (File i) \<longrightarrow> p = q)
     \<and> (\<forall>p i. fs_lookup s p = Some (File i) \<longrightarrow> i < fs_next s)"

definition bytes_of :: "entry option \<Rightarrow> byte list" where
  "bytes_of e = (case e of Some (F bs) \<Rightarrow> bs | _ \<Rightarrow> [])"

lemma bytes_of_simps [simp]: "bytes_of None = []" "bytes_of (Some (F bs)) = bs"
  by (simp_all add: bytes_of_def)

text \<open>Every proper ancestor is a directory.\<close>

definition under_dirs :: "fs \<Rightarrow> segs \<Rightarrow> bool" where
  "under_dirs s p \<longleftrightarrow> (\<forall>q\<in>set (ancestors p). tree s q = Some D)"

lemma tree_Dir: "tree s p = Some D \<longleftrightarrow> fs_lookup s p = Some Dir"
  by (auto simp: tree_def split: option.splits node.splits)

lemma tree_None: "tree s p = None \<longleftrightarrow> fs_lookup s p = None"
  by (auto simp: tree_def split: option.splits node.splits)

lemma tree_File: "tree s p = Some (F bs) \<longleftrightarrow> (\<exists>i. fs_lookup s p = Some (File i) \<and> inode_content s i = bs)"
  by (auto simp: tree_def split: option.splits node.splits)

lemma tree_root [simp]: "tree s [] = Some D"
  by (simp add: tree_def fs_lookup_def)

lemma fs_okD: "fs_ok s \<Longrightarrow> fs_lookup s p = Some (File i) \<Longrightarrow> fs_lookup s q = Some (File i) \<Longrightarrow> p = q"
  unfolding fs_ok_def by blast

lemma fs_ok_fresh: "fs_ok s \<Longrightarrow> fs_lookup s p \<noteq> Some (File (fs_next s))"
  unfolding fs_ok_def by blast

lemma walk_ok: "under_dirs s p \<Longrightarrow> walk_error s p = None"
  by (auto simp: under_dirs_def walk_error_def tree_Dir find_None_iff split: option.splits dest: find_Some_in)

lemma ancestors_snoc: "ancestors (d @ [n]) = ancestors d @ [d]"
  by (simp add: ancestors_def)

lemma ancestor_prefix: "q \<in> set (ancestors p) \<longleftrightarrow> strict_prefix q p"
proof
  assume "q \<in> set (ancestors p)"
  then obtain n where "n < length p" "q = take n p" by (auto simp: ancestors_def)
  then show "strict_prefix q p"
    by (metis take_is_prefix length_take min.absorb2 less_imp_le nat_neq_iff strict_prefixI)
next
  assume "strict_prefix q p"
  then obtain r where "p = q @ r" "r \<noteq> []" by (auto elim: strict_prefixE')
  then have "q = take (length q) p" "length q < length p" by auto
  then show "q \<in> set (ancestors p)" unfolding ancestors_def by (metis (no_types) atLeast0LessThan image_eqI lessThan_iff set_map set_upt)
qed

section \<open>Effect of the calls\<close>

lemma fs_lookup_set:
  "p \<noteq> [] \<Longrightarrow> fs_lookup (s\<lparr>fs_nodes := map_set p n (fs_nodes s)\<rparr>) = (fs_lookup s)(p \<mapsto> n)"
  by (auto simp: fs_lookup_def fun_eq_iff)

lemma map_get_filter: "map_get (filter (\<lambda>(q, _). q \<noteq> p) m) = (map_get m)(p := None)"
proof
  fix k
  show "map_get (filter (\<lambda>(q, _). q \<noteq> p) m) k = ((map_get m)(p := None)) k"
    unfolding map_get_def by (induction m) auto
qed

lemma fs_lookup_remove:
  "p \<noteq> [] \<Longrightarrow> fs_lookup (s\<lparr>fs_nodes := filter (\<lambda>(q, _). q \<noteq> p) (fs_nodes s)\<rparr>)
     = (fs_lookup s)(p := None)"
  by (auto simp: fs_lookup_def fun_eq_iff map_get_filter)

lemma inode_content_set:
  "inode_content (s\<lparr>fs_inodes := map_set i bs m\<rparr>) j
   = (if j = i then bs else inode_content (s\<lparr>fs_inodes := m\<rparr>) j)"
  by (simp add: inode_content_def)

lemma lookup_inodes [simp]:
  "fs_lookup (s\<lparr>fs_inodes := m\<rparr>) = fs_lookup s" "fs_lookup (s\<lparr>fs_next := k\<rparr>) = fs_lookup s"
  by (simp_all add: fs_lookup_def fun_eq_iff)

lemma content_nodes [simp]:
  "inode_content (s\<lparr>fs_nodes := m\<rparr>) = inode_content s" "inode_content (s\<lparr>fs_next := k\<rparr>) = inode_content s"
  by (simp_all add: inode_content_def fun_eq_iff)

text \<open>Writing to the inode of a path.\<close>

lemma set_content_effect:
  assumes "fs_ok s" "fs_lookup s p = Some (File i)" "set_content i bs s = (r, t)"
  shows "r = Inr ()" "fs_ok t" "tree t = (tree s)(p \<mapsto> F bs)" "fs_lookup t = fs_lookup s"
proof -
  have t: "r = Inr ()" "t = s\<lparr>fs_inodes := map_set i bs (fs_inodes s)\<rparr>"
    using assms(3) by (simp_all add: set_content_def)
  then show "r = Inr ()" "fs_lookup t = fs_lookup s" by simp_all
  with t assms(1) show "fs_ok t" by (simp add: fs_ok_def)
  show "tree t = (tree s)(p \<mapsto> F bs)"
  proof
    fix q
    have inode: "inode_content t j = (if j = i then bs else inode_content s j)" for j
      by (simp add: t inode_content_def)
    have other: "fs_lookup s q \<noteq> Some (File i)" if "q \<noteq> p"
      using fs_okD [OF assms(1,2)] that by metis
    have look: "fs_lookup t r = fs_lookup s r" for r by (simp add: t)
    show "tree t q = ((tree s)(p \<mapsto> F bs)) q"
    proof (cases "q = p")
      case True
      then show ?thesis using assms(2) by (simp add: tree_def look inode)
    next
      case False
      with other have "fs_lookup s q \<noteq> Some (File i)" by simp
      with False show ?thesis
        by (cases "fs_lookup s q") (auto simp: tree_def look inode split: node.splits)
    qed
  qed
qed

lemma create_file_effect:
  assumes "fs_ok s" "p \<noteq> []" "tree s p = None" "create_file p s = (r, t)"
  shows "r = Inr (fs_next s)" "fs_ok t" "tree t = (tree s)(p \<mapsto> F [])"
    "fs_lookup t p = Some (File (fs_next s))"
proof -
  let ?s = "s\<lparr>fs_nodes := map_set p (File (fs_next s)) (fs_nodes s)\<rparr>"
  have t: "r = Inr (fs_next s)"
    "t = ?s\<lparr>fs_inodes := map_set (fs_next s) [] (fs_inodes s), fs_next := Suc (fs_next s)\<rparr>"
    using assms(4) by (simp_all add: create_file_def)
  have look: "fs_lookup t = (fs_lookup s)(p \<mapsto> File (fs_next s))"
    using fs_lookup_set [OF assms(2), where s = s and n = "File (fs_next s)"] by (simp add: t)
  have inode: "inode_content t j = (if j = fs_next s then [] else inode_content s j)" for j
    by (simp add: t inode_content_def)
  show "r = Inr (fs_next s)" by (rule t)
  show "fs_lookup t p = Some (File (fs_next s))" by (simp add: look)
  have "fs_next t = Suc (fs_next s)" by (simp add: t)
  then show "fs_ok t"
    using assms(1) by (fastforce simp: fs_ok_def look less_Suc_eq split: if_splits)
  show "tree t = (tree s)(p \<mapsto> F [])"
    using fs_ok_fresh [OF assms(1)]
    by (auto simp: fun_eq_iff tree_def look inode split: option.splits node.splits)
qed

text \<open>Opening a file that is there or whose directory is there.\<close>

lemma open_append_effect:
  assumes "fs_ok s" "p \<noteq> []" "under_dirs s p" "tree s p \<noteq> Some D"
  obtains i t where "open_append p s = (Inr i, t)" "fs_ok t" "fs_lookup t p = Some (File i)"
    "tree t = (tree s)(p \<mapsto> F (bytes_of (tree s p)))"
proof (cases "fs_lookup s p")
  case None
  obtain r t where c: "create_file p s = (r, t)" by (cases "create_file p s")
  have "tree s p = None" using None by (simp add: tree_None)
  from create_file_effect [OF assms(1,2) this c] None c this that show ?thesis
    by (simp add: open_append_def with_node_def walk_ok [OF assms(3)])
next
  case (Some n)
  then obtain i where i: "n = File i"
    using assms(4) by (cases n) (auto simp: tree_Dir)
  then have "tree s = (tree s)(p \<mapsto> F (bytes_of (tree s p)))"
    using Some by (simp add: fun_eq_iff tree_def bytes_of_def)
  with Some i assms(1) that show ?thesis
    by (simp add: open_append_def with_node_def walk_ok [OF assms(3)] io_return_def)
qed

lemma open_write_effect:
  assumes "fs_ok s" "p \<noteq> []" "under_dirs s p" "tree s p \<noteq> Some D"
  obtains i t where "io_catch (open_rplus p) (open_wplus p) s = (Inr i, t)" "fs_ok t"
    "fs_lookup t p = Some (File i)" "tree t = (tree s)(p \<mapsto> F (bytes_of (tree s p)))"
proof (cases "fs_lookup s p")
  case None
  obtain r t where c: "create_file p s = (r, t)" by (cases "create_file p s")
  have "tree s p = None" using None by (simp add: tree_None)
  from create_file_effect [OF assms(1,2) this c] None c this that show ?thesis
    by (simp add: open_rplus_def open_wplus_def with_node_def walk_ok [OF assms(3)]
        io_catch_def sys_error_def io_throw_def)
next
  case (Some n)
  then obtain i where i: "n = File i"
    using assms(4) by (cases n) (auto simp: tree_Dir)
  then have "tree s = (tree s)(p \<mapsto> F (bytes_of (tree s p)))"
    using Some by (simp add: fun_eq_iff tree_def bytes_of_def)
  with Some i assms(1) that show ?thesis
    by (simp add: open_rplus_def with_node_def walk_ok [OF assms(3)] io_return_def io_catch_def)
qed

lemma inode_content_tree: "fs_lookup s p = Some (File i) \<Longrightarrow> inode_content s i = bytes_of (tree s p)"
  by (simp add: tree_def bytes_of_def)

lemma write_at_effect:
  assumes "fs_ok s" "fs_lookup s p = Some (File i)" "0 \<le> off"
  obtains t where "write_at i bs off s = (Inr (), t)" "fs_ok t"
    "tree t = (tree s)(p \<mapsto> F (patch (nat off) bs (bytes_of (tree s p))))"
proof -
  let ?new = "patch (nat off) bs (bytes_of (tree s p))"
  obtain r t where c: "set_content i ?new s = (r, t)" by (cases "set_content i ?new s")
  from set_content_effect [OF assms(1,2) c] c assms(3) that show ?thesis
    by (simp add: write_at_def inode_content_tree [OF assms(2)])
qed

lemma truncate_effect:
  assumes "fs_ok s" "under_dirs s p" "fs_lookup s p = Some (File i)"
  obtains t where "truncate_file p len s = (Inr (), t)" "fs_ok t"
    "tree t = (tree s)(p \<mapsto> F (resize (nat len) (bytes_of (tree s p))))"
proof -
  let ?new = "resize (nat len) (bytes_of (tree s p))"
  obtain r t where c: "set_content i ?new s = (r, t)" by (cases "set_content i ?new s")
  from set_content_effect [OF assms(1,3) c] c that show ?thesis
    by (simp add: truncate_file_def open_rplus_def with_node_def walk_ok [OF assms(2)] assms(3)
        io_bind_def io_return_def inode_content_tree [OF assms(3)])
qed

lemma read_effect:
  assumes "under_dirs s p" "tree s p = Some (F bs)"
  shows "read_file p s = (Inr bs, s)"
  using assms(2) by (auto simp: tree_File read_file_def with_node_def walk_ok [OF assms(1)])

lemma remove_lookup:
  "p \<noteq> [] \<Longrightarrow> fs_lookup (snd (remove_entry p s)) = (fs_lookup s)(p := None)"
  by (simp add: remove_entry_def fs_lookup_remove)

lemma rm_effect:
  assumes "fs_ok s" "p \<noteq> []" "under_dirs s p" "tree s p \<noteq> Some D"
  obtains t where "rm_force p s = (Inr (), t)" "fs_ok t" "tree t = (tree s)(p := None)"
proof (cases "fs_lookup s p")
  case None
  then have "tree s = (tree s)(p := None)" by (simp add: fun_eq_iff tree_None)
  with None assms(1) that show ?thesis
    by (simp add: rm_force_def walk_ok [OF assms(3)])
next
  case (Some n)
  then obtain i where i: "n = File i"
    using assms(4) by (cases n) (auto simp: tree_Dir)
  let ?t = "snd (remove_entry p s)"
  have t: "remove_entry p s = (Inr (), ?t)" "fs_next ?t = fs_next s"
    and inode: "inode_content ?t = inode_content s"
    by (simp_all add: remove_entry_def)
  have "fs_ok ?t"
    using assms(1) by (auto simp: fs_ok_def remove_lookup [OF assms(2)] t(2) split: if_splits)
  moreover have "tree ?t = (tree s)(p := None)"
    unfolding fun_eq_iff tree_def remove_lookup [OF assms(2)] inode by simp
  ultimately show ?thesis
    using Some i t(1) that by (simp add: rm_force_def walk_ok [OF assms(3)])
qed

lemma rename_effect:
  assumes "fs_ok s" "p \<noteq> []" "q \<noteq> []" "under_dirs s p" "under_dirs s q"
    and "tree s p = Some (F bs)" "tree s q \<noteq> Some D"
  obtains t where "rename_file p q s = (Inr (), t)" "fs_ok t"
    "tree t = (if p = q then tree s else (tree s)(q \<mapsto> F bs, p := None))"
proof -
  obtain i where i: "fs_lookup s p = Some (File i)" "inode_content s i = bs"
    using assms(6) by (auto simp: tree_File)
  note walk = walk_ok [OF assms(4)] walk_ok [OF assms(5)]
  show ?thesis
  proof (cases "p = q")
    case True
    then show ?thesis
      using i assms(1) that walk by (simp add: rename_file_def with_node_def io_return_def)
  next
    case False
    let ?u = "snd (set_entry q (File i) s)"
    let ?t = "snd (remove_entry p ?u)"
    have look: "fs_lookup ?t = (fs_lookup s)(q \<mapsto> File i, p := None)"
      by (simp add: remove_lookup [OF assms(2)] set_entry_def fs_lookup_set [OF assms(3)])
    have inode: "inode_content ?t = inode_content s" and nxt: "fs_next ?t = fs_next s"
      by (simp_all add: remove_entry_def set_entry_def)
    have other: "fs_lookup s r \<noteq> Some (File i)" if "r \<noteq> p" for r
      using fs_okD [OF assms(1) i(1)] that by metis
    have "fs_ok ?t"
      using assms(1) other i(1) unfolding fs_ok_def look nxt
      by (auto split: if_splits)
    moreover have "tree ?t = (tree s)(q \<mapsto> F bs, p := None)"
      using i(2) False unfolding fun_eq_iff tree_def look inode by simp
    moreover have "rename_file p q s = (Inr (), ?t)"
    proof -
      have "fs_lookup s q = None \<or> (\<exists>j. fs_lookup s q = Some (File j) \<and> j \<noteq> i)"
        using assms(7) other [of q] False
        by (cases "fs_lookup s q") (auto simp: tree_Dir, metis node.exhaust)
      then show ?thesis
        using i(1) walk
        by (auto simp: rename_file_def with_node_def io_seq_def io_bind_def set_entry_def remove_entry_def)
    qed
    ultimately show ?thesis using False that by simp
  qed
qed

section \<open>Making directories\<close>

lemma mkdir_list_effect:
  assumes "fs_ok s" "\<forall>p\<in>set ps. tree s p = None \<or> tree s p = Some D"
  shows "\<exists>t. io_each mkdir_one ps s = (Inr (), t) \<and> fs_ok t
     \<and> tree t = (\<lambda>q. if q \<in> set ps then Some D else tree s q)"
  using assms
proof (induction ps arbitrary: s)
  case Nil
  then show ?case by (simp add: io_return_def)
next
  case (Cons p ps)
  have "\<exists>u. mkdir_one p s = (Inr (), u) \<and> fs_ok u \<and> tree u = (tree s)(p \<mapsto> D)"
  proof (cases "fs_lookup s p")
    case None
    then have p: "p \<noteq> []" by (auto simp: fs_lookup_def)
    let ?u = "s\<lparr>fs_nodes := map_set p Dir (fs_nodes s)\<rparr>"
    have look: "fs_lookup ?u = (fs_lookup s)(p \<mapsto> Dir)" by (rule fs_lookup_set [OF p])
    have "fs_ok ?u" using Cons.prems(1) by (auto simp: fs_ok_def look split: if_splits)
    moreover have "tree ?u = (tree s)(p \<mapsto> D)" 
      unfolding fun_eq_iff tree_def look content_nodes by simp
    ultimately show ?thesis using None by (simp add: mkdir_one_def)
  next
    case (Some n)
    then have "n = Dir" using Cons.prems(2) by (auto simp: tree_None tree_Dir)
    moreover from this have "tree s = (tree s)(p \<mapsto> D)"
      using Some by (simp add: fun_eq_iff tree_Dir)
    ultimately show ?thesis using Some Cons.prems(1) by (auto simp: mkdir_one_def)
  qed
  then obtain u where u: "mkdir_one p s = (Inr (), u)" "fs_ok u" "tree u = (tree s)(p \<mapsto> D)"
    by blast
  have "\<forall>q\<in>set ps. tree u q = None \<or> tree u q = Some D"
    using Cons.prems(2) u(3) by auto
  from Cons.IH [OF u(2) this] u show ?case
    by (auto simp: io_seq_def io_bind_def fun_eq_iff)
qed

lemma mkdirp_effect:
  assumes "fs_ok s" "\<forall>p. prefix p d \<longrightarrow> tree s p = None \<or> tree s p = Some D"
  obtains t where "mkdirp d s = (Inr (), t)" "fs_ok t"
    "tree t = (\<lambda>q. if prefix q d then Some D else tree s q)"
proof -
  have mem: "q \<in> set (ancestors d @ [d]) \<longleftrightarrow> prefix q d" for q
    by (auto simp: ancestor_prefix strict_prefix_def)
  then have free: "\<forall>p\<in>set (ancestors d @ [d]). tree s p = None \<or> tree s p = Some D"
    using assms(2) mem by blast
  obtain t where t: "io_each mkdir_one (ancestors d @ [d]) s = (Inr (), t)" "fs_ok t"
      "tree t = (\<lambda>q. if q \<in> set (ancestors d @ [d]) then Some D else tree s q)"
    using mkdir_list_effect [OF assms(1) free] by blast
  have "mkdirp d s = io_each mkdir_one (ancestors d @ [d]) s"
  proof -
    have free': "\<forall>p\<in>set (ancestors d). tree s p = None \<or> tree s p = Some D"
      using free by simp
    obtain u where u: "io_each mkdir_one (ancestors d) s = (Inr (), u)"
        "tree u = (\<lambda>q. if q \<in> set (ancestors d) then Some D else tree s q)"
      using mkdir_list_effect [OF assms(1) free'] by blast
    then have "tree u d = None \<or> tree u d = Some D" using free by auto
    then show ?thesis
      using u(1)
      by (auto simp: mkdirp_def io_each_append io_seq_def io_bind_def tree_None tree_Dir
          io_return_def split: prod.splits sum.splits)
  qed
  with t(1,2) t(3) [unfolded mem] that show ?thesis by simp
qed

lemma mkdirp_noop:
  assumes "fs_ok s" "under_dirs s (d @ [n])"
  shows "mkdirp d s = (Inr (), s)"
proof -
  have dirs: "\<forall>p\<in>set (ancestors d). fs_lookup s p = Some Dir" "fs_lookup s d = Some Dir"
    using assms(2) by (auto simp: under_dirs_def ancestors_snoc tree_Dir)
  have "io_each mkdir_one ps s = (Inr (), s)" if "\<forall>p\<in>set ps. fs_lookup s p = Some Dir" for ps
    using that by (induction ps) (simp_all add: io_return_def io_seq_def io_bind_def mkdir_one_def)
  then show ?thesis
    using dirs by (simp add: mkdirp_def io_seq_def io_bind_def mkdir_one_def)
qed

text \<open>Updates below a directory leave the directories alone.\<close>

lemma under_dirs_update:
  assumes "\<And>q. tree s q = Some D \<Longrightarrow> tree t q = Some D" "under_dirs s p"
  shows "under_dirs t p"
  using assms by (simp add: under_dirs_def)

end
