(* ===== verification/ReplayStore.thy ===== *)
theory ReplayStore
  imports Replay FileTree EnumerationFacts
begin

text \<open>
  What a replay promises, without directories, inodes and descriptors: a store from paths to bytes,
  updated by one operation at a time. For traces whose files lie directly in the replayed directory
  and that make no hard links or directories (the workloads of the campaign), replaying a selection
  is proved to succeed and to compute the fold of the store operations, and to leave every path
  outside the target directory alone.
\<close>

type_synonym store = "segs \<Rightarrow> byte list option"

definition files :: "fs \<Rightarrow> store" where
  "files s p = (case tree s p of Some (F bs) \<Rightarrow> Some bs | _ \<Rightarrow> None)"

definition old_bytes :: "store \<Rightarrow> segs \<Rightarrow> byte list" where
  "old_bytes st p = (case st p of Some bs \<Rightarrow> bs | None \<Rightarrow> [])"

definition torn_payload :: "byte list \<Rightarrow> nat option \<Rightarrow> byte list" where
  "torn_payload whole bytes = (case bytes of None \<Rightarrow> whole | Some b \<Rightarrow> take b whole)"

definition store_step ::
    "(trace_event \<Rightarrow> segs \<times> segs) \<Rightarrow> (string \<Rightarrow> byte list option) \<Rightarrow> trace_event \<Rightarrow> nat option \<Rightarrow> store \<Rightarrow> store" where
  "store_step place cas event bytes st =
     (let (p, q) = place event in
      if is_write (ev_call event)
      then st(p \<mapsto> patch (nat (ev_offset event))
                     (torn_payload (case cas (ev_digest event) of Some w \<Rightarrow> w | None \<Rightarrow> []) bytes) (old_bytes st p))
      else if ev_call event \<in> NEEDS_EXISTING_FILE
      then st(p \<mapsto> resize (nat (ev_length event)) (old_bytes st p))
      else if ev_call event = CRename
      then (if p = q then st(p \<mapsto> old_bytes st p) else st(q \<mapsto> old_bytes st p, p := None))
      else if ev_call event = CUnlink then st(p := None)
      else st)"

definition places :: "string \<Rightarrow> replay_options \<Rightarrow> trace_event \<Rightarrow> segs \<times> segs" where
  "places cwd options event = (rebase cwd (ev_path event) options, rebase cwd (ev_path2 event) options)"

section \<open>Hypotheses on the traced operations and the disk\<close>

text \<open>The paths directly in a directory, but for the directory every fresh ext4 file system starts with.\<close>

definition in_dir :: "segs \<Rightarrow> segs \<Rightarrow> bool" where
  "in_dir T p \<longleftrightarrow> (\<exists>n. p = T @ [n] \<and> n \<noteq> ''lost+found'')"

text \<open>An operation on files directly in the target directory, its payload in the store.\<close>

definition flat_event :: "string \<Rightarrow> replay_options \<Rightarrow> (string \<Rightarrow> byte list option) \<Rightarrow> trace_event \<Rightarrow> bool" where
  "flat_event cwd options cas event \<longleftrightarrow>
     (ev_call event \<in> MUTATING \<longrightarrow>
        ev_call event \<noteq> CMkdir \<and> ev_call event \<noteq> CLink
        \<and> in_dir (resolve cwd (ro_targetDir options)) (fst (places cwd options event))
        \<and> (ev_call event = CRename \<longrightarrow>
             in_dir (resolve cwd (ro_targetDir options)) (snd (places cwd options event)))
        \<and> (is_write (ev_call event) \<longrightarrow> 0 \<le> ev_offset event \<and> cas (ev_digest event) \<noteq> None))"

text \<open>The payload objects are files outside the target directory.\<close>

definition cas_ready :: "string \<Rightarrow> replay_options \<Rightarrow> (string \<Rightarrow> byte list option) \<Rightarrow> fs \<Rightarrow> bool" where
  "cas_ready cwd options cas s \<longleftrightarrow>
     (\<forall>d bs. cas d = Some bs \<longrightarrow>
        \<not> in_dir (resolve cwd (ro_targetDir options)) (cas_path cwd options d)
        \<and> tree s (cas_path cwd options d) = Some (F bs) \<and> under_dirs s (cas_path cwd options d))"

definition dir_ready :: "segs \<Rightarrow> fs \<Rightarrow> bool" where
  "dir_ready T s \<longleftrightarrow>
     fs_ok s \<and> (\<forall>p. in_dir T p \<longrightarrow> tree s p \<noteq> Some D) \<and> (\<forall>p. prefix p T \<longrightarrow> tree s p = Some D)"

definition replay_inv :: "string \<Rightarrow> replay_options \<Rightarrow> (string \<Rightarrow> byte list option) \<Rightarrow> fs \<Rightarrow> bool" where
  "replay_inv cwd options cas s \<longleftrightarrow>
     dir_ready (resolve cwd (ro_targetDir options)) s \<and> cas_ready cwd options cas s"

lemma dir_ready_under: "dir_ready T s \<Longrightarrow> in_dir T p \<Longrightarrow> under_dirs s p"
  by (auto simp: dir_ready_def in_dir_def under_dirs_def ancestors_snoc ancestor_prefix strict_prefix_def)

lemma dir_ready_file: "dir_ready T s \<Longrightarrow> in_dir T p \<Longrightarrow> tree s p \<noteq> Some D \<and> p \<noteq> [] \<and> butlast p = T"
  by (auto simp: dir_ready_def in_dir_def)

lemma not_in_dir_prefix: "prefix p T \<Longrightarrow> \<not> in_dir T p"
  by (auto simp: in_dir_def dest: prefix_length_le)

lemma old_bytes_files: "tree s p \<noteq> Some D \<Longrightarrow> old_bytes (files s) p = bytes_of (tree s p)"
  by (auto simp: old_bytes_def files_def bytes_of_def split: option.splits entry.splits)

text \<open>A step that changes files of the target directory only keeps the invariant.\<close>

lemma replay_inv_step:
  assumes inv: "replay_inv cwd options cas s" and ok: "fs_ok t"
    and out: "\<And>p. \<not> in_dir (resolve cwd (ro_targetDir options)) p \<Longrightarrow> tree t p = tree s p"
    and ins: "\<And>p. in_dir (resolve cwd (ro_targetDir options)) p \<Longrightarrow> tree t p \<noteq> Some D"
  shows "replay_inv cwd options cas t"
proof -
  let ?T = "resolve cwd (ro_targetDir options)"
  have "dir_ready ?T t"
    using inv ok ins out not_in_dir_prefix by (auto simp: replay_inv_def dir_ready_def)
  moreover have "under_dirs t p" if "under_dirs s p" for p
    unfolding under_dirs_def
  proof
    fix q assume "q \<in> set (ancestors p)"
    then have D: "tree s q = Some D" using that by (simp add: under_dirs_def)
    then have "\<not> in_dir ?T q"
      using inv dir_ready_file by (auto simp: replay_inv_def)
    then show "tree t q = Some D" using out D by simp
  qed
  then have "cas_ready cwd options cas t"
    using inv out by (simp add: replay_inv_def cas_ready_def)
  ultimately show ?thesis by (simp add: replay_inv_def)
qed

text \<open>The outcome of one statement: it succeeds, keeps the invariant and the outside, updates the store.\<close>

definition achieves ::
    "string \<Rightarrow> replay_options \<Rightarrow> (string \<Rightarrow> byte list option) \<Rightarrow> fs \<Rightarrow> (fs, unit) io \<Rightarrow> store \<Rightarrow> bool" where
  "achieves cwd options cas s m st \<longleftrightarrow>
     (\<exists>t. m s = (Inr (), t) \<and> replay_inv cwd options cas t \<and> files t = st
        \<and> (\<forall>p. \<not> in_dir (resolve cwd (ro_targetDir options)) p \<longrightarrow> tree t p = tree s p))"

lemma achievesI:
  assumes "replay_inv cwd options cas s" "m s = (Inr (), t)" "fs_ok t"
    and "\<And>p. \<not> in_dir (resolve cwd (ro_targetDir options)) p \<Longrightarrow> tree t p = tree s p"
    and "\<And>p. in_dir (resolve cwd (ro_targetDir options)) p \<Longrightarrow> tree t p \<noteq> Some D" "files t = st"
  shows "achieves cwd options cas s m st"
  using assms replay_inv_step [OF assms(1,3-5)] by (auto simp: achieves_def)

lemma files_update:
  "files s' = (files s)(p := (case e of Some (F bs) \<Rightarrow> Some bs | _ \<Rightarrow> None))"
  if "tree s' = (tree s)(p := e)"
  using that by (auto simp: files_def fun_eq_iff)

text \<open>The update of one file of the directory, by content or by removal.\<close>

lemma achieves_update:
  assumes inv: "replay_inv cwd options cas s"
    and p: "in_dir (resolve cwd (ro_targetDir options)) p"
    and run: "m s = (Inr (), t)" "fs_ok t" "tree t = (tree s)(p := map_option F new)"
  shows "achieves cwd options cas s m ((files s)(p := new))"
proof (rule achievesI [where m = m, OF inv run(1,2)])
  let ?T = "resolve cwd (ro_targetDir options)"
  show "tree t q = tree s q" if "\<not> in_dir ?T q" for q
    using that p by (auto simp: run(3))
  show "tree t q \<noteq> Some D" if "in_dir ?T q" for q
    using inv that by (auto simp: run(3) replay_inv_def dir_ready_def)
  show "files t = (files s)(p := new)"
    using files_update [OF run(3)] by (cases new) simp_all
qed

lemma inv_facts:
  assumes "replay_inv cwd options cas s" "in_dir (resolve cwd (ro_targetDir options)) p"
  shows "fs_ok s" "p \<noteq> []" "under_dirs s p" "tree s p \<noteq> Some D"
    "mkdirp (butlast p) s = (Inr (), s)"
proof -
  let ?T = "resolve cwd (ro_targetDir options)"
  have ready: "dir_ready ?T s" using assms(1) by (simp add: replay_inv_def)
  then show ok: "fs_ok s" by (simp add: dir_ready_def)
  show under: "under_dirs s p" by (rule dir_ready_under [OF ready assms(2)])
  show "p \<noteq> []" "tree s p \<noteq> Some D" using dir_ready_file [OF ready assms(2)] by simp_all
  obtain n where "p = ?T @ [n]" using assms(2) by (auto simp: in_dir_def)
  then show "mkdirp (butlast p) s = (Inr (), s)" using mkdirp_noop [OF ok] under by simp
qed

section \<open>One operation\<close>

lemma applyWrite_achieves:
  assumes inv: "replay_inv cwd options cas s"
    and p: "in_dir (resolve cwd (ro_targetDir options)) (rebase cwd (ev_path event) options)"
    and cas: "cas (ev_digest event) = Some whole" and off: "0 \<le> ev_offset event"
  shows "achieves cwd options cas s (applyWrite cwd event options bytes)
    ((files s)(rebase cwd (ev_path event) options \<mapsto>
       patch (nat (ev_offset event)) (torn_payload whole bytes)
         (old_bytes (files s) (rebase cwd (ev_path event) options))))"
proof -
  let ?p = "rebase cwd (ev_path event) options"
  note facts = inv_facts [OF inv p]
  have read: "read_file (cas_path cwd options (ev_digest event)) s = (Inr whole, s)"
    using inv cas by (intro read_effect) (simp_all add: replay_inv_def cas_ready_def)
  obtain i u where u: "io_catch (open_rplus ?p) (open_wplus ?p) s = (Inr i, u)" "fs_ok u"
    "fs_lookup u ?p = Some (File i)" "tree u = (tree s)(?p \<mapsto> F (bytes_of (tree s ?p)))"
    using open_write_effect [OF facts(1-4)] by blast
  obtain t where t: "write_at i (torn_payload whole bytes) (ev_offset event) u = (Inr (), t)" "fs_ok t"
    "tree t = (tree u)(?p \<mapsto> F (patch (nat (ev_offset event)) (torn_payload whole bytes) (bytes_of (tree u ?p))))"
    using write_at_effect [OF u(2,3) off] by blast
  have payload: "(case bytes of None \<Rightarrow> w | Some b \<Rightarrow> take (min b (length w)) w)
      = torn_payload w bytes" for w :: "byte list"
    by (cases bytes) (simp_all add: torn_payload_def min_def)
  have run: "applyWrite cwd event options bytes s = (Inr (), t)"
    unfolding applyWrite_def payload
    using read facts(5) u(1) t(1)
    by (simp add: io_bind_def io_seq_def io_finally_def close_fd_def io_return_def Let_def)
  have "tree t = (tree s)(?p := map_option F (Some (patch (nat (ev_offset event))
      (torn_payload whole bytes) (old_bytes (files s) ?p))))"
    using t(3) u(4) facts(4) by (simp add: old_bytes_files)
  from achieves_update [where m = "applyWrite cwd event options bytes", OF inv p run t(2) this] show ?thesis by simp
qed

lemma ensureFile_effect:
  assumes "replay_inv cwd options cas s" "in_dir (resolve cwd (ro_targetDir options)) p"
  obtains i u where "ensureFile p s = (Inr p, u)" "fs_ok u" "fs_lookup u p = Some (File i)"
    "tree u = (tree s)(p \<mapsto> F (old_bytes (files s) p))"
proof -
  note facts = inv_facts [OF assms]
  obtain i u where u: "open_append p s = (Inr i, u)" "fs_ok u" "fs_lookup u p = Some (File i)"
    "tree u = (tree s)(p \<mapsto> F (bytes_of (tree s p)))"
    using open_append_effect [OF facts(1-4)] by blast
  have "ensureFile p s = (Inr p, u)"
    using facts(5) u(1)
    by (simp add: ensureFile_def io_seq_def io_bind_def close_fd_def io_return_def)
  with u(2-4) that show ?thesis by (simp add: old_bytes_files [OF facts(4)])
qed

lemma truncate_achieves:
  assumes inv: "replay_inv cwd options cas s" and p: "in_dir (resolve cwd (ro_targetDir options)) p"
  shows "achieves cwd options cas s (io_bind (ensureFile p) (\<lambda>p. truncate_file p len))
    ((files s)(p \<mapsto> resize (nat len) (old_bytes (files s) p)))"
proof -
  obtain i u where u: "ensureFile p s = (Inr p, u)" "fs_ok u" "fs_lookup u p = Some (File i)"
    "tree u = (tree s)(p \<mapsto> F (old_bytes (files s) p))"
    using ensureFile_effect [OF inv p] by blast
  have under: "under_dirs u p"
    using inv_facts(3,4) [OF inv p] by (intro under_dirs_update [of s u]) (auto simp: u(4))
  obtain t where t: "truncate_file p len u = (Inr (), t)" "fs_ok t"
    "tree t = (tree u)(p \<mapsto> F (resize (nat len) (bytes_of (tree u p))))"
    using truncate_effect [OF u(2) under u(3)] by blast
  have "tree t = (tree s)(p := map_option F (Some (resize (nat len) (old_bytes (files s) p))))"
    using t(3) u(4) by simp
  moreover have "io_bind (ensureFile p) (\<lambda>p. truncate_file p len) s = (Inr (), t)"
    using u(1) t(1) by (simp add: io_bind_def)
  ultimately show ?thesis
    using achieves_update [OF inv p, where m = "io_bind (ensureFile p) (\<lambda>p. truncate_file p len)"]
      t(2) by simp
qed

lemma unlink_achieves:
  assumes inv: "replay_inv cwd options cas s" and p: "in_dir (resolve cwd (ro_targetDir options)) p"
  shows "achieves cwd options cas s (rm_force p) ((files s)(p := None))"
proof -
  obtain t where "rm_force p s = (Inr (), t)" "fs_ok t" "tree t = (tree s)(p := None)"
    using rm_effect [OF inv_facts(1-4) [OF inv p]] by blast
  then show ?thesis by (intro achieves_update [OF inv p]) simp_all
qed

lemma rename_achieves:
  assumes inv: "replay_inv cwd options cas s"
    and p: "in_dir (resolve cwd (ro_targetDir options)) p"
    and q: "in_dir (resolve cwd (ro_targetDir options)) q"
  shows "achieves cwd options cas s (io_bind (ensureFile p) (\<lambda>p. rename_file p q))
    (if p = q then (files s)(p \<mapsto> old_bytes (files s) p)
     else (files s)(q \<mapsto> old_bytes (files s) p, p := None))"
proof -
  let ?m = "io_bind (ensureFile p) (\<lambda>p. rename_file p q)"
  obtain i u where u: "ensureFile p s = (Inr p, u)" "fs_ok u" "fs_lookup u p = Some (File i)"
    "tree u = (tree s)(p \<mapsto> F (old_bytes (files s) p))"
    using ensureFile_effect [OF inv p] by blast
  have keep: "tree u r = Some D" if "tree s r = Some D" for r
    using that inv_facts(4) [OF inv p] by (auto simp: u(4))
  have under: "under_dirs u p" "under_dirs u q"
    using inv_facts(3) [OF inv p] inv_facts(3) [OF inv q] keep under_dirs_update by blast+
  have "tree u p = Some (F (old_bytes (files s) p))" "tree u q \<noteq> Some D"
    using inv_facts(4) [OF inv q] by (auto simp: u(4))
  then obtain t where t: "rename_file p q u = (Inr (), t)" "fs_ok t"
    "tree t = (if p = q then tree u else (tree u)(q \<mapsto> F (old_bytes (files s) p), p := None))"
    using rename_effect [OF u(2) inv_facts(2) [OF inv p] inv_facts(2) [OF inv q] under] by blast
  have run: "?m s = (Inr (), t)" using u(1) t(1) by (simp add: io_bind_def)
  show ?thesis
  proof (rule achievesI [where m = ?m, OF inv run t(2)])
    let ?T = "resolve cwd (ro_targetDir options)"
    show "tree t r = tree s r" if "\<not> in_dir ?T r" for r
      using that p q by (auto simp: t(3) u(4))
    show "tree t r \<noteq> Some D" if "in_dir ?T r" for r
      using inv that by (auto simp: t(3) u(4) replay_inv_def dir_ready_def)
    show "files t = (if p = q then (files s)(p \<mapsto> old_bytes (files s) p)
        else (files s)(q \<mapsto> old_bytes (files s) p, p := None))"
      by (auto simp: files_def fun_eq_iff t(3) u(4))
  qed
qed

lemma applySelected_achieves:
  assumes inv: "replay_inv cwd options cas s" and event: "flat_event cwd options cas event"
  shows "achieves cwd options cas s (applySelected cwd event options bytes)
    (store_step (places cwd options) cas event bytes (files s))"
proof (cases "ev_call event \<in> MUTATING")
  case False
  then have "applySelected cwd event options bytes s = (Inr (), s)"
    by (simp add: applySelected_other io_return_def)
  moreover have "store_step (places cwd options) cas event bytes (files s) = files s"
    using False by (auto simp: store_step_def places_def is_write_def NEEDS_EXISTING_FILE_def MUTATING_def)
  ultimately show ?thesis
    using inv by (simp add: achieves_def)
next
  case True
  note flat = event [unfolded flat_event_def, rule_format, OF True, unfolded places_def fst_conv snd_conv]
  have "\<exists>w. is_write (ev_call event) \<longrightarrow> cas (ev_digest event) = Some w" using flat by blast
  then obtain w where w: "is_write (ev_call event) \<Longrightarrow> cas (ev_digest event) = Some w" by blast
  show ?thesis
    using True flat w applyWrite_achieves [OF inv, of event w bytes] truncate_achieves [OF inv]
      unlink_achieves [OF inv] rename_achieves [OF inv]
    by (cases "ev_call event")
      (simp_all add: applySelected_def store_step_def places_def is_write_def NEEDS_EXISTING_FILE_def
        MUTATING_def Let_def)
qed

section \<open>The loop\<close>

lemma each_achieves:
  assumes "\<And>x s. x \<in> set xs \<Longrightarrow> replay_inv cwd options cas s \<Longrightarrow>
      achieves cwd options cas s (body x) (step x (files s))"
    and "replay_inv cwd options cas s"
  shows "achieves cwd options cas s (io_each body xs) (foldl (\<lambda>st x. step x st) (files s) xs)"
  using assms
proof (induction xs arbitrary: s)
  case Nil
  then show ?case by (simp add: achieves_def io_return_def)
next
  case (Cons x xs)
  have "achieves cwd options cas s (body x) (step x (files s))"
    using Cons.prems by simp
  then obtain u where u: "body x s = (Inr (), u)" "replay_inv cwd options cas u"
    "files u = step x (files s)"
    "\<forall>p. \<not> in_dir (resolve cwd (ro_targetDir options)) p \<longrightarrow> tree u p = tree s p"
    by (auto simp: achieves_def)
  have "achieves cwd options cas u (io_each body xs) (foldl (\<lambda>st x. step x st) (files u) xs)"
    using Cons.prems(1) u(2) by (intro Cons.IH) simp_all
  with u show ?case by (simp add: achieves_def io_seq_def io_bind_def)
qed

text \<open>The disk before the replay: the target is missing or a directory, its entries are no directories.\<close>

definition replay_ready :: "string \<Rightarrow> replay_options \<Rightarrow> (string \<Rightarrow> byte list option) \<Rightarrow> fs \<Rightarrow> bool" where
  "replay_ready cwd options cas s \<longleftrightarrow>
     (let T = resolve cwd (ro_targetDir options) in
      fs_ok s \<and> (\<forall>p. prefix p T \<longrightarrow> tree s p = None \<or> tree s p = Some D)
      \<and> (\<forall>p. in_dir T p \<longrightarrow> tree s p \<noteq> Some D) \<and> cas_ready cwd options cas s)"

lemma mkdir_target:
  assumes "replay_ready cwd options cas s"
  obtains t where "mkdirp (resolve cwd (ro_targetDir options)) s = (Inr (), t)"
    "replay_inv cwd options cas t" "files t = files s"
    "\<forall>p. \<not> prefix p (resolve cwd (ro_targetDir options)) \<longrightarrow> tree t p = tree s p"
proof -
  let ?T = "resolve cwd (ro_targetDir options)"
  have ready: "fs_ok s" "\<forall>p. prefix p ?T \<longrightarrow> tree s p = None \<or> tree s p = Some D"
    "\<forall>p. in_dir ?T p \<longrightarrow> tree s p \<noteq> Some D" "cas_ready cwd options cas s"
    using assms by (simp_all add: replay_ready_def Let_def)
  obtain t where t: "mkdirp ?T s = (Inr (), t)" "fs_ok t"
    "tree t = (\<lambda>q. if prefix q ?T then Some D else tree s q)"
    using mkdirp_effect [OF ready(1,2)] by blast
  have "\<not> prefix p ?T" if "in_dir ?T p" for p using that not_in_dir_prefix by blast
  then have dir: "dir_ready ?T t"
    using t(2) ready(3) by (simp add: dir_ready_def t(3))
  have under: "under_dirs t p" if "under_dirs s p" for p
    using that by (intro under_dirs_update [of s t]) (auto simp: t(3))
  have "cas_ready cwd options cas t"
    unfolding cas_ready_def
  proof (intro allI impI)
    fix d bs assume "cas d = Some bs"
    then have c: "\<not> in_dir ?T (cas_path cwd options d)" "tree s (cas_path cwd options d) = Some (F bs)"
      "under_dirs s (cas_path cwd options d)"
      using ready(4) by (simp_all add: cas_ready_def)
    then have "\<not> prefix (cas_path cwd options d) ?T" using ready(2) by fastforce
    with c under show "\<not> in_dir ?T (cas_path cwd options d)
        \<and> tree t (cas_path cwd options d) = Some (F bs) \<and> under_dirs t (cas_path cwd options d)"
      by (simp add: t(3))
  qed
  moreover have "files t = files s"
    using ready(2) by (fastforce simp: files_def fun_eq_iff t(3) split: option.splits)
  ultimately show ?thesis
    using t(1,3) dir that by (simp add: replay_inv_def)
qed

definition selected :: "selection \<Rightarrow> nat \<Rightarrow> bool" where
  "selected selection i \<longleftrightarrow> i \<in> set (se_persisted selection) \<union> to_op ` set (se_partial selection)"

lemma torn_keys: "map_has (torn_bytes selection) i \<longleftrightarrow> i \<in> to_op ` set (se_partial selection)"
proof -
  have "map_has (foldl (\<lambda>m e. map_set (to_op e) (to_bytes e) m) m es) i
      \<longleftrightarrow> map_has m i \<or> i \<in> to_op ` set es" for m es
    by (induction es arbitrary: m) (auto simp: map_has_def)
  from this [of map_empty] show ?thesis
    unfolding torn_bytes_def by (simp add: map_has_def [of map_empty])
qed

text \<open>The store after a selection.\<close>

definition store_after ::
    "string \<Rightarrow> replay_options \<Rightarrow> (string \<Rightarrow> byte list option) \<Rightarrow> trace_event list \<Rightarrow> selection \<Rightarrow> store \<Rightarrow> store" where
  "store_after cwd options cas events selection st =
     foldl (\<lambda>st i. store_step (places cwd options) cas (events ! i) (map_get (torn_bytes selection) i) st)
       st (filter (selected selection) [0..<length events])"

section \<open>Property\<close>

lemma replay_store:
  assumes "replay_ready cwd options cas s"
    and "\<forall>i<length (tr_events trace). selected selection i \<longrightarrow>
           flat_event cwd options cas (tr_events trace ! i)"
  shows "\<exists>t. replaySelection cwd trace options selection s = (Inr (), t)
    \<and> replay_inv cwd options cas t
    \<and> files t = store_after cwd options cas (tr_events trace) selection (files s)
    \<and> (\<forall>p. \<not> in_dir (resolve cwd (ro_targetDir options)) p
         \<and> \<not> prefix p (resolve cwd (ro_targetDir options)) \<longrightarrow> tree t p = tree s p)"
proof -
  let ?body = "\<lambda>i. applySelected cwd (tr_events trace ! i) options (map_get (torn_bytes selection) i)"
  let ?is = "filter (selected selection) [0..<length (tr_events trace)]"
  obtain u where u: "mkdirp (resolve cwd (ro_targetDir options)) s = (Inr (), u)"
    "replay_inv cwd options cas u" "files u = files s"
    "\<forall>p. \<not> prefix p (resolve cwd (ro_targetDir options)) \<longrightarrow> tree u p = tree s p"
    using mkdir_target [OF assms(1)] by blast
  have "replaySelection cwd trace options selection
      = io_seq (mkdirp (resolve cwd (ro_targetDir options))) (io_each ?body ?is)"
    unfolding replaySelection_def Let_def
    by (intro arg_cong2 [where f = io_seq] refl io_each_skip) (auto simp: selected_def torn_keys)
  moreover have "achieves cwd options cas u (io_each ?body ?is)
      (store_after cwd options cas (tr_events trace) selection (files u))"
    unfolding store_after_def using assms(2) u(2)
    by (intro each_achieves applySelected_achieves) auto
  ultimately show ?thesis
    using u by (auto simp: achieves_def io_seq_def io_bind_def)
qed

text \<open>C13: replaying a crash state succeeds and refines the abstract store: the files afterwards are the
  fold of the selected operations, whole or torn, in submission order, over the files before, and
  nothing outside the target directory changes. The operations concern files directly in the target
  directory whose payloads are in the content-addressed store.\<close>

theorem replay_refines_store:
  assumes "replay_ready cwd options cas s"
    and "\<forall>i<length (tr_events trace). selected selection i \<longrightarrow>
           flat_event cwd options cas (tr_events trace ! i)"
  shows "\<exists>t. replaySelection cwd trace options selection s = (Inr (), t)
    \<and> files t = store_after cwd options cas (tr_events trace) selection (files s)
    \<and> (\<forall>p. \<not> in_dir (resolve cwd (ro_targetDir options)) p
         \<and> \<not> prefix p (resolve cwd (ro_targetDir options)) \<longrightarrow> tree t p = tree s p)"
  using replay_store [OF assms] by blast

text \<open>A disk with one payload object, and the log of the sample trace torn at its first sector.\<close>

definition sample_options_replay :: replay_options where
  "sample_options_replay = \<lparr>ro_casDir = ''/cas'', ro_rootDir = ''/d'', ro_targetDir = ''/mnt''\<rparr>"

definition sample_disk :: fs where
  "sample_disk = \<lparr>fs_nodes = [([''cas''], Dir), ([''cas'', ''h''], File 0)],
     fs_inodes = [(0, [1, 2, 3])], fs_next = 1\<rparr>"

definition sample_cas :: "string \<Rightarrow> byte list option" where
  "sample_cas = [''h'' \<mapsto> [1, 2, 3]]"

definition sample_write :: trace where
  "sample_write = trace_of [(op_event CPwrite ''/d/log'' 1 2 3 3)\<lparr>ev_digest := ''h''\<rparr>] []"

lemma sample_ready: "replay_ready ''/'' sample_options_replay sample_cas sample_disk"
proof -
  have paths: "resolve ''/'' (ro_targetDir sample_options_replay) = [''mnt'']"
    "cas_path ''/'' sample_options_replay ''h'' = [''cas'', ''h'']"
    by code_simp+
  have look: "fs_lookup sample_disk p = (if p = [] \<or> p = [''cas''] then Some Dir
      else if p = [''cas'', ''h''] then Some (File 0) else None)" for p
    by (simp add: fs_lookup_def sample_disk_def map_get_def)
  have inode: "inode_content sample_disk 0 = [1, 2, 3]"
    by (simp add: inode_content_def sample_disk_def map_get_def)
  have "fs_next sample_disk = 1" by (simp add: sample_disk_def)
  then have "fs_ok sample_disk"
    by (auto simp: fs_ok_def look split: if_splits)
  moreover have "cas_ready ''/'' sample_options_replay sample_cas sample_disk"
    by (auto simp: cas_ready_def sample_cas_def paths in_dir_def tree_def look inode under_dirs_def
        ancestors_def less_Suc_eq split: if_splits)
  ultimately show ?thesis
    by (auto simp: replay_ready_def paths Let_def tree_def look prefix_Cons in_dir_def)
qed

lemma sample_flat: "flat_event ''/'' sample_options_replay sample_cas (tr_events sample_write ! 0)"
proof -
  have "places ''/'' sample_options_replay (tr_events sample_write ! 0) = ([''mnt'', ''log''], [])
      \<or> fst (places ''/'' sample_options_replay (tr_events sample_write ! 0)) = [''mnt'', ''log'']"
    "resolve ''/'' (ro_targetDir sample_options_replay) = [''mnt'']"
    by code_simp+
  then show ?thesis
    by (auto simp: flat_event_def in_dir_def sample_write_def trace_of_def op_event_def sample_cas_def is_write_def)
qed

lemma replay_refines_store_witness:
  "\<exists>t. replaySelection ''/'' sample_write sample_options_replay
         \<lparr>se_persisted = [], se_partial = [\<lparr>to_op = 0, to_bytes = 2\<rparr>]\<rparr> sample_disk = (Inr (), t)
     \<and> files t [''mnt'', ''log''] = Some [0, 0, 1, 2]"
proof -
  let ?sel = "\<lparr>se_persisted = [], se_partial = [\<lparr>to_op = 0, to_bytes = 2\<rparr>]\<rparr>"
  have "length (tr_events sample_write) = 1" by (simp add: sample_write_def trace_of_def)
  then obtain t where t: "replaySelection ''/'' sample_write sample_options_replay ?sel sample_disk = (Inr (), t)"
    "files t = store_after ''/'' sample_options_replay sample_cas (tr_events sample_write) ?sel (files sample_disk)"
    using replay_refines_store [OF sample_ready, of sample_write ?sel] sample_flat by auto
  have "files t [''mnt'', ''log''] = Some [0, 0, 1, 2]"
    unfolding t(2) sample_cas_def by code_simp
  with t(1) show ?thesis by blast
qed

end
