(* ===== verification/Durability.thy ===== *)
theory Durability
  imports EnumerationProperties ReplayStore
begin

text \<open>
  From the enumerator to the disk: what the files of a materialised crash state hold. A crash state is
  handed to the replayer as its persisted and partial operations.
\<close>

definition selection_of :: "crash_state \<Rightarrow> selection" where
  "selection_of state = \<lparr>se_persisted = cs_persisted state, se_partial = cs_partial state\<rparr>"

text \<open>One operation on the bytes of its own file, when the trace renames nothing.\<close>

definition content_step ::
    "(string \<Rightarrow> byte list option) \<Rightarrow> trace_event \<Rightarrow> byte list option \<Rightarrow> byte list option" where
  "content_step cas event c =
     (let old = (case c of Some bs \<Rightarrow> bs | None \<Rightarrow> []) in
      if is_write (ev_call event)
      then Some (patch (nat (ev_offset event)) (case cas (ev_digest event) of Some w \<Rightarrow> w | None \<Rightarrow> []) old)
      else if ev_call event \<in> NEEDS_EXISTING_FILE then Some (resize (nat (ev_length event)) old)
      else if ev_call event = CUnlink then None
      else c)"

definition content_after ::
    "(string \<Rightarrow> byte list option) \<Rightarrow> trace_event list \<Rightarrow> byte list option \<Rightarrow> byte list option" where
  "content_after cas events c = foldl (\<lambda>c event. content_step cas event c) c events"

section \<open>Files are independent\<close>

lemma store_step_other:
  assumes "ev_call event \<noteq> CRename" "fst (places cwd options event) \<noteq> p"
  shows "store_step (places cwd options) cas event bytes st p = st p"
  using assms by (auto simp: store_step_def places_def Let_def)

lemma store_step_own:
  assumes "ev_call event \<noteq> CRename" "fst (places cwd options event) = p"
  shows "store_step (places cwd options) cas event None st p = content_step cas event (st p)"
  using assms
  by (auto simp: store_step_def places_def content_step_def Let_def old_bytes_def torn_payload_def
      is_write_def NEEDS_EXISTING_FILE_def split: option.splits)

lemma store_step_still:
  assumes "ev_call event \<notin> MUTATING"
  shows "store_step place cas event bytes st = st"
  using assms by (auto simp: store_step_def is_write_def NEEDS_EXISTING_FILE_def MUTATING_def Let_def
      split: prod.splits)

text \<open>The operations of a list of indices that concern one file, none of them torn.\<close>

lemma store_fold_file:
  assumes "\<forall>i\<in>set is. ev_call (events ! i) \<noteq> CRename"
    and "\<forall>i\<in>set is. own i \<longleftrightarrow> ev_call (events ! i) \<in> MUTATING \<and> fst (places cwd options (events ! i)) = p"
    and "\<forall>i\<in>set is. own i \<longrightarrow> tornb i = None"
  shows "foldl (\<lambda>st i. store_step (places cwd options) cas (events ! i) (tornb i) st) st is p
       = content_after cas (map (\<lambda>i. events ! i) (filter own is)) (st p)"
  using assms
proof (induction "is" arbitrary: st)
  case Nil
  then show ?case by (simp add: content_after_def)
next
  case (Cons i "is")
  have "store_step (places cwd options) cas (events ! i) (tornb i) st p
      = (if own i then content_step cas (events ! i) (st p) else st p)"
    using Cons.prems store_step_own [of "events ! i" cwd options p]
      store_step_other [of "events ! i" cwd options p] store_step_still [of "events ! i"] by auto
  then show ?case
    using Cons by (simp add: content_after_def)
qed

section \<open>Property\<close>

lemma synced_content:
  assumes states: "enumerateCrashStates trace options = Inr states" "state \<in> set states"
    and window: "0 < maxUnpersistedWindow (eo_bounds options)" "maxUnpersistedWindow (eo_bounds options) \<le> 30"
    and sync: "i \<le> cs_crashPoint state" "ev_call (tr_events trace ! i) \<in> PERSISTENCE"
      "0 \<le> ev_returnValue (tr_events trace ! i)"
    and quiet: "\<forall>j. i < j \<and> j \<le> cs_crashPoint state \<and> ev_call (tr_events trace ! j) \<in> MUTATING \<longrightarrow>
        ev_path (tr_events trace ! j) \<noteq> ev_path (tr_events trace ! i)"
    and flat: "\<forall>j<length (tr_events trace). flat_event cwd ro cas (tr_events trace ! j)
        \<and> ev_call (tr_events trace ! j) \<noteq> CRename
        \<and> (rebase cwd (ev_path (tr_events trace ! j)) ro = rebase cwd (ev_path (tr_events trace ! i)) ro
             \<longrightarrow> ev_path (tr_events trace ! j) = ev_path (tr_events trace ! i))"
    and disk: "replay_ready cwd ro cas s"
  shows "\<exists>t. replaySelection cwd trace ro (selection_of state) s = (Inr (), t)
    \<and> files t (rebase cwd (ev_path (tr_events trace ! i)) ro)
      = content_after cas
          (filter (\<lambda>event. ev_call event \<in> MUTATING \<and> ev_path event = ev_path (tr_events trace ! i))
             (take i (tr_events trace)))
          (files s (rebase cwd (ev_path (tr_events trace ! i)) ro))"
proof -
  let ?e = "tr_events trace" and ?cp = "cs_crashPoint state" and ?sel = "selection_of state"
  let ?p = "rebase cwd (ev_path (?e ! i)) ro"
  let ?own = "\<lambda>j. ev_call (?e ! j) \<in> MUTATING \<and> ev_path (?e ! j) = ev_path (?e ! i)"
  have cp: "?cp < length ?e"
    using states in_enumerate [OF states(1)] by (auto simp: enumerate_Inr_iff)
  have state: "legal_state ?e (tornWrites (eo_bounds options)) (nat (maxUnpersistedWindow (eo_bounds options))) state"
    using states(2) in_enumerate [OF states(1)] legal_ordered_legal
    by (auto simp: point_states_legal [OF window] split: if_splits)
  have pinned: "j \<in> pinned_set ?e ?cp" if "?own j" "j < i" for j
    using that sync by (auto simp: pinned_set_def returned_persistence_def pins_def)
  have issued: "j \<in> issued_set ?e ?cp \<and> j \<notin> pinned_set ?e ?cp" if "j \<in> to_op ` set (cs_partial state)" for j
    using that state window_set_subset free_set_subset_issued
    by (auto simp: legal_state_def legal_partial_def free_set_def issued_set_def window_set_def)
  have pers: "pinned_set ?e ?cp \<subseteq> set (cs_persisted state)" "set (cs_persisted state) \<subseteq> issued_set ?e ?cp"
    using state pinned_in_floor by (fastforce simp: legal_state_def legal_persisted_def)+
  have own_i: "\<not> ?own i" using sync(2) mutating_not_persistence by blast
  have early: "j < i" if "?own j" "selected ?sel j" for j
  proof -
    have "j \<le> ?cp"
      using that(2) pers(2) issued by (auto simp: selected_def selection_of_def dest: issued_set_mutating)
    moreover have "j \<noteq> i" using own_i that(1) by blast
    ultimately show ?thesis using quiet that(1) by (metis linorder_neqE_nat)
  qed
  have whole: "map_get (torn_bytes ?sel) j = None" if "?own j" "selected ?sel j" for j
  proof -
    have "j \<notin> to_op ` set (cs_partial state)" using early [OF that] pinned that(1) issued by blast
    then show ?thesis using torn_keys [of ?sel j] by (simp add: map_has_def selection_of_def)
  qed
  have sel: "selected ?sel j" if "?own j" "j < i" for j
    using pinned [OF that] pers(1) by (auto simp: selected_def selection_of_def)
  obtain t where t: "replaySelection cwd trace ro ?sel s = (Inr (), t)"
    "files t = store_after cwd ro cas ?e ?sel (files s)"
    using replay_store [OF disk, of trace ?sel] flat by blast
  have same: "fst (places cwd ro (?e ! j)) = ?p \<longleftrightarrow> ev_path (?e ! j) = ev_path (?e ! i)"
    if "j < length ?e" for j
    using flat that by (auto simp: places_def)
  have "files t ?p = content_after cas
      (map (\<lambda>j. ?e ! j) (filter ?own (filter (selected ?sel) [0..<length ?e]))) (files s ?p)"
    unfolding t(2) store_after_def
    using flat same whole by (intro store_fold_file) auto
  also have "filter ?own (filter (selected ?sel) [0..<length ?e]) = filter ?own [0..<i]"
    using early sel sync(1) cp
    by (intro sorted_distinct_unique) (auto simp: sorted_wrt_filter)
  also have "map (\<lambda>j. ?e ! j) (filter ?own [0..<i])
      = filter (\<lambda>event. ev_call event \<in> MUTATING \<and> ev_path event = ev_path (?e ! i)) (map (\<lambda>j. ?e ! j) [0..<i])"
    by (simp add: filter_map comp_def)
  also have "map (\<lambda>j. ?e ! j) [0..<i] = take i ?e"
    using sync(1) cp by (intro nth_equalityI) simp_all
  finally show ?thesis using t(1) by blast
qed

text \<open>C11: durability end to end. Take a trace of writes, truncations and unlinks on files directly in
  the traced directory, and a file whose last operations before the crash are followed by a returned
  persistence call. In every crash state the enumerator produces, whatever the model, materialising
  the state succeeds and the file holds the fold of all its operations before that call.\<close>

theorem synced_content_survives:
  assumes states: "enumerateCrashStates trace options = Inr states" "state \<in> set states"
    and window: "0 < maxUnpersistedWindow (eo_bounds options)" "maxUnpersistedWindow (eo_bounds options) \<le> 30"
    and sync: "i \<le> cs_crashPoint state" "ev_call (tr_events trace ! i) \<in> PERSISTENCE"
      "0 \<le> ev_returnValue (tr_events trace ! i)"
    and quiet: "\<forall>j. i < j \<and> j \<le> cs_crashPoint state \<and> ev_call (tr_events trace ! j) \<in> MUTATING \<longrightarrow>
        ev_path (tr_events trace ! j) \<noteq> ev_path (tr_events trace ! i)"
    and flat: "\<forall>j<length (tr_events trace). flat_event cwd ro cas (tr_events trace ! j)
        \<and> ev_call (tr_events trace ! j) \<noteq> CRename
        \<and> (rebase cwd (ev_path (tr_events trace ! j)) ro = rebase cwd (ev_path (tr_events trace ! i)) ro
             \<longrightarrow> ev_path (tr_events trace ! j) = ev_path (tr_events trace ! i))"
    and disk: "replay_ready cwd ro cas s"
  shows "\<exists>t. replaySelection cwd trace ro (selection_of state) s = (Inr (), t)
    \<and> files t (rebase cwd (ev_path (tr_events trace ! i)) ro)
      = content_after cas
          (filter (\<lambda>event. ev_call event \<in> MUTATING \<and> ev_path event = ev_path (tr_events trace ! i))
             (take i (tr_events trace)))
          (files s (rebase cwd (ev_path (tr_events trace ! i)) ro))"
  using assms by (rule synced_content)

definition synced_trace :: trace where
  "synced_trace = trace_of
     [(op_event CPwrite ''/d/log'' 1 2 3 3)\<lparr>ev_digest := ''h''\<rparr>,
      op_event CFsync ''/d/log'' 3 (-1) 0 0,
      (op_event CPwrite ''/d/aux'' 5 0 3 3)\<lparr>ev_digest := ''h''\<rparr>] []"

lemma synced_places:
  "rebase ''/'' ''/d/log'' sample_options_replay = [''mnt'', ''log'']"
  "rebase ''/'' ''/d/aux'' sample_options_replay = [''mnt'', ''aux'']"
  "resolve ''/'' (ro_targetDir sample_options_replay) = [''mnt'']"
  by code_simp+

lemma synced_content_survives_witness:
  "\<exists>states. enumerateCrashStates synced_trace (shipped_options xfs (Some [2])) = Inr states
     \<and> length states = 2
     \<and> (\<forall>state\<in>set states. \<exists>t.
          replaySelection ''/'' synced_trace sample_options_replay (selection_of state) sample_disk = (Inr (), t)
          \<and> files t [''mnt'', ''log''] = Some [0, 0, 1, 2, 3])"
proof -
  let ?opts = "shipped_options xfs (Some [2])" and ?e = "tr_events synced_trace"
  have e: "?e = [(op_event CPwrite ''/d/log'' 1 2 3 3)\<lparr>ev_digest := ''h''\<rparr>,
      op_event CFsync ''/d/log'' 3 (-1) 0 0, (op_event CPwrite ''/d/aux'' 5 0 3 3)\<lparr>ev_digest := ''h''\<rparr>]"
    by (simp add: synced_trace_def trace_of_def)
  obtain states where states: "enumerateCrashStates synced_trace ?opts = Inr states"
    by (simp add: enumerate_cases e)
  have "map_sum id length (enumerateCrashStates synced_trace ?opts) = Inr 2"
    by code_simp
  then have two: "length states = 2" using states by simp
  have "\<exists>t. replaySelection ''/'' synced_trace sample_options_replay (selection_of state) sample_disk = (Inr (), t)
      \<and> files t [''mnt'', ''log''] = Some [0, 0, 1, 2, 3]" if "state \<in> set states" for state
  proof -
    have cp: "cs_crashPoint state = 2"
      using that in_enumerate [OF states] by simp
    have "\<forall>j<length ?e. flat_event ''/'' sample_options_replay sample_cas (?e ! j)
        \<and> ev_call (?e ! j) \<noteq> CRename
        \<and> (rebase ''/'' (ev_path (?e ! j)) sample_options_replay
            = rebase ''/'' (ev_path (?e ! 1)) sample_options_replay \<longrightarrow> ev_path (?e ! j) = ev_path (?e ! 1))"
      by (auto simp: e less_Suc_eq op_event_def synced_places flat_event_def MUTATING_def places_def in_dir_def
          sample_cas_def is_write_def)
    moreover have "\<forall>j. 1 < j \<and> j \<le> cs_crashPoint state \<and> ev_call (?e ! j) \<in> MUTATING \<longrightarrow>
        ev_path (?e ! j) \<noteq> ev_path (?e ! 1)"
      by (auto simp: cp e le_Suc_eq numeral_2_eq_2 op_event_def)
    ultimately have "\<exists>t. replaySelection ''/'' synced_trace sample_options_replay (selection_of state) sample_disk
          = (Inr (), t)
        \<and> files t (rebase ''/'' (ev_path (?e ! 1)) sample_options_replay)
          = content_after sample_cas
              (filter (\<lambda>event. ev_call event \<in> MUTATING \<and> ev_path event = ev_path (?e ! 1)) (take 1 ?e))
              (files sample_disk (rebase ''/'' (ev_path (?e ! 1)) sample_options_replay))"
      by (intro synced_content_survives [OF states that, of 1] sample_ready)
        (simp_all add: cp, simp_all add: e op_event_def PERSISTENCE_def)
    moreover have "content_after sample_cas
          (filter (\<lambda>event. ev_call event \<in> MUTATING \<and> ev_path event = ev_path (?e ! 1)) (take 1 ?e))
          (files sample_disk [''mnt'', ''log'']) = Some [0, 0, 1, 2, 3]"
      unfolding sample_cas_def by code_simp
    moreover have "rebase ''/'' (ev_path (?e ! 1)) sample_options_replay = [''mnt'', ''log'']"
      by (simp add: e op_event_def synced_places)
    ultimately show ?thesis by auto
  qed
  with states two show ?thesis by blast
qed

end
