(* ===== verification/Total.thy ===== *)
theory Total
  imports Effects
begin

text \<open>
  Total correctness of statements: started in a state with \<open>P\<close>, the statement returns a value and a state
  with \<open>Q\<close>, so neither an error nor a missing file stops it. One rule per combinator.
\<close>

definition ends :: "('s \<Rightarrow> bool) \<Rightarrow> ('s, 'a) io \<Rightarrow> ('a \<Rightarrow> 's \<Rightarrow> bool) \<Rightarrow> bool" where
  "ends P m Q \<longleftrightarrow> (\<forall>s. P s \<longrightarrow> (\<exists>x t. m s = (Inr x, t) \<and> Q x t))"

lemma endsD: "ends P m Q \<Longrightarrow> P s \<Longrightarrow> \<exists>x t. m s = (Inr x, t) \<and> Q x t"
  by (simp add: ends_def)

lemma ends_weaken:
  assumes "ends P m Q" "\<And>s. P' s \<Longrightarrow> P s" "\<And>x s. Q x s \<Longrightarrow> Q' x s"
  shows "ends P' m Q'"
  using assms unfolding ends_def by meson

lemma ends_return: "(\<And>s. P s \<Longrightarrow> Q x s) \<Longrightarrow> ends P (io_return x) Q"
  by (simp add: ends_def io_return_def)

lemma ends_bind:
  assumes "ends P m R" "\<And>x. ends (R x) (f x) Q"
  shows "ends P (io_bind m f) Q"
  unfolding ends_def
proof (intro allI impI)
  fix s assume "P s"
  then obtain x t where "m s = (Inr x, t)" "R x t" using assms(1) by (auto simp: ends_def)
  then show "\<exists>y u. io_bind m f s = (Inr y, u) \<and> Q y u"
    using assms(2) by (simp add: io_bind_def ends_def)
qed

lemma ends_seq: "ends P m (\<lambda>_. R) \<Longrightarrow> ends R n Q \<Longrightarrow> ends P (io_seq m n) Q"
  unfolding io_seq_def by (rule ends_bind)

lemma ends_finally:
  assumes "ends P m R" "\<And>x. ends (R x) n (\<lambda>_. Q x)"
  shows "ends P (io_finally m n) Q"
  unfolding ends_def
proof (intro allI impI)
  fix s assume "P s"
  then obtain x t where m: "m s = (Inr x, t)" "R x t" using assms(1) by (auto simp: ends_def)
  then obtain y u where "n t = (Inr y, u)" "Q x u" using assms(2) by (fastforce simp: ends_def)
  with m show "\<exists>z u. io_finally m n s = (Inr z, u) \<and> Q z u"
    by (simp add: io_finally_def)
qed

lemma ends_fold:
  assumes "\<And>x acc. x \<in> set xs \<Longrightarrow> ends (I acc) (body x acc) I"
  shows "ends (I acc) (io_fold body acc xs) I"
  using assms
proof (induction xs arbitrary: acc)
  case Nil
  then show ?case by (simp add: ends_return)
next
  case (Cons x xs)
  then show ?case by (auto intro!: ends_bind [where R = I])
qed

text \<open>A loop whose body computes a value, and an assumption on the state before it.\<close>

lemma ends_fold_value:
  assumes "\<And>x acc. x \<in> set xs \<Longrightarrow> ends J (body x acc) (\<lambda>acc' s. acc' = f acc x \<and> J s)"
  shows "ends J (io_fold body acc xs) (\<lambda>acc' s. acc' = foldl f acc xs \<and> J s)"
  using assms
proof (induction xs arbitrary: acc)
  case (Cons x xs)
  have "ends (\<lambda>s. acc' = f acc x \<and> J s) (io_fold body acc' xs) (\<lambda>y s. y = foldl f acc (x # xs) \<and> J s)" for acc'
    using Cons.IH [of acc'] Cons.prems by (auto simp: ends_def)
  then show ?case using Cons.prems by (auto intro!: ends_bind)
qed (simp add: ends_return)

lemma ends_cases: "(\<And>c. P c \<Longrightarrow> ends (\<lambda>w. A w \<and> f w = c) m Q) \<Longrightarrow> ends (\<lambda>w. A w \<and> P (f w)) m Q"
  unfolding ends_def by blast

end
