(* ===== verification/Image.thy ===== *)
theory Image
  imports Replay
begin

text \<open>
  \<open>core/src/image/image.ts\<close>: crash states as file-system images. The programs it runs (\<open>mkfs\<close>,
  \<open>losetup\<close>, \<open>mount\<close>, \<open>umount\<close>) are outside the repository: \<open>en_spawn\<close> stands for them and may do
  anything to the file tree and to the rest of the machine (\<open>wd_os\<close>). The world keeps a log of the
  commands with their exit codes, which is what the bracketing property speaks about.
\<close>

record process =
  pr_pid :: int
  pr_exit :: int
  pr_stdout :: string
  pr_stderr :: string

record 'o world =
  wd_fs :: fs
  wd_os :: 'o
  wd_log :: "(string list \<times> int) list"

record 'o env =
  en_spawn :: "(string \<times> string) list \<Rightarrow> string list \<Rightarrow> fs \<times> 'o \<Rightarrow> process \<times> fs \<times> 'o"
  en_cwd :: string
  en_fresh :: "fs \<Rightarrow> string"

text \<open>A file-system call as a step of the world.\<close>

definition on_fs :: "(fs, 'a) io \<Rightarrow> ('o world, 'a) io" where
  "on_fs m w = (case m (wd_fs w) of (r, s) \<Rightarrow> (r, w\<lparr>wd_fs := s\<rparr>))"

text \<open>\<open>Bun.spawnSync(command, { env })\<close> with the variables added to the environment of this process.\<close>

definition spawn_with :: "'o env \<Rightarrow> (string \<times> string) list \<Rightarrow> string list \<Rightarrow> ('o world, process) io" where
  "spawn_with env vars command w =
     (case en_spawn env vars command (wd_fs w, wd_os w) of (p, s, os) \<Rightarrow>
        (Inr p, w\<lparr>wd_fs := s, wd_os := os, wd_log := wd_log w @ [(command, pr_exit p)]\<rparr>))"

definition spawnSync :: "'o env \<Rightarrow> string list \<Rightarrow> ('o world, process) io" where
  "spawnSync env command = spawn_with env [] command"

section \<open>Commands\<close>

datatype filesystem = Ext4 | Xfs | Btrfs

record image_spec =
  is_imagePath :: string
  is_filesystem :: filesystem
  is_sizeBytes :: int

definition MOUNT_ROOT :: string where
  "MOUNT_ROOT = ''/var/lib/crashfuzz/mnt''"

definition command_failed :: "string list \<Rightarrow> process \<Rightarrow> js_error" where
  "command_failed command p =
     Error (join '' '' command @ '' failed ('' @ int_string (pr_exit p) @ ''): ''
            @ trim (pr_stderr p @ pr_stdout p))"

definition run :: "'o env \<Rightarrow> string list \<Rightarrow> ('o world, unit) io" where
  "run env command = io_bind (spawnSync env command) (\<lambda>p.
     if pr_exit p \<noteq> 0 then io_throw (command_failed command p) else io_return ())"

definition capture :: "'o env \<Rightarrow> string list \<Rightarrow> ('o world, string) io" where
  "capture env command = io_bind (spawnSync env command) (\<lambda>p.
     if pr_exit p \<noteq> 0 then io_throw (command_failed command p) else io_return (trim (pr_stdout p)))"

definition formatCommand :: "image_spec \<Rightarrow> string list" where
  "formatCommand spec =
     (case is_filesystem spec of
        Ext4 \<Rightarrow> [''/usr/sbin/mkfs.ext4'', ''-q'', ''-F'', is_imagePath spec]
      | Xfs \<Rightarrow> [''/usr/sbin/mkfs.xfs'', ''-q'', ''-f'', is_imagePath spec]
      | Btrfs \<Rightarrow> [''/usr/sbin/mkfs.btrfs'', ''-q'', ''-f'', is_imagePath spec])"

section \<open>Images\<close>

definition createImage :: "'o env \<Rightarrow> image_spec \<Rightarrow> ('o world, unit) io" where
  "createImage env spec =
     (let path = resolve (en_cwd env) (is_imagePath spec) in
      io_seq (on_fs (mkdirp (butlast path)))
        (io_seq (on_fs (io_bind (open_wplus path) close_fd))
          (io_seq (on_fs (truncate_file path (is_sizeBytes spec)))
            (run env (formatCommand spec)))))"

text \<open>\<open>mkdtempSync(stem)\<close>: the operating system picks the suffix.\<close>

definition mkdtemp :: "'o env \<Rightarrow> string \<Rightarrow> ('o world, string) io" where
  "mkdtemp env stem w =
     (let path = stem @ en_fresh env (wd_fs w) in
      on_fs (io_seq (mkdir_one (resolve (en_cwd env) path)) (io_return path)) w)"

text \<open>\<open>rmSync(p, { recursive: true, force: true })\<close>\<close>

definition rm_tree :: "segs \<Rightarrow> (fs, unit) io" where
  "rm_tree p s = (Inr (), s\<lparr>fs_nodes := filter (\<lambda>(q, _). take (length p) q \<noteq> p) (fs_nodes s)\<rparr>)"

definition mount_args :: "string option \<Rightarrow> string list" where
  "mount_args options = (case options of None \<Rightarrow> [] | Some o' \<Rightarrow> [''-o'', o'])"

definition withMount ::
    "'o env \<Rightarrow> string \<Rightarrow> (string \<Rightarrow> ('o world, 'a) io) \<Rightarrow> string option \<Rightarrow> ('o world, 'a) io" where
  "withMount env imagePath fn mountOptions =
     io_seq (on_fs (mkdirp (resolve (en_cwd env) MOUNT_ROOT)))
       (io_bind (mkdtemp env (MOUNT_ROOT @ ''/m-'')) (\<lambda>mountDir.
        io_bind (capture env [''sudo'', ''losetup'', ''--find'', ''--show'', imagePath]) (\<lambda>loopDevice.
          io_finally
            (io_seq (run env ([''sudo'', ''mount''] @ mount_args mountOptions @ [loopDevice, mountDir]))
              (io_finally
                (io_seq (run env [''sudo'', ''chmod'', ''0777'', mountDir]) (fn mountDir))
                (run env [''sudo'', ''umount'', mountDir])))
            (io_seq (run env [''sudo'', ''losetup'', ''--detach'', loopDevice])
              (on_fs (rm_tree (resolve (en_cwd env) mountDir)))))))"

record materialize_options =
  mo_spec :: image_spec
  mo_mountOptions :: "string option"
  mo_casDir :: string
  mo_rootDir :: string

definition materializeState ::
    "'o env \<Rightarrow> trace \<Rightarrow> crash_state \<Rightarrow> materialize_options \<Rightarrow> ('o world, unit) io" where
  "materializeState env trace state options =
     io_seq (createImage env (mo_spec options))
       (withMount env (is_imagePath (mo_spec options))
         (\<lambda>mountDir. on_fs (replaySelection (en_cwd env) trace
            \<lparr>ro_casDir = mo_casDir options, ro_rootDir = mo_rootDir options, ro_targetDir = mountDir\<rparr>
            \<lparr>se_persisted = cs_persisted state, se_partial = cs_partial state\<rparr>))
         (mo_mountOptions options))"

section \<open>What a statement adds to the command log\<close>

text \<open>
  \<open>logs m w l\<close>: running \<open>m\<close> in \<open>w\<close> appends exactly \<open>l\<close> to the log.
\<close>

definition logs :: "('o world, 'a) io \<Rightarrow> 'o world \<Rightarrow> (string list \<times> int) list \<Rightarrow> bool" where
  "logs m w l \<longleftrightarrow> wd_log (snd (m w)) = wd_log w @ l"

lemma logs_fs [simp]: "wd_log (snd (on_fs m w)) = wd_log w"
  by (simp add: on_fs_def split: prod.splits)

lemma logs_mkdtemp [simp]: "wd_log (snd (mkdtemp env stem w)) = wd_log w"
  by (simp add: mkdtemp_def Let_def)

lemma run_cases:
  obtains (ok) w' where "run env command w = (Inr (), w')" "wd_log w' = wd_log w @ [(command, 0)]"
  | (bad) e w' n where "run env command w = (Inl e, w')" "wd_log w' = wd_log w @ [(command, n)]" "n \<noteq> 0"
proof -
  obtain p s os where p: "en_spawn env [] command (wd_fs w, wd_os w) = (p, s, os)"
    by (metis prod_cases3)
  show ?thesis
    by (cases "pr_exit p = 0")
      (use ok bad in \<open>simp_all add: run_def spawnSync_def spawn_with_def p io_bind_def io_return_def io_throw_def\<close>)
qed

lemma capture_cases:
  obtains (ok) out w' where "capture env command w = (Inr out, w')" "wd_log w' = wd_log w @ [(command, 0)]"
  | (bad) e w' n where "capture env command w = (Inl e, w')" "wd_log w' = wd_log w @ [(command, n)]" "n \<noteq> 0"
proof -
  obtain p s os where p: "en_spawn env [] command (wd_fs w, wd_os w) = (p, s, os)"
    by (metis prod_cases3)
  show ?thesis
    by (cases "pr_exit p = 0")
      (use ok bad in \<open>simp_all add: capture_def spawnSync_def spawn_with_def p io_bind_def io_return_def io_throw_def\<close>)
qed

section \<open>Mounting is bracketed\<close>

definition attach_command :: "string \<Rightarrow> string list" where
  "attach_command imagePath = [''sudo'', ''losetup'', ''--find'', ''--show'', imagePath]"

definition mount_command :: "string option \<Rightarrow> string \<Rightarrow> string \<Rightarrow> string list" where
  "mount_command options loopDevice mountDir =
     [''sudo'', ''mount''] @ mount_args options @ [loopDevice, mountDir]"

definition umount_command :: "string \<Rightarrow> string list" where
  "umount_command mountDir = [''sudo'', ''umount'', mountDir]"

definition detach_command :: "string \<Rightarrow> string list" where
  "detach_command loopDevice = [''sudo'', ''losetup'', ''--detach'', loopDevice]"

text \<open>The commands between attaching and detaching: a failed mount, or a mount undone at the end.\<close>

definition mount_session ::
    "string option \<Rightarrow> string \<Rightarrow> string \<Rightarrow> bool \<Rightarrow> (string list \<times> int) list \<Rightarrow> bool" where
  "mount_session options loopDevice mountDir ok session \<longleftrightarrow>
     (\<not> ok \<and> (\<exists>n. n \<noteq> 0 \<and> session = [(mount_command options loopDevice mountDir, n)]))
     \<or> (\<exists>k inner u. session = (mount_command options loopDevice mountDir, 0)
          # ([''sudo'', ''chmod'', ''0777'', mountDir], k) # inner @ [(umount_command mountDir, u)]
          \<and> (ok \<longrightarrow> k = 0 \<and> u = 0))"

text \<open>The part between \<open>try\<close> and the outer \<open>finally\<close>.\<close>

definition mounted ::
    "'o env \<Rightarrow> string option \<Rightarrow> string \<Rightarrow> string \<Rightarrow> (string \<Rightarrow> ('o world, 'a) io) \<Rightarrow> ('o world, 'a) io" where
  "mounted env options loopDevice mountDir fn =
     io_seq (run env (mount_command options loopDevice mountDir))
       (io_finally
         (io_seq (run env [''sudo'', ''chmod'', ''0777'', mountDir]) (fn mountDir))
         (run env (umount_command mountDir)))"

lemma mounted_session:
  assumes "\<And>w. \<exists>l. logs (fn mountDir) w l"
  obtains session where "logs (mounted env options loopDevice mountDir fn) w session"
    "mount_session options loopDevice mountDir
       (\<exists>x. fst (mounted env options loopDevice mountDir fn w) = Inr x) session"
proof (cases rule: run_cases [of env "mount_command options loopDevice mountDir" w])
  case (bad e w1 n)
  then show ?thesis
    using that [of "[(mount_command options loopDevice mountDir, n)]"]
    by (simp add: mounted_def io_seq_def io_bind_def logs_def mount_session_def)
next
  case (ok w1)
  let ?chmod = "[''sudo'', ''chmod'', ''0777'', mountDir]"
  obtain r2 w2 k inner where body: "io_seq (run env ?chmod) (fn mountDir) w1 = (r2, w2)"
    "wd_log w2 = wd_log w1 @ (?chmod, k) # inner" "(\<exists>x. r2 = Inr x) \<longrightarrow> k = 0"
  proof (cases rule: run_cases [of env ?chmod w1])
    case (bad e w2 n)
    then show ?thesis using that [of "Inl e" w2 n "[]"] by (simp add: io_seq_def io_bind_def)
  next
    case (ok w2)
    obtain l where l: "wd_log (snd (fn mountDir w2)) = wd_log w2 @ l"
      using assms [of w2] by (auto simp: logs_def)
    then show ?thesis
      using ok that [of "fst (fn mountDir w2)" "snd (fn mountDir w2)" 0 l]
      by (simp add: io_seq_def io_bind_def)
  qed
  obtain r3 w3 u where un: "run env (umount_command mountDir) w2 = (r3, w3)"
    "wd_log w3 = wd_log w2 @ [(umount_command mountDir, u)]" "(\<exists>x. r3 = Inr x) \<longrightarrow> u = 0"
    by (cases rule: run_cases [of env "umount_command mountDir" w2]) auto
  have all: "mounted env options loopDevice mountDir fn w
      = ((case r3 of Inl e \<Rightarrow> Inl e | Inr _ \<Rightarrow> r2), w3)"
    using ok body(1) un(1)
    by (simp add: mounted_def io_seq_def io_bind_def io_finally_def split: sum.splits)
  show ?thesis
  proof (rule that)
    show "logs (mounted env options loopDevice mountDir fn) w
        ((mount_command options loopDevice mountDir, 0) # (?chmod, k) # inner @ [(umount_command mountDir, u)])"
      using ok body(2) un(2) by (simp add: logs_def all)
    show "mount_session options loopDevice mountDir
        (\<exists>x. fst (mounted env options loopDevice mountDir fn w) = Inr x)
        ((mount_command options loopDevice mountDir, 0) # (?chmod, k) # inner @ [(umount_command mountDir, u)])"
      using body(3) un(3) by (auto simp: mount_session_def all split: sum.splits)
  qed
qed

lemma withMount_eq:
  "withMount env imagePath fn options =
     io_seq (on_fs (mkdirp (resolve (en_cwd env) MOUNT_ROOT)))
       (io_bind (mkdtemp env (MOUNT_ROOT @ ''/m-'')) (\<lambda>mountDir.
        io_bind (capture env (attach_command imagePath)) (\<lambda>loopDevice.
          io_finally (mounted env options loopDevice mountDir fn)
            (io_seq (run env (detach_command loopDevice))
              (on_fs (rm_tree (resolve (en_cwd env) mountDir)))))))"
  unfolding withMount_def mounted_def attach_command_def mount_command_def umount_command_def
    detach_command_def ..

section \<open>Property\<close>

text \<open>C18: mounting is bracketed whatever the programs and the callback do. Either nothing was attached, or
  the commands run are the attach, a session that is a failed mount or a mount followed by its
  unmount after the callback, and the detach of that very device; and the call returns a value only
  if mount, unmount and detach all succeeded.\<close>

theorem withMount_bracket:
  assumes "\<And>dir w. \<exists>l. logs (fn dir) w l"
  shows "\<exists>added. logs (withMount env imagePath fn options) w added
    \<and> (let returned = (\<exists>x. fst (withMount env imagePath fn options w) = Inr x) in
       (\<not> returned \<and> (added = [] \<or> (\<exists>n. n \<noteq> 0 \<and> added = [(attach_command imagePath, n)])))
       \<or> (\<exists>loopDevice mountDir ok session n.
            added = (attach_command imagePath, 0) # session @ [(detach_command loopDevice, n)]
            \<and> mount_session options loopDevice mountDir ok session \<and> (returned \<longrightarrow> ok \<and> n = 0)))"
proof -
  let ?m = "withMount env imagePath fn options"
  obtain r0 w0 where w0: "on_fs (mkdirp (resolve (en_cwd env) MOUNT_ROOT)) w = (r0, w0)"
    by (metis prod.exhaust)
  have log0: "wd_log w0 = wd_log w"
    using w0 logs_fs [of "mkdirp (resolve (en_cwd env) MOUNT_ROOT)" w] by simp
  obtain r1 w1 where w1: "mkdtemp env (MOUNT_ROOT @ ''/m-'') w0 = (r1, w1)"
    by (metis prod.exhaust)
  have log1: "wd_log w1 = wd_log w"
    using w1 log0 logs_mkdtemp [of env "MOUNT_ROOT @ ''/m-''" w0] by simp
  show ?thesis
  proof (cases r0)
    case (Inl e)
    then have "?m w = (Inl e, w0)"
      by (simp add: withMount_eq io_seq_def io_bind_def w0)
    with log0 show ?thesis by (intro exI [of _ "[]"]) (simp add: logs_def)
  next
    case r0: (Inr x)
    show ?thesis
    proof (cases r1)
      case (Inl e)
      then have "?m w = (Inl e, w1)"
        using r0 by (simp add: withMount_eq io_seq_def io_bind_def w0 w1)
      with log1 show ?thesis by (intro exI [of _ "[]"]) (simp add: logs_def)
    next
      case r1: (Inr mountDir)
      show ?thesis
      proof (cases rule: capture_cases [of env "attach_command imagePath" w1])
        case (bad e w2 n)
        then have "?m w = (Inl e, w2)"
          using r0 r1 by (simp add: withMount_eq io_seq_def io_bind_def w0 w1)
        with bad log1 show ?thesis
          by (intro exI [of _ "[(attach_command imagePath, n)]"]) (simp add: logs_def)
      next
        case (ok loopDevice w2)
        obtain session where session: "logs (mounted env options loopDevice mountDir fn) w2 session"
          "mount_session options loopDevice mountDir
             (\<exists>x. fst (mounted env options loopDevice mountDir fn w2) = Inr x) session"
          using mounted_session [of fn mountDir env options loopDevice w2] assms by blast
        let ?fin = "io_seq (run env (detach_command loopDevice))
            (on_fs (rm_tree (resolve (en_cwd env) mountDir)))"
        obtain r3 w3 where w3: "mounted env options loopDevice mountDir fn w2 = (r3, w3)"
          by (metis prod.exhaust)
        obtain r4 w4 n where w4: "?fin w3 = (r4, w4)"
          "wd_log w4 = wd_log w3 @ [(detach_command loopDevice, n)]" "(\<exists>x. r4 = Inr x) \<longrightarrow> n = 0"
        proof (cases rule: run_cases [of env "detach_command loopDevice" w3])
          case (ok w5)
          then show ?thesis
            using that [of "fst (on_fs (rm_tree (resolve (en_cwd env) mountDir)) w5)"
                "snd (on_fs (rm_tree (resolve (en_cwd env) mountDir)) w5)" 0]
            by (simp add: io_seq_def io_bind_def)
        next
          case (bad e w5 n)
          then show ?thesis
            using that [of "Inl e" w5 n] by (simp add: io_seq_def io_bind_def)
        qed
        have all: "?m w = ((case r4 of Inl e \<Rightarrow> Inl e | Inr _ \<Rightarrow> r3), w4)"
          using r0 r1 ok w3 w4(1)
          by (simp add: withMount_eq io_seq_def io_bind_def io_finally_def w0 w1 split: sum.splits)
        have "logs ?m w ((attach_command imagePath, 0) # session @ [(detach_command loopDevice, n)])"
          using session(1) ok log1 w3 w4(2) by (simp add: logs_def all)
        moreover have "(\<exists>x. fst (?m w) = Inr x) \<longrightarrow> (\<exists>x. r3 = Inr x) \<and> n = 0"
          using w4(3) by (auto simp: all split: sum.splits)
        ultimately show ?thesis
          using session(2) unfolding w3 fst_conv Let_def by blast
      qed
    qed
  qed
qed

text \<open>A machine on which every program succeeds.\<close>

definition idle_env :: "unit env" where
  "idle_env = \<lparr>en_spawn = (\<lambda>vars command s. (\<lparr>pr_pid = 1, pr_exit = 0, pr_stdout = ''/dev/loop0'', pr_stderr = ''''\<rparr>, s)),
     en_cwd = ''/'', en_fresh = (\<lambda>s. ''x'')\<rparr>"

definition empty_world :: "unit world" where
  "empty_world = \<lparr>wd_fs = \<lparr>fs_nodes = [], fs_inodes = [], fs_next = 0\<rparr>, wd_os = (), wd_log = []\<rparr>"

lemma withMount_bracket_witness:
  "\<exists>loopDevice mountDir ok session n.
     wd_log (snd (withMount idle_env ''a.img'' (\<lambda>dir. io_return dir) None empty_world))
     = (attach_command ''a.img'', 0) # session @ [(detach_command loopDevice, n)]
     \<and> mount_session None loopDevice mountDir ok session \<and> ok \<and> n = 0"
proof -
  have "\<exists>l. logs (io_return dir) w l" for dir and w :: "unit world"
    by (intro exI [of _ "[]"]) (simp add: logs_def io_return_def)
  moreover have "\<exists>x. fst (withMount idle_env ''a.img'' (\<lambda>dir. io_return dir) None empty_world) = Inr x"
    by (rule exI [of _ "''/var/lib/crashfuzz/mnt/m-x''"]) code_simp
  moreover have "wd_log empty_world = []" by (simp add: empty_world_def)
  ultimately show ?thesis
    using withMount_bracket [of "\<lambda>dir. io_return dir" idle_env "''a.img''" None empty_world]
    unfolding logs_def Let_def by auto
qed

end
