(* ===== verification/Targets.thy ===== *)
theory Targets
  imports Image
begin

text \<open>
  \<open>core/src/campaign/targets.ts\<close>: where the binaries of the primary target are and how they are built.
  \<open>repoRoot\<close> stands for \<open>REPO_ROOT\<close>, which the code derives from the location of its own file.
\<close>

definition CARGO_TARGET_DIR :: string where
  "CARGO_TARGET_DIR = ''/var/lib/crashfuzz/cargo-target''"

text \<open>\<open>join(dir, part, ...)\<close> normalises the parts joined by slashes.\<close>

definition path_join_all :: "string \<Rightarrow> string list \<Rightarrow> string" where
  "path_join_all dir parts = path_join dir (join ''/'' parts)"

definition redbBinary :: "string \<Rightarrow> string" where
  "redbBinary name = path_join_all CARGO_TARGET_DIR [''release'', name]"

definition buildRedbWorkload :: "'o env \<Rightarrow> string \<Rightarrow> ('o world, unit) io" where
  "buildRedbWorkload env repoRoot =
     io_bind (spawn_with env [(''CARGO_TARGET_DIR'', CARGO_TARGET_DIR)]
         [''cargo'', ''build'', ''--release'', ''--manifest-path'',
          path_join_all repoRoot [''targets'', ''redb-workload'', ''Cargo.toml'']])
       (\<lambda>build. if pr_exit build \<noteq> 0
          then io_throw (Error (''building redb-workload failed: '' @ pr_stderr build))
          else io_return ())"

lemma redbBinary_query: "redbBinary ''redb-query'' = ''/var/lib/crashfuzz/cargo-target/release/redb-query''"
  by code_simp

end
