(* ===== verification/Sha256.thy ===== *)
theory Sha256
  imports FileSystem JsNumeric
begin

unbundle bit_operations_syntax

text \<open>
  \<open>createHash('sha256')\<close> of \<open>node:crypto\<close>, by FIPS 180-4: the digest of a byte sequence as 64
  hexadecimal digits. Recovery of the file store digests every file with it.
\<close>

type_synonym w32 = "32 word"

definition round_constants :: "w32 list" where
  "round_constants =
   [1116352408, 1899447441, 3049323471, 3921009573, 961987163, 1508970993, 2453635748, 2870763221,
    3624381080, 310598401, 607225278, 1426881987, 1925078388, 2162078206, 2614888103, 3248222580,
    3835390401, 4022224774, 264347078, 604807628, 770255983, 1249150122, 1555081692, 1996064986,
    2554220882, 2821834349, 2952996808, 3210313671, 3336571891, 3584528711, 113926993, 338241895,
    666307205, 773529912, 1294757372, 1396182291, 1695183700, 1986661051, 2177026350, 2456956037,
    2730485921, 2820302411, 3259730800, 3345764771, 3516065817, 3600352804, 4094571909, 275423344,
    430227734, 506948616, 659060556, 883997877, 958139571, 1322822218, 1537002063, 1747873779,
    1955562222, 2024104815, 2227730452, 2361852424, 2428436474, 2756734187, 3204031479, 3329325298]"

definition initial_hash :: "w32 list" where
  "initial_hash =
   [1779033703, 3144134277, 1013904242, 2773480762, 1359893119, 2600822924, 528734635, 1541459225]"

text \<open>
  The standard defines the tables by the first 32 fractional bits of roots of the first primes: cube roots
  for the rounds, square roots for the initial value.
\<close>

definition first_primes :: "int list" where
  "first_primes =
   [2, 3, 5, 7, 11, 13, 17, 19,
    23, 29, 31, 37, 41, 43, 47, 53,
    59, 61, 67, 71, 73, 79, 83, 89,
    97, 101, 103, 107, 109, 113, 127, 131,
    137, 139, 149, 151, 157, 163, 167, 173,
    179, 181, 191, 193, 197, 199, 211, 223,
    227, 229, 233, 239, 241, 251, 257, 263,
    269, 271, 277, 281, 283, 293, 307, 311]"

definition root_bits :: "nat \<Rightarrow> int \<Rightarrow> w32 \<Rightarrow> bool" where
  "root_bits k p c \<longleftrightarrow>
     list_ex (\<lambda>whole. (whole * 2 ^ 32 + uint c) ^ k \<le> p * 2 ^ (32 * k)
       \<and> p * 2 ^ (32 * k) < (whole * 2 ^ 32 + uint c + 1) ^ k) [1..20]"

lemma round_constants_roots: "list_all2 (root_bits 3) first_primes round_constants"
  by code_simp

lemma initial_hash_roots: "list_all2 (root_bits 2) (take 8 first_primes) initial_hash"
  by code_simp

definition rotr :: "nat \<Rightarrow> w32 \<Rightarrow> w32" where
  "rotr n x = (drop_bit n x OR push_bit (32 - n) x)"

definition small_sigma0 :: "w32 \<Rightarrow> w32" where
  "small_sigma0 x = (rotr 7 x XOR rotr 18 x XOR drop_bit 3 x)"

definition small_sigma1 :: "w32 \<Rightarrow> w32" where
  "small_sigma1 x = (rotr 17 x XOR rotr 19 x XOR drop_bit 10 x)"

definition big_sigma0 :: "w32 \<Rightarrow> w32" where
  "big_sigma0 x = (rotr 2 x XOR rotr 13 x XOR rotr 22 x)"

definition big_sigma1 :: "w32 \<Rightarrow> w32" where
  "big_sigma1 x = (rotr 6 x XOR rotr 11 x XOR rotr 25 x)"

definition choose_bits :: "w32 \<Rightarrow> w32 \<Rightarrow> w32 \<Rightarrow> w32" where
  "choose_bits x y z = ((x AND y) XOR (NOT x AND z))"

definition majority :: "w32 \<Rightarrow> w32 \<Rightarrow> w32 \<Rightarrow> w32" where
  "majority x y z = ((x AND y) XOR (x AND z) XOR (y AND z))"

section \<open>Padding and blocks\<close>

definition big_endian :: "64 word \<Rightarrow> byte list" where
  "big_endian v = map (\<lambda>i. ucast (drop_bit (8 * (7 - i)) v)) [0..<8]"

definition pad :: "byte list \<Rightarrow> byte list" where
  "pad m = m @ 0x80 # replicate ((119 - length m mod 64) mod 64) 0 @ big_endian (word_of_nat (8 * length m))"

fun words_of :: "byte list \<Rightarrow> w32 list" where
  "words_of (a # b # c # d # rest) =
     (push_bit 24 (ucast a) OR push_bit 16 (ucast b) OR push_bit 8 (ucast c) OR ucast d) # words_of rest"
| "words_of _ = []"

text \<open>The message schedule, kept in reverse: the last sixteen words are at the front.\<close>

definition extend :: "w32 list \<Rightarrow> w32 list" where
  "extend ws = (small_sigma1 (ws ! 1) + ws ! 6 + small_sigma0 (ws ! 14) + ws ! 15) # ws"

definition schedule :: "w32 list \<Rightarrow> w32 list" where
  "schedule block = rev ((extend ^^ 48) (rev block))"

fun sha_round :: "w32 list \<Rightarrow> w32 \<times> w32 \<Rightarrow> w32 list" where
  "sha_round [a, b, c, d, e, f, g, h] (k, w) =
     (let t1 = h + big_sigma1 e + choose_bits e f g + k + w;
          t2 = big_sigma0 a + majority a b c
      in [t1 + t2, a, b, c, d + t1, e, f, g])"
| "sha_round v _ = v"

definition compress :: "w32 list \<Rightarrow> w32 list \<Rightarrow> w32 list" where
  "compress hash block = map2 (+) hash (foldl sha_round hash (zip round_constants (schedule block)))"

fun hash_blocks :: "nat \<Rightarrow> w32 list \<Rightarrow> w32 list \<Rightarrow> w32 list" where
  "hash_blocks 0 hash ws = hash"
| "hash_blocks (Suc n) hash ws = hash_blocks n (compress hash (take 16 ws)) (drop 16 ws)"

section \<open>Digest\<close>

definition word_hex :: "w32 \<Rightarrow> string" where
  "word_hex x = map (\<lambda>i. hex_digit (unat (take_bit 4 (drop_bit (4 * (7 - i)) x)))) [0..<8]"

definition sha256 :: "byte list \<Rightarrow> string" where
  "sha256 m = (let p = pad m in
     concat (map word_hex (hash_blocks (length p div 64) initial_hash (words_of p))))"

section \<open>Shape\<close>

text \<open>The padding fills whole blocks, every round keeps eight words, and a digest is 64 hexadecimal digits.\<close>

lemma length_pad: "length (pad m) mod 64 = 0" "0 < length (pad m) div 64"
proof -
  let ?r = "length m mod 64"
  have "length (pad m) = length m + 9 + (119 - ?r) mod 64"
    by (simp add: pad_def big_endian_def)
  moreover have "(length m + 9 + (119 - ?r) mod 64) mod 64 = 0"
  proof -
    obtain k where k: "length m = 64 * k + ?r" by (metis mult_div_mod_eq)
    have "(119 - ?r) mod 64 = (if ?r \<le> 55 then 55 - ?r else 119 - ?r)"
    proof (cases "?r \<le> 55")
      case True
      then have "(119 - ?r) mod 64 = (64 + (55 - ?r)) mod 64" by simp
      also have "\<dots> = (55 - ?r) mod 64" by (rule mod_add_self1)
      also have "\<dots> = 55 - ?r" by (rule mod_less) linarith
      finally show ?thesis using True by simp
    qed simp
    moreover have "?r < 64" by simp
    ultimately have "length m + 9 + (119 - ?r) mod 64 = 64 * (if ?r \<le> 55 then k + 1 else k + 2)"
      using k by (auto split: if_splits)
    then show ?thesis by simp
  qed
  ultimately show m: "length (pad m) mod 64 = 0" by simp
  have "0 < length (pad m)" by (simp add: pad_def)
  with m show "0 < length (pad m) div 64" by (metis div_mult_mod_eq add.right_neutral gr0I mult_is_0)
qed

lemma sha_round_length: "length (sha_round v kw) = length v"
  by (cases "(v, kw)" rule: sha_round.cases) (simp_all add: Let_def)

lemma compress_length:
  assumes "length hash = 8"
  shows "length (compress hash block) = 8"
proof -
  have "length (foldl sha_round v xs) = length v" for v xs
    by (induction xs arbitrary: v) (simp_all add: sha_round_length)
  with assms show ?thesis by (simp add: compress_def)
qed

lemma hash_blocks_length: "length hash = 8 \<Longrightarrow> length (hash_blocks n hash ws) = 8"
  by (induction n hash ws rule: hash_blocks.induct) (simp_all add: compress_length)

lemma sha256_length: "length (sha256 m) = 64"
proof -
  have hex: "length (concat (map word_hex ws)) = 8 * length ws" for ws
    by (induction ws) (simp_all add: word_hex_def)
  have "length initial_hash = 8" by (simp add: initial_hash_def)
  then show ?thesis
    unfolding sha256_def Let_def hex
    by (subst hash_blocks_length) simp_all
qed

definition is_hex :: "char \<Rightarrow> bool" where
  "is_hex c \<longleftrightarrow> is_digit c \<or> (97 \<le> char_code c \<and> char_code c \<le> 102)"

lemma hex_digit_is_hex:
  assumes "d < 16"
  shows "is_hex (hex_digit d)"
  using assms by (simp add: is_hex_def is_digit_def char_code_def hex_digit_def of_char_of)

lemma sha256_hex: "c \<in> set (sha256 m) \<Longrightarrow> is_hex c"
proof -
  assume "c \<in> set (sha256 m)"
  then obtain x i where c: "c = hex_digit (unat (take_bit 4 (drop_bit (4 * (7 - i)) (x :: w32))))"
    by (auto simp: sha256_def Let_def word_hex_def)
  have "unat (take_bit 4 (y :: w32)) < 16" for y
    by (simp add: unsigned_take_bit_eq take_bit_nat_def)
  then show ?thesis unfolding c by (rule hex_digit_is_hex)
qed

end
