(* ===== verification/Recover.thy ===== *)
theory Recover
  imports Targets Oracle Sha256
begin

text \<open>
  \<open>core/src/oracle/recover.ts\<close>: what the oracle gets to see of a mounted image. The query tools of the
  targets are run through \<open>en_spawn\<close>; the file store of the positive control is read directly.
\<close>

section \<open>Query tools\<close>

definition existsSync :: "segs \<Rightarrow> (fs, bool) io" where
  "existsSync p s = (Inr (walk_error s p = None \<and> fs_lookup s p \<noteq> None), s)"

definition starts_with :: "string \<Rightarrow> string \<Rightarrow> bool" where
  "starts_with p s \<longleftrightarrow> take (length p) s = p"

definition INTEGRITY :: string where
  "INTEGRITY = ''integrity=''"

text \<open>One line of the report: the flag and the values read so far.\<close>

definition report_line :: "bool \<times> (string, string) js_map \<Rightarrow> string \<Rightarrow> bool \<times> (string, string) js_map" where
  "report_line acc line =
     (case acc of (ok, vals) \<Rightarrow>
        if line = '''' then (ok, vals)
        else if starts_with INTEGRITY line then (drop (length INTEGRITY) line = ''ok'', vals)
        else (case split_on (CHR '' '') line of
            key # digest # _ \<Rightarrow> (ok, map_set key digest vals)
          | _ \<Rightarrow> (ok, vals)))"

definition read_report :: "string \<Rightarrow> bool \<times> (string, string) js_map" where
  "read_report stdout = foldl report_line (False, map_empty) (split_on NL stdout)"

definition query_result :: "process \<Rightarrow> recovery_result" where
  "query_result p =
     (let stderr = trim (pr_stderr p) in
      if pr_exit p \<noteq> 0
      then Failed (if stderr \<noteq> '''' then stderr else ''query exited '' @ int_string (pr_exit p))
      else (case read_report (pr_stdout p) of (ok, vals) \<Rightarrow>
          Opened ok vals (if stderr \<noteq> '''' then Some stderr else None)))"

definition queryTarget :: "'o env \<Rightarrow> string \<Rightarrow> string \<Rightarrow> string \<Rightarrow> ('o world, recovery_result) io" where
  "queryTarget env binary dbPath absentDetail =
     io_bind (on_fs (existsSync (resolve (en_cwd env) dbPath))) (\<lambda>there.
       if \<not> there then io_return (Opened True map_empty (Some absentDetail))
       else io_bind (spawnSync env [binary, dbPath]) (\<lambda>p. io_return (query_result p)))"

definition recoverRedb :: "'o env \<Rightarrow> string \<Rightarrow> ('o world, recovery_result) io" where
  "recoverRedb env dbPath =
     queryTarget env (redbBinary ''redb-query'') dbPath ''database file absent at this crash point''"

text \<open>\<open>moduleDir\<close> is \<open>import.meta.dir\<close>, the directory of the source file.\<close>

definition SQLITE_QUERY_TOOL :: "string \<Rightarrow> string" where
  "SQLITE_QUERY_TOOL moduleDir = path_join_all moduleDir
     [''..'', ''..'', ''..'', ''targets'', ''sqlite-workload'', ''build'', ''sqlite-query'']"

definition recoverSqlite :: "'o env \<Rightarrow> string \<Rightarrow> string \<Rightarrow> ('o world, recovery_result) io" where
  "recoverSqlite env moduleDir dbPath =
     queryTarget env (SQLITE_QUERY_TOOL moduleDir) dbPath ''database file absent at this crash point''"

section \<open>The file store\<close>

text \<open>\<open>readdirSync(dir, { withFileTypes: true })\<close>: the entries of a directory with their kinds.\<close>

definition entry_names :: "fs \<Rightarrow> segs \<Rightarrow> string list" where
  "entry_names s d = set_of_list (List.map_filter (\<lambda>(q, n).
     if q \<noteq> [] \<and> butlast q = d then Some (List.last q) else None) (fs_nodes s))"

definition dir_entries :: "fs \<Rightarrow> segs \<Rightarrow> (string \<times> node) list" where
  "dir_entries s d = List.map_filter (\<lambda>name.
     case fs_lookup s (d @ [name]) of None \<Rightarrow> None | Some n \<Rightarrow> Some (name, n)) (entry_names s d)"

definition readdirSync :: "segs \<Rightarrow> (fs, (string \<times> node) list) io" where
  "readdirSync d = with_node d (\<lambda>n s. case n of
       Some Dir \<Rightarrow> (Inr (dir_entries s d), s)
     | Some (File _) \<Rightarrow> sys_error ENOTDIR s | None \<Rightarrow> sys_error ENOENT s)"

definition ends_with :: "string \<Rightarrow> string \<Rightarrow> bool" where
  "ends_with p s \<longleftrightarrow> length p \<le> length s \<and> drop (length s - length p) s = p"

definition is_value_file :: "string \<times> node \<Rightarrow> bool" where
  "is_value_file entry \<longleftrightarrow>
     (case entry of (name, n) \<Rightarrow>
        (case n of File _ \<Rightarrow> True | Dir \<Rightarrow> False)
        \<and> \<not> (ends_with ''.tmp'' name \<or> name = ''crashfuzz.marker''))"

definition recoverFileKv :: "string \<Rightarrow> string \<Rightarrow> (fs, recovery_result) io" where
  "recoverFileKv cwd mountDir =
     io_bind (readdirSync (resolve cwd mountDir)) (\<lambda>entries.
     io_bind (io_fold (\<lambda>entry vals.
          if \<not> is_value_file entry then io_return vals
          else io_bind (read_file (resolve cwd (path_join mountDir (fst entry)))) (\<lambda>bs.
            io_return (map_set (fst entry) (sha256 bs) vals)))
        map_empty entries) (\<lambda>vals.
     io_return (Opened True vals None)))"

section \<open>Reading a report\<close>















end
