(* ===== verification/Json.thy ===== *)
theory Json
  imports JsCollections JsNumeric
begin

text \<open>
  \<open>JSON.parse\<close>: a lexer and a push-down machine over its tokens, total by construction. Strings hold
  code units below 256; an escape for a larger one is outside the model (\<open>IllTyped\<close>). A number is
  rounded to a double, \<open>None\<close> standing for an infinity.
\<close>

datatype json =
    JNull
  | JBool bool
  | JNum "rat option"
  | JString string
  | JArray "json list"
  | JObject "(string, json) js_map"

datatype token = LBrace | RBrace | LBracket | RBracket | Colon | Comma | Val json

section \<open>Lexer\<close>

definition json_space :: "char \<Rightarrow> bool" where
  "json_space c \<longleftrightarrow> c = CHR '' '' \<or> char_code c = 9 \<or> char_code c = 10 \<or> char_code c = 13"

definition quote :: char where
  "quote = CHR 0x22"

definition backslash :: char where
  "backslash = CHR 0x5C"

definition simple_escape :: "char \<Rightarrow> char option" where
  "simple_escape c =
     (if c = quote \<or> c = backslash \<or> c = CHR ''/'' then Some c
      else if c = CHR ''b'' then Some (CHR 0x08)
      else if c = CHR ''f'' then Some (CHR 0x0C)
      else if c = CHR ''n'' then Some (CHR 0x0A)
      else if c = CHR ''r'' then Some (CHR 0x0D)
      else if c = CHR ''t'' then Some (CHR 0x09)
      else None)"

definition cons_char :: "char \<Rightarrow> (string \<times> string) result \<Rightarrow> (string \<times> string) result" where
  "cons_char c r = (case r of Inl e \<Rightarrow> Inl e | Inr (s, rest) \<Rightarrow> Inr (c # s, rest))"

text \<open>The text after a backslash: the character it stands for and what follows.\<close>

definition unescape :: "string \<Rightarrow> (char \<times> string) result" where
  "unescape r =
     (case r of
        [] \<Rightarrow> Inl SyntaxError
      | e # r' \<Rightarrow>
          (case simple_escape e of
             Some d \<Rightarrow> Inr (d, r')
           | None \<Rightarrow>
               (case r' of
                  h1 # h2 # h3 # h4 # r'' \<Rightarrow>
                    if e = CHR ''u'' \<and> list_all (\<lambda>h. radix_digit h < 16) [h1, h2, h3, h4]
                    then let code = foldl (\<lambda>n h. 16 * n + radix_digit h) 0 [h1, h2, h3, h4]
                         in if 256 \<le> code then Inl IllTyped else Inr (char_of code, r'')
                    else Inl SyntaxError
                | _ \<Rightarrow> Inl SyntaxError)))"

lemma unescape_shorter: "unescape r = Inr (c, r') \<Longrightarrow> length r' < length r"
  by (auto simp: unescape_def Let_def split: list.splits option.splits if_splits)

text \<open>The rest of a string literal after its opening quote.\<close>

function scan_string :: "string \<Rightarrow> (string \<times> string) result" where
  "scan_string [] = Inl SyntaxError"
| "scan_string (c # r) =
     (if c = quote then Inr ([], r)
      else if c = backslash
      then (case unescape r of Inl e \<Rightarrow> Inl e | Inr (d, r') \<Rightarrow> cons_char d (scan_string r'))
      else if char_code c < 32 then Inl SyntaxError
      else cons_char c (scan_string r))"
  by pat_completeness auto
termination
  by (relation "measure length") (auto dest: unescape_shorter)

lemma cons_char_Inr: "cons_char c x = Inr (w, r) \<longleftrightarrow> (\<exists>v. w = c # v \<and> x = Inr (v, r))"
  by (auto simp: cons_char_def split: sum.splits)

definition number_char :: "char \<Rightarrow> bool" where
  "number_char c \<longleftrightarrow> is_digit c \<or> c \<in> {CHR ''-'', CHR ''+'', CHR ''.'', CHR ''e'', CHR ''E''}"

text \<open>The JSON number grammar is the decimal grammar without leading zeros, bare points and a plus.\<close>

definition json_number :: "string \<Rightarrow> json result" where
  "json_number s =
     (let body = (if starts_char (CHR ''-'') s then tl s else s);
          ip = takeWhile is_digit body; r = dropWhile is_digit body in
      if ip = [] \<or> (starts_char (CHR ''0'') ip \<and> ip \<noteq> ''0'')
         \<or> (starts_char (CHR ''.'') r \<and> takeWhile is_digit (tl r) = [])
      then Inl SyntaxError
      else (case parse_unsigned_decimal body of
          None \<Rightarrow> Inl SyntaxError
        | Some v \<Rightarrow> Inr (JNum (double_of_rat (if starts_char (CHR ''-'') s then - v else v)))))"

definition is_lower :: "char \<Rightarrow> bool" where
  "is_lower c \<longleftrightarrow> 97 \<le> char_code c \<and> char_code c \<le> 122"

definition json_word :: "string \<Rightarrow> json result" where
  "json_word w =
     (if w = ''true'' then Inr (JBool True) else if w = ''false'' then Inr (JBool False)
      else if w = ''null'' then Inr JNull else Inl SyntaxError)"

definition punctuation :: "char \<Rightarrow> token option" where
  "punctuation c =
     (if c = CHR ''{'' then Some LBrace else if c = CHR ''}'' then Some RBrace
      else if c = CHR ''['' then Some LBracket else if c = CHR '']'' then Some RBracket
      else if c = CHR '':'' then Some Colon else if c = CHR '','' then Some Comma else None)"

definition cons_token :: "token \<Rightarrow> token list result \<Rightarrow> token list result" where
  "cons_token t r = (case r of Inl e \<Rightarrow> Inl e | Inr ts \<Rightarrow> Inr (t # ts))"

lemma scan_string_shorter: "scan_string s = Inr (w, r) \<Longrightarrow> length r < length s"
proof (induction s arbitrary: w r rule: scan_string.induct)
  case (2 c s)
  show ?case
  proof (cases "c = backslash")
    case True
    with 2(3) obtain d r' v where r': "unescape s = Inr (d, r')" "scan_string r' = Inr (v, r)"
      by (auto simp: cons_char_Inr backslash_def quote_def split: sum.splits prod.splits)
    moreover have "c \<noteq> quote" using True by (simp add: backslash_def quote_def)
    ultimately have "length r < length r'"
      using 2(1) True by blast
    with unescape_shorter [OF r'(1)] show ?thesis by simp
  next
    case False
    then show ?thesis
      using 2(2,3) by (fastforce simp: cons_char_Inr split: if_splits)
  qed
qed simp

function lex :: "string \<Rightarrow> token list result" where
  "lex [] = Inr []"
| "lex (c # r) =
     (if json_space c then lex r
      else (case punctuation c of
          Some t \<Rightarrow> cons_token t (lex r)
        | None \<Rightarrow>
            if c = quote
            then (case scan_string r of
                Inl e \<Rightarrow> Inl e
              | Inr (s, r') \<Rightarrow> cons_token (Val (JString s)) (lex r'))
            else if c = CHR ''-'' \<or> is_digit c
            then (case json_number (takeWhile number_char (c # r)) of
                Inl e \<Rightarrow> Inl e
              | Inr v \<Rightarrow> cons_token (Val v) (lex (dropWhile number_char r)))
            else (case json_word (c # takeWhile is_lower r) of
                Inl e \<Rightarrow> Inl e
              | Inr v \<Rightarrow> cons_token (Val v) (lex (dropWhile is_lower r)))))"
  by pat_completeness auto
termination
  by (relation "measure length")
    (auto dest: scan_string_shorter intro: le_imp_less_Suc length_dropWhile_le)

section \<open>Parser\<close>

text \<open>Open arrays and objects; an object may wait for the value of a key.\<close>

datatype frame = FArray "json list" | FObject "(string, json) js_map" | FMember "(string, json) js_map" string

datatype phase = NeedValue | FirstElement | FirstKey | NeedKey | NeedColon string | HaveValue json

type_synonym parser_state = "frame list \<times> phase"

definition start_value :: "frame list \<Rightarrow> token \<Rightarrow> parser_state option" where
  "start_value stack t =
     (case t of Val v \<Rightarrow> Some (stack, HaveValue v)
      | LBracket \<Rightarrow> Some (FArray [] # stack, FirstElement)
      | LBrace \<Rightarrow> Some (FObject map_empty # stack, FirstKey)
      | _ \<Rightarrow> None)"

fun parse_step :: "parser_state \<Rightarrow> token \<Rightarrow> parser_state option" where
  "parse_step (stack, NeedValue) t = start_value stack t"
| "parse_step (stack, FirstElement) t =
     (case (t, stack) of
        (RBracket, FArray vs # rest) \<Rightarrow> Some (rest, HaveValue (JArray vs))
      | _ \<Rightarrow> start_value stack t)"
| "parse_step (stack, FirstKey) t =
     (case (t, stack) of
        (RBrace, FObject m # rest) \<Rightarrow> Some (rest, HaveValue (JObject m))
      | (Val (JString k), _) \<Rightarrow> Some (stack, NeedColon k)
      | _ \<Rightarrow> None)"
| "parse_step (stack, NeedKey) t =
     (case t of Val (JString k) \<Rightarrow> Some (stack, NeedColon k) | _ \<Rightarrow> None)"
| "parse_step (stack, NeedColon k) t =
     (case (t, stack) of
        (Colon, FObject m # rest) \<Rightarrow> Some (FMember m k # rest, NeedValue)
      | _ \<Rightarrow> None)"
| "parse_step (stack, HaveValue v) t =
     (case (stack, t) of
        (FArray vs # rest, Comma) \<Rightarrow> Some (FArray (vs @ [v]) # rest, NeedValue)
      | (FArray vs # rest, RBracket) \<Rightarrow> Some (rest, HaveValue (JArray (vs @ [v])))
      | (FMember m k # rest, Comma) \<Rightarrow> Some (FObject (map_set k v m) # rest, NeedKey)
      | (FMember m k # rest, RBrace) \<Rightarrow> Some (rest, HaveValue (JObject (map_set k v m)))
      | _ \<Rightarrow> None)"

fun parse_tokens :: "parser_state \<Rightarrow> token list \<Rightarrow> json option" where
  "parse_tokens (stack, phase) [] =
     (case (stack, phase) of ([], HaveValue v) \<Rightarrow> Some v | _ \<Rightarrow> None)"
| "parse_tokens s (t # ts) =
     (case parse_step s t of None \<Rightarrow> None | Some s' \<Rightarrow> parse_tokens s' ts)"

definition json_parse :: "string \<Rightarrow> json result" where
  "json_parse text =
     (case lex text of
        Inl e \<Rightarrow> Inl e
      | Inr tokens \<Rightarrow> (case parse_tokens ([], NeedValue) tokens of None \<Rightarrow> Inl SyntaxError | Some v \<Rightarrow> Inr v))"

section \<open>Reading properties\<close>

text \<open>\<open>value.name\<close> for a name no prototype has: \<open>null\<close> throws, other values have no such property.\<close>

definition property :: "json \<Rightarrow> string \<Rightarrow> json option result" where
  "property v name =
     (case v of JNull \<Rightarrow> Inl TypeError | JObject m \<Rightarrow> Inr (map_get m name) | _ \<Rightarrow> Inr None)"

text \<open>The TypeScript assertions \<open>as number\<close> and \<open>as string\<close> on a property.\<close>

definition as_int :: "json option \<Rightarrow> int result" where
  "as_int v = (case v of Some (JNum (Some r)) \<Rightarrow> if of_int \<lfloor>r\<rfloor> = r then Inr \<lfloor>r\<rfloor> else Inl IllTyped | _ \<Rightarrow> Inl IllTyped)"

definition as_string :: "json option \<Rightarrow> string result" where
  "as_string v = (case v of Some (JString s) \<Rightarrow> Inr s | _ \<Rightarrow> Inl IllTyped)"

definition as_rat :: "json option \<Rightarrow> rat result" where
  "as_rat v = (case v of Some (JNum (Some r)) \<Rightarrow> Inr r | _ \<Rightarrow> Inl IllTyped)"

definition as_bool :: "json option \<Rightarrow> bool result" where
  "as_bool v = (case v of Some (JBool b) \<Rightarrow> Inr b | _ \<Rightarrow> Inl IllTyped)"

definition int_field :: "json \<Rightarrow> string \<Rightarrow> int result" where
  "int_field r name = result_bind (property r name) as_int"

definition string_field :: "json \<Rightarrow> string \<Rightarrow> string result" where
  "string_field r name = result_bind (property r name) as_string"

definition rat_field :: "json \<Rightarrow> string \<Rightarrow> rat result" where
  "rat_field r name = result_bind (property r name) as_rat"

definition bool_field :: "json \<Rightarrow> string \<Rightarrow> bool result" where
  "bool_field r name = result_bind (property r name) as_bool"

end
