(* ===== verification/Bounds.thy ===== *)
theory Bounds
  imports Json FileSystem
begin

text \<open>
  \<open>core/src/enumerate/bounds.ts\<close>: the bounds file is JSON with line comments; comments are stripped
  outside string literals and the rest is parsed. The path of the file is an argument and its text is
  what the file tree holds there; the shipped \<open>bounds.jsonc\<close> is data of the repository and not part of
  this theory.
\<close>

section \<open>Stripping comments\<close>

text \<open>The inner loop of a comment: the index moves to the next line break or to the end of the text.\<close>

function skip_comment :: "string \<Rightarrow> nat \<Rightarrow> nat" where
  "skip_comment input i =
     (if i < length input \<and> input ! i \<noteq> NL then skip_comment input (i + 1) else i)"
  by pat_completeness auto
termination by (relation "measure (\<lambda>(input, i). length input - i)") auto

declare skip_comment.simps [simp del]

lemma skip_comment_ge: "i \<le> skip_comment input i"
proof (induction input i rule: skip_comment.induct)
  case (1 input i)
  then show ?case
    by (cases "i < length input \<and> input ! i \<noteq> NL") (auto simp: skip_comment.simps [of input i])
qed

text \<open>
  The scanner: an index into the text, the flags \<open>inString\<close> and \<open>escaped\<close>, and the output so far. The line
  break that ends a comment is written by the comment's branch and skipped by the loop's increment.
\<close>

function strip_at :: "string \<Rightarrow> nat \<Rightarrow> bool \<Rightarrow> bool \<Rightarrow> string \<Rightarrow> string" where
  "strip_at input i inString escaped out =
     (if length input \<le> i then out
      else let ch = input ! i in
        if inString
        then if escaped then strip_at input (i + 1) True False (out @ [ch])
             else if ch = backslash then strip_at input (i + 1) True True (out @ [ch])
             else if ch = quote then strip_at input (i + 1) False escaped (out @ [ch])
             else strip_at input (i + 1) True escaped (out @ [ch])
        else if ch = quote then strip_at input (i + 1) True escaped (out @ [ch])
        else if ch = CHR ''/'' \<and> i + 1 < length input \<and> input ! (i + 1) = CHR ''/''
        then strip_at input (skip_comment input i + 1) False escaped (out @ [NL])
        else strip_at input (i + 1) False escaped (out @ [ch]))"
  by pat_completeness auto
termination
proof (relation "measure (\<lambda>(input, i, _). length input - i)", goal_cases)
  case (7 input i inString escaped out ch)
  then show ?case using skip_comment_ge [of i input] by (simp add: diff_less_mono2)
qed simp_all

declare strip_at.simps [simp del]

definition stripComments :: "string \<Rightarrow> string" where
  "stripComments input = strip_at input 0 False False ''''"

section \<open>Loading\<close>

record loaded_bounds =
  lb_crashPoints :: string
  lb_nonFsyncSampleRate :: rat
  lb_maxUnpersistedWindow :: int
  lb_maxExhaustiveWorkloadOps :: int
  lb_maxStatesPerCrashPoint :: int
  lb_tornWrites :: bool
  lb_tornWriteGranularityBytes :: int
  lb_maxTornOpsPerState :: int

text \<open>
  The type assertion on the parsed value: the fields are read where they are used, and a missing or
  differently typed one is outside the model.
\<close>

definition as_bounds :: "json \<Rightarrow> loaded_bounds result" where
  "as_bounds v =
     result_bind (string_field v ''crashPoints'') (\<lambda>crashPoints.
     result_bind (rat_field v ''nonFsyncSampleRate'') (\<lambda>rate.
     result_bind (int_field v ''maxUnpersistedWindow'') (\<lambda>window.
     result_bind (int_field v ''maxExhaustiveWorkloadOps'') (\<lambda>exhaustive.
     result_bind (int_field v ''maxStatesPerCrashPoint'') (\<lambda>states.
     result_bind (bool_field v ''tornWrites'') (\<lambda>torn.
     result_bind (int_field v ''tornWriteGranularityBytes'') (\<lambda>granularity.
     result_bind (int_field v ''maxTornOpsPerState'') (\<lambda>tornOps.
       Inr \<lparr>lb_crashPoints = crashPoints, lb_nonFsyncSampleRate = rate,
            lb_maxUnpersistedWindow = window, lb_maxExhaustiveWorkloadOps = exhaustive,
            lb_maxStatesPerCrashPoint = states, lb_tornWrites = torn,
            lb_tornWriteGranularityBytes = granularity, lb_maxTornOpsPerState = tornOps\<rparr>))))))))"

definition parse_bounds :: "string \<Rightarrow> loaded_bounds result" where
  "parse_bounds input = result_bind (json_parse (stripComments input)) as_bounds"

text \<open>\<open>readFileSync(path, 'utf8')\<close> on ASCII contents.\<close>

definition utf8_text :: "byte list \<Rightarrow> string result" where
  "utf8_text bs = (if list_all (\<lambda>b. unat b < 128) bs then Inr (map (\<lambda>b. char_of (unat b)) bs) else Inl IllTyped)"

definition loadBounds :: "segs \<Rightarrow> (fs, loaded_bounds) io" where
  "loadBounds path =
     io_bind (read_file path) (\<lambda>bs s. (result_bind (utf8_text bs) parse_bounds, s))"

section \<open>What a input with comments is made of\<close>

text \<open>
  A grammar for the specification, independent of the scanner. A string literal is a list of plain
  characters and of backslash pairs; a text is a list of pieces (a character of the code, a literal with
  both its quotes, a comment with its line break) and what may be cut off by the end of the text: an open
  literal, perhaps after a lone backslash, or a comment without a line break.
\<close>

datatype lit_char = Raw char | Escaped char

datatype lex_piece = Plain char | Literal "lit_char list" | Comment string

datatype lex_ending = Finished | OpenLiteral "lit_char list" bool | OpenComment string

fun lit_text :: "lit_char list \<Rightarrow> string" where
  "lit_text [] = ''''"
| "lit_text (Raw c # items) = c # lit_text items"
| "lit_text (Escaped c # items) = backslash # c # lit_text items"

definition lit_ok :: "lit_char list \<Rightarrow> bool" where
  "lit_ok items \<longleftrightarrow> (\<forall>c. Raw c \<in> set items \<longrightarrow> c \<noteq> quote \<and> c \<noteq> backslash)"

fun ending_text :: "lex_ending \<Rightarrow> string" where
  "ending_text Finished = ''''"
| "ending_text (OpenLiteral items half) = quote # lit_text items @ (if half then [backslash] else [])"
| "ending_text (OpenComment s) = ''//'' @ s"

fun lex_text :: "lex_piece list \<Rightarrow> lex_ending \<Rightarrow> string" where
  "lex_text [] e = ending_text e"
| "lex_text (Plain c # ps) e = c # lex_text ps e"
| "lex_text (Literal items # ps) e = quote # lit_text items @ [quote] @ lex_text ps e"
| "lex_text (Comment s # ps) e = ''//'' @ s @ [NL] @ lex_text ps e"

text \<open>A plain character is no quote and does not start a comment with the one after it.\<close>

fun lexical :: "lex_piece list \<Rightarrow> lex_ending \<Rightarrow> bool" where
  "lexical [] Finished = True"
| "lexical [] (OpenLiteral items half) = lit_ok items"
| "lexical [] (OpenComment s) = (NL \<notin> set s)"
| "lexical (Plain c # ps) e =
     (c \<noteq> quote \<and> \<not> (c = CHR ''/'' \<and> starts_char (CHR ''/'') (lex_text ps e)) \<and> lexical ps e)"
| "lexical (Literal items # ps) e = (lit_ok items \<and> lexical ps e)"
| "lexical (Comment s # ps) e = (NL \<notin> set s \<and> lexical ps e)"

text \<open>The text without its comments: a line break in the place of each, everything else as it was.\<close>

fun uncommented_end :: "lex_ending \<Rightarrow> string" where
  "uncommented_end (OpenComment s) = [NL]"
| "uncommented_end e = ending_text e"

fun uncommented :: "lex_piece list \<Rightarrow> lex_ending \<Rightarrow> string" where
  "uncommented [] e = uncommented_end e"
| "uncommented (Plain c # ps) e = c # uncommented ps e"
| "uncommented (Literal items # ps) e = quote # lit_text items @ [quote] @ uncommented ps e"
| "uncommented (Comment s # ps) e = NL # uncommented ps e"

lemma quote_backslash: "quote \<noteq> backslash" "backslash \<noteq> quote" "quote \<noteq> CHR ''/''" "CHR ''/'' \<noteq> quote" "NL \<noteq> CHR ''/''" "CHR ''/'' \<noteq> NL"
  by code_simp+

lemma lit_ok_simps [simp]:
  "lit_ok []" "lit_ok (Raw c # items) \<longleftrightarrow> c \<noteq> quote \<and> c \<noteq> backslash \<and> lit_ok items"
  "lit_ok (Escaped c # items) \<longleftrightarrow> lit_ok items"
  by (auto simp: lit_ok_def)

section \<open>The scanner on such a input\<close>

text \<open>The scanner reads a piece in front of it when all that is before it has been read.\<close>

lemma strip_end: "strip_at input (length input) inString escaped out = out"
  by (simp add: strip_at.simps)

lemma skip_comment_stop:
  "NL \<notin> set s \<Longrightarrow> rest = [] \<or> hd rest = NL \<Longrightarrow> skip_comment (pre @ s @ rest) (length pre) = length pre + length s"
proof (induction s arbitrary: pre)
  case Nil
  then show ?case by (cases rest) (simp_all add: skip_comment.simps)
next
  case (Cons c s)
  then show ?case
    using Cons.IH [of "pre @ [c]"] by (subst skip_comment.simps) auto
qed

lemma strip_literal:
  "lit_ok items \<Longrightarrow> strip_at (pre @ lit_text items @ rest) (length pre) True False out
   = strip_at (pre @ lit_text items @ rest) (length pre + length (lit_text items)) True False (out @ lit_text items)"
proof (induction items arbitrary: pre out rule: lit_text.induct)
  case (2 c items)
  show ?case
    using 2(2) 2(1) [of "pre @ [c]" "out @ [c]"]
    by (subst strip_at.simps) (simp add: nth_append Let_def)
next
  case (3 c items)
  have "strip_at (pre @ lit_text (Escaped c # items) @ rest) (length pre) True False out
      = strip_at (pre @ lit_text (Escaped c # items) @ rest) (length pre + 1) True True (out @ [backslash])"
    by (subst strip_at.simps) (simp add: nth_append Let_def)
  also have "\<dots> = strip_at (pre @ lit_text (Escaped c # items) @ rest) (length pre + 2) True False (out @ [backslash, c])"
    by (subst strip_at.simps) (simp add: nth_append Let_def)
  also have "\<dots> = strip_at (pre @ lit_text (Escaped c # items) @ rest)
      (length pre + length (lit_text (Escaped c # items))) True False (out @ lit_text (Escaped c # items))"
    using 3(2) 3(1) [of "pre @ [backslash, c]" "out @ [backslash, c]"] by simp
  finally show ?case .
qed simp

lemma strip_quote:
  "input = pre @ quote # rest \<Longrightarrow>
   strip_at input (length pre) False False out = strip_at input (length pre + 1) True False (out @ [quote])"
  "input = pre @ quote # rest \<Longrightarrow>
   strip_at input (length pre) True False out = strip_at input (length pre + 1) False False (out @ [quote])"
  by (simp_all, subst strip_at.simps, simp add: Let_def quote_backslash,
      subst strip_at.simps, simp add: Let_def quote_backslash)

lemma strip_plain:
  assumes "c \<noteq> quote" "\<not> (c = CHR ''/'' \<and> starts_char (CHR ''/'') rest)" "input = pre @ c # rest"
  shows "strip_at input (length pre) False False out = strip_at input (length pre + 1) False False (out @ [c])"
proof -
  have "\<not> (c = CHR ''/'' \<and> length pre + 1 < length input \<and> input ! (length pre + 1) = CHR ''/'')"
    using assms(2) by (cases rest) (auto simp: assms(3) starts_char_def nth_append)
  moreover have "input ! length pre = c" "length pre < length input" by (simp_all add: assms(3))
  ultimately show ?thesis
    using assms(1) by (subst strip_at.simps) (auto simp: Let_def)
qed

lemma strip_comment:
  assumes "NL \<notin> set s" "rest = [] \<or> hd rest = NL" "input = pre @ ''//'' @ s @ rest"
  shows "strip_at input (length pre) False False out
       = strip_at input (Suc (Suc (Suc (length pre + length s)))) False False (out @ [NL])"
proof -
  have "skip_comment input (length pre) = length pre + length (''//'' @ s)"
    using skip_comment_stop [of "''//'' @ s" rest pre] assms quote_backslash by simp
  then show ?thesis
    unfolding assms(3)
    by (subst strip_at.simps) (simp add: Let_def quote_backslash nth_append)
qed

lemma strip_past: "length input \<le> i \<Longrightarrow> strip_at input i inString escaped out = out"
  by (simp add: strip_at.simps)

lemma strip_ending:
  assumes "lexical [] e"
  shows "strip_at (pre @ ending_text e) (length pre) False False out = out @ uncommented_end e"
proof (cases e)
  case Finished
  then show ?thesis by (simp add: strip_past)
next
  case (OpenComment s)
  then show ?thesis
    using assms strip_comment [of s "[]" "pre @ ''//'' @ s" pre out] by (simp add: strip_past)
next
  case (OpenLiteral items half)
  let ?input = "pre @ ending_text e" and ?tail = "if half then [backslash] else []"
  have ok: "lit_ok items" using assms OpenLiteral by simp
  have whole: "?input = (pre @ [quote]) @ lit_text items @ ?tail" using OpenLiteral by simp
  have "strip_at ?input (length pre) False False out = strip_at ?input (length (pre @ [quote])) True False (out @ [quote])"
    using strip_quote(1) [of ?input pre] OpenLiteral by simp
  also have "\<dots> = strip_at ?input (length pre + 1 + length (lit_text items)) True False (out @ quote # lit_text items)"
    unfolding whole strip_literal [OF ok] by simp
  also have "\<dots> = out @ ending_text e"
    using OpenLiteral
    by (cases half) (simp_all add: strip_at.simps Let_def strip_past nth_append)
  finally show ?thesis using OpenLiteral by simp
qed

lemma strip_text:
  "lexical ps e \<Longrightarrow> strip_at (pre @ lex_text ps e) (length pre) False False out = out @ uncommented ps e"
proof (induction ps e arbitrary: pre out rule: lex_text.induct)
  case (1 e)
  then show ?case using strip_ending by simp
next
  case (2 c ps e)
  then show ?case
    using 2(1) [of "pre @ [c]" "out @ [c]"] strip_plain [of c "lex_text ps e" "pre @ lex_text (Plain c # ps) e" pre out]
    by simp
next
  case (3 items ps e)
  let ?input = "pre @ lex_text (Literal items # ps) e" and ?rest = "quote # lex_text ps e"
  have whole: "?input = (pre @ [quote]) @ lit_text items @ ?rest" by simp
  have ok: "lit_ok items" using 3(2) by simp
  have "strip_at ?input (length pre) False False out = strip_at ?input (length (pre @ [quote])) True False (out @ [quote])"
    using strip_quote(1) [of ?input pre] by simp
  also have "\<dots> = strip_at ?input (length (pre @ [quote] @ lit_text items)) True False (out @ quote # lit_text items)"
    unfolding whole strip_literal [OF ok] by simp
  also have "\<dots> = strip_at ?input (length (pre @ [quote] @ lit_text items @ [quote])) False False
      (out @ quote # lit_text items @ [quote])"
    using strip_quote(2) [of ?input "pre @ [quote] @ lit_text items"] by simp
  also have "\<dots> = out @ uncommented (Literal items # ps) e"
    using 3(2) 3(1) [of "pre @ [quote] @ lit_text items @ [quote]"] by simp
  finally show ?case .
next
  case (4 s ps e)
  then show ?case
    using 4(1) [of "pre @ ''//'' @ s @ [NL]" "out @ [NL]"]
      strip_comment [of s "NL # lex_text ps e" "pre @ lex_text (Comment s # ps) e" pre out]
    by simp
qed

text \<open>Every text is made of such pieces.\<close>

lemma literal_exists:
  "\<exists>items. lit_ok items \<and> ((\<exists>rest. s = lit_text items @ quote # rest) \<or> (\<exists>half. s = lit_text items @ (if half then [backslash] else [])))"
proof (induction s rule: induct_list012)
  case 1
  show ?case by (rule exI [of _ "[]"]) (simp, metis)
next
  case (2 c)
  consider "c = quote" | "c = backslash" | "c \<noteq> quote" "c \<noteq> backslash" by blast
  then show ?case
  proof cases
    case 1
    then show ?thesis by (intro exI [of _ "[]"]) simp
  next
    case 2
    then show ?thesis by (intro exI [of _ "[]"]) (simp, metis)
  next
    case 3
    then show ?thesis by (intro exI [of _ "[Raw c]"]) (simp, metis)
  qed
next
  case (3 c d s)
  consider (closed) "c = quote" | (escape) "c = backslash" | (raw) "c \<noteq> quote" "c \<noteq> backslash" by blast
  then show ?case
  proof cases
    case closed
    then show ?thesis by (intro exI [of _ "[]"]) simp
  next
    case escape
    obtain items where "lit_ok items"
      "(\<exists>rest. s = lit_text items @ quote # rest) \<or> (\<exists>half. s = lit_text items @ (if half then [backslash] else []))"
      using 3(1) by blast
    then show ?thesis using escape by (intro exI [of _ "Escaped d # items"]) auto
  next
    case raw
    obtain items where "lit_ok items"
      "(\<exists>rest. d # s = lit_text items @ quote # rest) \<or> (\<exists>half. d # s = lit_text items @ (if half then [backslash] else []))"
      using 3(2) by blast
    then show ?thesis using raw by (intro exI [of _ "Raw c # items"]) auto
  qed
qed

lemma lexical_exists: "\<exists>ps e. lexical ps e \<and> input = lex_text ps e"
proof (induction input rule: length_induct)
  case (1 input)
  have shorter: "\<exists>ps e. lexical ps e \<and> s = lex_text ps e" if "length s < length input" for s
    using 1 that by blast
  show ?case
  proof (cases input)
    case Nil
    then show ?thesis by (intro exI [of _ "[]"] exI [of _ Finished]) simp
  next
    case (Cons c s)
    consider (literal) "c = quote" | (comment) t where "c = CHR ''/''" "s = CHR ''/'' # t"
      | (plain) "c \<noteq> quote" "\<not> (c = CHR ''/'' \<and> starts_char (CHR ''/'') s)"
      by (cases s) (auto simp: starts_char_def)
    then show ?thesis
    proof cases
      case literal
      obtain items where ok: "lit_ok items" and tail:
        "(\<exists>rest. s = lit_text items @ quote # rest) \<or> (\<exists>half. s = lit_text items @ (if half then [backslash] else []))"
        using literal_exists [of s] by blast
      from tail show ?thesis
      proof
        assume "\<exists>rest. s = lit_text items @ quote # rest"
        then obtain rest where s: "s = lit_text items @ quote # rest" by blast
        then obtain ps e where "lexical ps e" "rest = lex_text ps e" using shorter [of rest] Cons by auto
        then show ?thesis
          using literal s ok Cons by (intro exI [of _ "Literal items # ps"] exI [of _ e]) simp
      next
        assume "\<exists>half. s = lit_text items @ (if half then [backslash] else [])"
        then obtain half where "s = lit_text items @ (if half then [backslash] else [])" by blast
        then show ?thesis
          using literal ok Cons by (intro exI [of _ "[]"] exI [of _ "OpenLiteral items half"]) simp
      qed
    next
      case comment
      show ?thesis
      proof (cases "NL \<in> set t")
        case True
        then obtain u rest where t: "t = u @ NL # rest" "NL \<notin> set u" using split_list_first by metis
        then obtain ps e where "lexical ps e" "rest = lex_text ps e" using shorter [of rest] Cons comment by auto
        then show ?thesis
          using comment t Cons by (intro exI [of _ "Comment u # ps"] exI [of _ e]) simp
      next
        case False
        then show ?thesis
          using comment Cons by (intro exI [of _ "[]"] exI [of _ "OpenComment t"]) simp
      qed
    next
      case plain
      obtain ps e where "lexical ps e" "s = lex_text ps e" using shorter [of s] Cons by auto
      then show ?thesis
        using plain Cons by (intro exI [of _ "Plain c # ps"] exI [of _ e]) simp
    qed
  qed
qed

lemma strip_no_slash:
  assumes "CHR ''/'' \<notin> set input"
  shows "stripComments input = input"
proof -
  have "strip_at input i inString escaped out = out @ drop i input" for i inString escaped out
  proof (induction "length input - i" arbitrary: i inString escaped out)
    case 0
    then show ?case by (simp add: strip_past)
  next
    case (Suc n)
    then have i: "i < length input" by simp
    then have "input ! i \<noteq> CHR ''/''" using assms nth_mem by metis
    moreover have "strip_at input (Suc i) s e (out @ [c]) = out @ drop i input"
      if "c = input ! i" for s e c
      using Suc.hyps(1) [of "Suc i" s e "out @ [c]"] Suc.hyps(2) i that by (simp add: Cons_nth_drop_Suc)
    ultimately show ?case
      using i by (subst strip_at.simps) (auto simp: Let_def)
  qed
  then show ?thesis by (simp add: stripComments_def)
qed

section \<open>Properties\<close>

text \<open>C34: the comment stripper removes the comments of every text and nothing else. Any text, well-formed
  JSON or not, is a sequence of plain characters, string literals with their backslash pairs, and line
  comments, possibly cut off by its end; and whenever a text is so composed, stripping it returns the
  same sequence with a line break in the place of each comment. A \<open>//\<close> inside a literal stays, also behind
  an escaped quote, and one behind the closing quote goes.\<close>

theorem strip_comments_exact:
  "(\<exists>ps e. lexical ps e \<and> input = lex_text ps e)
   \<and> (\<forall>ps e. lexical ps e \<and> input = lex_text ps e \<longrightarrow> stripComments input = uncommented ps e)"
  using lexical_exists [of input] strip_text [where pre = "[]" and out = "[]"] by (auto simp: stripComments_def)

text \<open>A literal that holds an escaped quote and a \<open>//\<close>, then a comment to the end of the input.\<close>

lemma strip_comments_exact_witness:
  "stripComments (quote # ''a'' @ [backslash, quote] @ ''//b'' @ [quote] @ ''//c'')
   = quote # ''a'' @ [backslash, quote] @ ''//b'' @ [quote, NL]"
proof -
  let ?items = "[Raw (CHR ''a''), Escaped quote, Raw (CHR ''/''), Raw (CHR ''/''), Raw (CHR ''b'')]"
  have "lexical [Literal ?items] (OpenComment ''c'')" by code_simp
  moreover have "lex_text [Literal ?items] (OpenComment ''c'')
      = quote # ''a'' @ [backslash, quote] @ ''//b'' @ [quote] @ ''//c''" by simp
  ultimately have "stripComments (quote # ''a'' @ [backslash, quote] @ ''//b'' @ [quote] @ ''//c'')
      = uncommented [Literal ?items] (OpenComment ''c'')"
    using strip_comments_exact by metis
  then show ?thesis by simp
qed

text \<open>A comment after a value, and a \<open>//\<close> inside a string that is no comment.\<close>

lemma parse_bounds_comment:
  "json_parse (stripComments (''[1, // one'' @ [NL, quote] @ ''a//b'' @ [quote] @ '']''))
   = Inr (JArray [JNum (Some 1), JString ''a//b''])"
  by code_simp

end
