(* ===== verification/Reader.thy ===== *)
theory Reader
  imports Json SampleTraces
begin

text \<open>
  \<open>core/src/trace/reader.ts\<close>: the trace text of one or several processes, one JSON object per line, read
  into a header, the events and the markers in the order of their submission stamps. The source
  asserts the field types with \<open>as\<close>; a record that breaks an assertion is \<open>IllTyped\<close> here.
\<close>

definition TRACE_VERSION :: int where
  "TRACE_VERSION = 1"

definition call_field :: "json \<Rightarrow> string \<Rightarrow> call_name result" where
  "call_field r name = result_bind (string_field r name) (\<lambda>s.
     case call_of_string s of None \<Rightarrow> Inl IllTyped | Some c \<Rightarrow> Inr c)"

definition toEvent :: "json \<Rightarrow> trace_event result" where
  "toEvent r =
     result_bind (int_field r ''i'') (\<lambda>i.
     result_bind (int_field r ''j'') (\<lambda>j.
     result_bind (call_field r ''call'') (\<lambda>call.
     result_bind (int_field r ''fd'') (\<lambda>fd.
     result_bind (int_field r ''tid'') (\<lambda>tid.
     result_bind (string_field r ''path'') (\<lambda>path.
     result_bind (string_field r ''path2'') (\<lambda>path2.
     result_bind (int_field r ''off'') (\<lambda>off.
     result_bind (int_field r ''len'') (\<lambda>len.
     result_bind (int_field r ''ret'') (\<lambda>ret.
     result_bind (int_field r ''err'') (\<lambda>err.
     result_bind (string_field r ''dig'') (\<lambda>dig.
       Inr \<lparr>ev_index = i, ev_completionIndex = j, ev_call = call, ev_fd = fd, ev_threadId = tid,
            ev_path = path, ev_path2 = path2, ev_offset = off, ev_length = len,
            ev_returnValue = ret, ev_errno = err, ev_digest = dig\<rparr>))))))))))))"

definition toMarker :: "json \<Rightarrow> trace_marker result" where
  "toMarker r =
     result_bind (int_field r ''i'') (\<lambda>i.
     result_bind (int_field r ''tid'') (\<lambda>tid.
     result_bind (string_field r ''text'') (\<lambda>text.
       Inr \<lparr>mk_index = i, mk_threadId = tid, mk_text = text\<rparr>)))"

text \<open>\<open>r.rec === name\<close>, and \<open>find\<close> and \<open>filter\<close> with a condition that can throw.\<close>

definition has_rec :: "string \<Rightarrow> json \<Rightarrow> bool result" where
  "has_rec name r = result_bind (property r ''rec'') (\<lambda>v. Inr (v = Some (JString name)))"

fun find_result :: "('a \<Rightarrow> bool result) \<Rightarrow> 'a list \<Rightarrow> 'a option result" where
  "find_result P [] = Inr None"
| "find_result P (x # xs) = result_bind (P x) (\<lambda>b. if b then Inr (Some x) else find_result P xs)"

fun filter_result :: "('a \<Rightarrow> bool result) \<Rightarrow> 'a list \<Rightarrow> 'a list result" where
  "filter_result P [] = Inr []"
| "filter_result P (x # xs) =
     result_bind (P x) (\<lambda>b. result_bind (filter_result P xs) (\<lambda>ys. Inr (if b then x # ys else ys)))"

text \<open>
  What a template literal prints for a version; other numbers and containers are outside the model.
\<close>

definition version_text :: "json option \<Rightarrow> string result" where
  "version_text v =
     (case v of None \<Rightarrow> Inr ''undefined'' | Some JNull \<Rightarrow> Inr ''null''
      | Some (JBool b) \<Rightarrow> Inr (if b then ''true'' else ''false'')
      | Some (JString s) \<Rightarrow> Inr s
      | Some (JNum n) \<Rightarrow> map_sum id int_string (as_int v)
      | _ \<Rightarrow> Inl IllTyped)"

definition check_version :: "json \<Rightarrow> unit result" where
  "check_version header =
     result_bind (property header ''v'') (\<lambda>v.
       if v = Some (JNum (Some (of_int TRACE_VERSION))) then Inr ()
       else result_bind (version_text v) (\<lambda>shown.
         Inl (Error (''trace version '' @ shown @ '' is not supported (expected ''
                     @ int_string TRACE_VERSION @ '')''))))"

definition parseTrace :: "string \<Rightarrow> trace result" where
  "parseTrace text =
     result_bind (map_result json_parse (filter (\<lambda>line. trim line \<noteq> []) (split_on NL text))) (\<lambda>records.
     result_bind (find_result (has_rec ''header'') records) (\<lambda>found.
     case found of
       None \<Rightarrow> Inl (Error ''trace has no header record'')
     | Some header \<Rightarrow>
         result_bind (check_version header) (\<lambda>_.
         result_bind (filter_result (has_rec ''event'') records) (\<lambda>event_records.
         result_bind (map_result toEvent event_records) (\<lambda>events.
         result_bind (filter_result (has_rec ''marker'') records) (\<lambda>marker_records.
         result_bind (map_result toMarker marker_records) (\<lambda>markers.
         result_bind (int_field header ''pid'') (\<lambda>pid.
           Inr \<lparr>tr_header = \<lparr>hd_version = TRACE_VERSION, hd_pid = pid\<rparr>,
                tr_events = sort_key ev_index events,
                tr_markers = sort_key mk_index markers\<rparr>))))))))"

section \<open>The lines the shim writes\<close>

text \<open>
  The record formats of \<open>shim/src/shim.c\<close>: strings are printed without escaping, so the round trip is
  about strings of printable characters without quotes and backslashes.
\<close>

definition clean_text :: "string \<Rightarrow> bool" where
  "clean_text s \<longleftrightarrow> (\<forall>c\<in>set s. 32 \<le> char_code c \<and> c \<noteq> quote \<and> c \<noteq> backslash)"

datatype field_value = FInt int | FText string | FBool bool

definition field_text :: "string \<times> field_value \<Rightarrow> string" where
  "field_text kv = quote # fst kv @ quote # CHR '':'' #
     (case snd kv of FInt n \<Rightarrow> int_string n | FText s \<Rightarrow> quote # s @ [quote]
      | FBool b \<Rightarrow> (if b then ''true'' else ''false''))"

definition record_line :: "(string \<times> field_value) list \<Rightarrow> string" where
  "record_line kvs = CHR ''{'' # join '','' (map field_text kvs) @ ''}''"

definition field_json :: "field_value \<Rightarrow> json" where
  "field_json v = (case v of FInt n \<Rightarrow> JNum (double_of_rat (of_int n)) | FText s \<Rightarrow> JString s | FBool b \<Rightarrow> JBool b)"

definition clean_field :: "string \<times> field_value \<Rightarrow> bool" where
  "clean_field kv \<longleftrightarrow> clean_text (fst kv) \<and> (case snd kv of FText s \<Rightarrow> clean_text s | _ \<Rightarrow> True)"

lemma scan_clean: "clean_text s \<Longrightarrow> scan_string (s @ quote # r) = Inr (s, r)"
  by (induction s) (auto simp: clean_text_def cons_char_def)

lemma quote_facts: "\<not> json_space quote" "punctuation quote = None" "\<not> number_char quote"
  by code_simp+

lemma lex_clean:
  "clean_text s \<Longrightarrow> lex (quote # s @ quote # r) = cons_token (Val (JString s)) (lex r)"
  by (simp add: quote_facts scan_clean)

lemma lex_punctuation:
  "\<not> json_space c \<Longrightarrow> punctuation c = Some t \<Longrightarrow> lex (c # r) = cons_token t (lex r)"
  by simp

lemma punctuation_facts:
  "lex (CHR ''{'' # r) = cons_token LBrace (lex r)" "lex (CHR ''}'' # r) = cons_token RBrace (lex r)"
  "lex (CHR '':'' # r) = cons_token Colon (lex r)" "lex (CHR '','' # r) = cons_token Comma (lex r)"
  by (rule lex_punctuation; code_simp)+

section \<open>Lexing and parsing a line of the shim\<close>

lemma nat_string_zero: "hd (nat_string n) = CHR ''0'' \<longleftrightarrow> n = 0"
proof (induction n rule: nat_string.induct)
  case (1 n)
  show ?case
  proof (cases "n < 10")
    case True
    have "digit_char n = CHR ''0'' \<longleftrightarrow> n = 0"
    proof
      assume "digit_char n = CHR ''0''"
      moreover have "digit_value (CHR ''0'') = 0" by code_simp
      ultimately show "n = 0" using digit_char_facts(2) [OF True] by simp
    next
      have "digit_char 0 = CHR ''0''" by code_simp
      then show "n = 0 \<Longrightarrow> digit_char n = CHR ''0''" by simp
    qed
    with True show ?thesis by (subst nat_string.simps) simp
  next
    case False
    then have "hd (nat_string n) = hd (nat_string (n div 10))"
      using nat_string_digits [of "n div 10"] by (subst nat_string.simps) simp
    with 1 [OF False] False show ?thesis by simp
  qed
qed

lemma parse_unsigned_nat: "parse_unsigned_decimal (nat_string n) = Some (of_nat n)"
proof -
  have digits: "nat_string n \<noteq> []" "\<forall>c\<in>set (nat_string n). is_digit c"
    using nat_string_digits by blast+
  then show ?thesis
    by (simp add: takeWhile_all [OF digits(2), THEN conjunct1] takeWhile_all [OF digits(2), THEN conjunct2]
        parse_unsigned_decimal_def parse_exponent_def digits_value_nat_string ten_power_def
        starts_char_def Let_def)
qed

lemma json_number_int: "json_number (int_string n) = Inr (JNum (double_of_rat (of_int n)))"
proof -
  have nat: "json_number (nat_string k) = Inr (JNum (double_of_rat (of_nat k)))"
    "json_number (CHR ''-'' # nat_string k) = Inr (JNum (double_of_rat (- of_nat k)))" for k
  proof -
    let ?s = "nat_string k"
    have digits: "?s \<noteq> []" "\<forall>c\<in>set ?s. is_digit c"
      using nat_string_digits by blast+
    note run = takeWhile_all [OF digits(2), THEN conjunct1] takeWhile_all [OF digits(2), THEN conjunct2]
    have "\<not> is_digit (CHR ''-'')" by code_simp
    then have sign: "\<not> starts_char (CHR ''-'') ?s"
      using digits by (cases ?s) (auto simp: starts_char_def)
    have "nat_string 0 = ''0''" by code_simp
    then have zero: "\<not> (starts_char (CHR ''0'') ?s \<and> ?s \<noteq> ''0'')"
      using nat_string_zero [of k] by (auto simp: starts_char_def)
    show "json_number ?s = Inr (JNum (double_of_rat (of_nat k)))"
      using digits(1) sign zero
      by (simp add: json_number_def run Let_def parse_unsigned_nat starts_char_def [of _ "[]"])
    show "json_number (CHR ''-'' # ?s) = Inr (JNum (double_of_rat (- of_nat k)))"
      using digits(1) zero
      by (simp add: json_number_def run Let_def parse_unsigned_nat starts_char_def [of "CHR ''-''"]
          starts_char_def [of _ "[]"])
  qed
  show ?thesis
  proof (cases "n < 0")
    case True
    then have "(- of_nat (nat (- n)) :: rat) = of_int n" by simp
    with True nat(2) show ?thesis by (simp add: int_string_def)
  next
    case False
    then have "(of_nat (nat n) :: rat) = of_int n" by simp
    with False nat(1) show ?thesis by (simp add: int_string_def)
  qed
qed

lemma int_string_chars:
  "int_string n \<noteq> []" "\<forall>c\<in>set (int_string n). number_char c"
  "hd (int_string n) = CHR ''-'' \<or> is_digit (hd (int_string n))"
  using nat_string_digits [of "nat n"] nat_string_digits [of "nat (- n)"]
  by (auto simp: int_string_def number_char_def)

lemma number_start:
  assumes "c = CHR ''-'' \<or> is_digit c"
  shows "\<not> json_space c \<and> punctuation c = None \<and> c \<noteq> quote"
proof (cases "c = CHR ''-''")
  case True
  have "\<not> json_space (CHR ''-'') \<and> punctuation (CHR ''-'') = None \<and> CHR ''-'' \<noteq> quote"
    by code_simp
  with True show ?thesis by simp
next
  case False
  then have digit: "is_digit c" using assms by simp
  have "\<forall>x\<in>{CHR ''{'', CHR ''}'', CHR ''['', CHR '']'', CHR '':'', CHR '','', CHR '' '', quote}. \<not> is_digit x"
    by code_simp
  then have "c \<notin> {CHR ''{'', CHR ''}'', CHR ''['', CHR '']'', CHR '':'', CHR '','', CHR '' '', quote}"
    using digit by blast
  moreover have "48 \<le> char_code c"
    using digit by (simp add: is_digit_def Let_def)
  ultimately show ?thesis
    by (simp add: json_space_def punctuation_def)
qed

lemma lex_int:
  assumes "\<not> number_char c"
  shows "lex (int_string n @ c # r) = cons_token (Val (JNum (double_of_rat (of_int n)))) (lex (c # r))"
proof -
  obtain d ds where d: "int_string n = d # ds" using int_string_chars(1) by (cases "int_string n") auto
  have head: "d = CHR ''-'' \<or> is_digit d" "number_char d" "\<forall>c\<in>set ds. number_char c"
    using int_string_chars(2,3) [of n] by (auto simp: d)
  have "\<not> json_space d \<and> punctuation d = None \<and> d \<noteq> quote"
    by (rule number_start [OF head(1)])
  moreover have "takeWhile number_char (d # ds @ c # r) = int_string n"
    using head assms by (simp add: d takeWhile_tail)
  moreover have "dropWhile number_char (ds @ c # r) = c # r"
    using head(3) assms by (simp add: dropWhile_append2)
  moreover have "json_number (takeWhile number_char (d # ds @ c # r))
      = Inr (JNum (double_of_rat (of_int n)))"
    using calculation(2) json_number_int by simp
  ultimately show ?thesis
    using head(1) lex.simps(2) [of d "ds @ c # r"] unfolding d append_Cons
    by (simp only: sum.case option.case if_False if_True simp_thms)
qed

lemma lex_bool:
  assumes "\<not> is_lower c"
  shows "lex ((if b then ''true'' else ''false'') @ c # r) = cons_token (Val (JBool b)) (lex (c # r))"
proof -
  have start: "\<not> json_space x \<and> punctuation x = None \<and> x \<noteq> quote \<and> \<not> (x = CHR ''-'' \<or> is_digit x)"
    if "x \<in> {CHR ''t'', CHR ''f''}" for x
    using that by (elim insertE emptyE; hypsubst; code_simp)
  have lower: "\<forall>x\<in>{CHR ''r'', CHR ''u'', CHR ''e'', CHR ''a'', CHR ''l'', CHR ''s''}. is_lower x"
    by code_simp
  have run: "takeWhile is_lower (''rue'' @ c # r) = ''rue''" "dropWhile is_lower (''rue'' @ c # r) = c # r"
    "takeWhile is_lower (''alse'' @ c # r) = ''alse''" "dropWhile is_lower (''alse'' @ c # r) = c # r"
    using assms lower by simp_all
  have words: "json_word (CHR ''t'' # ''rue'') = Inr (JBool True)" "json_word (CHR ''f'' # ''alse'') = Inr (JBool False)"
    by (simp_all add: json_word_def)
  have "lex (CHR ''t'' # ''rue'' @ c # r) = cons_token (Val (JBool True)) (lex (c # r))"
    using start [of "CHR ''t''"] unfolding lex.simps(2) [of "CHR ''t''"] run words by simp
  moreover have "lex (CHR ''f'' # ''alse'' @ c # r) = cons_token (Val (JBool False)) (lex (c # r))"
    using start [of "CHR ''f''"] unfolding lex.simps(2) [of "CHR ''f''"] run words by simp
  ultimately show ?thesis by (simp del: lex.simps)
qed

fun field_tokens :: "(string \<times> field_value) list \<Rightarrow> token list" where
  "field_tokens [] = []"
| "field_tokens [(k, v)] = [Val (JString k), Colon, Val (field_json v)]"
| "field_tokens ((k, v) # kvs) =
     Val (JString k) # Colon # Val (field_json v) # Comma # field_tokens kvs"

lemma lex_field:
  assumes "clean_field (k, v)" "\<not> number_char c" "\<not> is_lower c"
  shows "lex (field_text (k, v) @ c # r)
       = cons_token (Val (JString k)) (cons_token Colon (cons_token (Val (field_json v)) (lex (c # r))))"
proof (cases v)
  case (FInt n)
  then show ?thesis
    using assms lex_clean [of k "CHR '':'' # int_string n @ c # r"]
    by (simp add: clean_field_def field_text_def field_json_def punctuation_facts lex_int del: lex.simps)
next
  case (FText s)
  then show ?thesis
    using assms lex_clean [of k "CHR '':'' # quote # s @ quote # c # r"] lex_clean [of s "c # r"]
    by (simp add: clean_field_def field_text_def field_json_def punctuation_facts del: lex.simps)
next
  case (FBool b)
  have "lex (field_text (k, v) @ c # r) = cons_token (Val (JString k)) (cons_token Colon
      (lex ((if b then ''true'' else ''false'') @ c # r)))"
    using assms(1) FBool lex_clean [of k "CHR '':'' # (if b then ''true'' else ''false'') @ c # r"]
    by (simp add: clean_field_def field_text_def punctuation_facts del: lex.simps split del: if_split)
  then show ?thesis
    using FBool unfolding lex_bool [OF assms(3)] by (simp add: field_json_def)
qed

lemma lex_fields:
  assumes "kvs \<noteq> []" "\<forall>kv\<in>set kvs. clean_field kv"
  shows "lex (join '','' (map field_text kvs) @ ''}'') = Inr (field_tokens kvs @ [RBrace])"
  using assms
proof (induction kvs rule: field_tokens.induct)
  case (2 k v)
  have "\<not> number_char (CHR ''}'')" "\<not> is_lower (CHR ''}'')" by code_simp+
  with 2 show ?case
    by (simp add: lex_field punctuation_facts cons_token_def del: lex.simps(2))
next
  case (3 k v kv kvs)
  have "\<not> number_char (CHR '','')" "\<not> is_lower (CHR '','')" by code_simp+
  with 3 show ?case
    by (simp add: lex_field punctuation_facts cons_token_def del: lex.simps(2))
qed simp

lemma parse_field_tokens:
  assumes "kvs \<noteq> []" "phase = FirstKey \<or> phase = NeedKey"
  shows "parse_tokens ([FObject m], phase) (field_tokens kvs @ [RBrace])
       = Some (JObject (foldl (\<lambda>m (k, v). map_set k (field_json v) m) m kvs))"
  using assms
proof (induction kvs arbitrary: m phase rule: field_tokens.induct)
  case (3 k v kv kvs)
  have "parse_tokens ([FObject m], phase) (field_tokens ((k, v) # kv # kvs) @ [RBrace])
      = parse_tokens ([FObject (map_set k (field_json v) m)], NeedKey) (field_tokens (kv # kvs) @ [RBrace])"
    using 3(3) by (auto simp: start_value_def)
  with 3(1) show ?case by simp
qed (auto simp: start_value_def)

lemma json_parse_record:
  assumes "kvs \<noteq> []" "\<forall>kv\<in>set kvs. clean_field kv"
  shows "json_parse (record_line kvs)
       = Inr (JObject (foldl (\<lambda>m (k, v). map_set k (field_json v) m) map_empty kvs))"
  using lex_fields [OF assms] parse_field_tokens [OF assms(1), of FirstKey map_empty]
  by (simp add: json_parse_def record_line_def punctuation_facts cons_token_def start_value_def
      del: lex.simps(2))

section \<open>Round trip\<close>

text \<open>The records of a run, in the order their lines were appended.\<close>

datatype log_record =
    HeaderRec int
  | EventRec int int trace_event
  | MarkerRec trace_marker

definition record_fields :: "log_record \<Rightarrow> (string \<times> field_value) list" where
  "record_fields r =
     (case r of
        HeaderRec pid \<Rightarrow> [(''rec'', FText ''header''), (''v'', FInt TRACE_VERSION), (''pid'', FInt pid)]
      | EventRec flags t e \<Rightarrow>
          [(''rec'', FText ''event''), (''i'', FInt (ev_index e)), (''j'', FInt (ev_completionIndex e)),
           (''call'', FText (call_string (ev_call e))), (''fd'', FInt (ev_fd e)),
           (''tid'', FInt (ev_threadId e)), (''path'', FText (ev_path e)), (''path2'', FText (ev_path2 e)),
           (''off'', FInt (ev_offset e)), (''len'', FInt (ev_length e)), (''ret'', FInt (ev_returnValue e)),
           (''err'', FInt (ev_errno e)), (''flags'', FInt flags), (''t'', FInt t),
           (''dig'', FText (ev_digest e))]
      | MarkerRec m \<Rightarrow>
          [(''rec'', FText ''marker''), (''i'', FInt (mk_index m)), (''tid'', FInt (mk_threadId m)),
           (''text'', FText (mk_text m))])"

definition exact :: "int \<Rightarrow> bool" where
  "exact n \<longleftrightarrow> \<bar>n\<bar> < 2 ^ 53"

definition clean_record :: "log_record \<Rightarrow> bool" where
  "clean_record r =
     (case r of
        HeaderRec pid \<Rightarrow> exact pid
      | EventRec flags t e \<Rightarrow>
          list_all exact [ev_index e, ev_completionIndex e, ev_fd e, ev_threadId e, ev_offset e, ev_length e,
            ev_returnValue e, ev_errno e]
          \<and> list_all clean_text [ev_path e, ev_path2 e, ev_digest e]
      | MarkerRec m \<Rightarrow> list_all exact [mk_index m, mk_threadId m] \<and> clean_text (mk_text m))"

definition trace_text :: "log_record list \<Rightarrow> string" where
  "trace_text rs = concat (map (\<lambda>r. record_line (record_fields r) @ [NL]) rs)"

definition record_json :: "log_record \<Rightarrow> json" where
  "record_json r = JObject (map (\<lambda>(k, v). (k, field_json v)) (record_fields r))"

definition events_of :: "log_record list \<Rightarrow> trace_event list" where
  "events_of rs = List.map_filter (\<lambda>r. case r of EventRec _ _ e \<Rightarrow> Some e | _ \<Rightarrow> None) rs"

definition markers_of :: "log_record list \<Rightarrow> trace_marker list" where
  "markers_of rs = List.map_filter (\<lambda>r. case r of MarkerRec m \<Rightarrow> Some m | _ \<Rightarrow> None) rs"

definition first_pid :: "log_record list \<Rightarrow> int option" where
  "first_pid rs = (case List.map_filter (\<lambda>r. case r of HeaderRec pid \<Rightarrow> Some pid | _ \<Rightarrow> None) rs of
     [] \<Rightarrow> None | pid # _ \<Rightarrow> Some pid)"

lemma clean_calls: "clean_text (call_string c)"
  by (cases c) (simp_all add: clean_text_def, code_simp+)

lemma clean_names:
  "\<forall>w\<in>{''rec'', ''v'', ''pid'', ''i'', ''j'', ''call'', ''fd'', ''tid'', ''path'', ''path2'', ''off'', ''len'',
     ''ret'', ''err'', ''flags'', ''t'', ''dig'', ''text'', ''header'', ''event'', ''marker''}. clean_text w"
  by code_simp

lemma record_fields_clean:
  "clean_record r \<Longrightarrow> record_fields r \<noteq> [] \<and> (\<forall>kv\<in>set (record_fields r). clean_field kv)"
  using clean_names
  by (cases r) (simp_all add: record_fields_def clean_record_def clean_field_def clean_calls)

lemma record_keys_distinct: "distinct (map fst (record_fields r))"
  by (cases r) (simp_all add: record_fields_def)

lemma json_parse_line:
  assumes "clean_record r"
  shows "json_parse (record_line (record_fields r)) = Inr (record_json r)"
proof -
  have "foldl (\<lambda>m (k, v). map_set k (field_json v) m) [] (record_fields r)
      = map (\<lambda>(k, v). (k, field_json v)) (record_fields r)"
    using fold_map_set_fresh [of "[]" "record_fields r" field_json] record_keys_distinct [of r] by simp
  then show ?thesis
    using json_parse_record [of "record_fields r"] record_fields_clean [OF assms]
    by (simp add: record_json_def map_empty_def)
qed

text \<open>Lines of clean records contain no line break and are not blank.\<close>

lemma NL_code: "char_code NL = 10"
  by code_simp

lemma int_string_no_NL: "NL \<notin> set (int_string n)"
proof
  assume "NL \<in> set (int_string n)"
  then have "number_char NL" using int_string_chars(2) by blast
  moreover have "\<not> number_char NL" by code_simp
  ultimately show False by simp
qed

lemma clean_text_no_NL: "clean_text s \<Longrightarrow> NL \<notin> set s"
  using NL_code by (auto simp: clean_text_def)

lemma field_text_no_NL: "clean_field kv \<Longrightarrow> NL \<notin> set (field_text kv)"
proof -
  have "NL \<noteq> quote" "NL \<noteq> CHR '':''" "NL \<notin> set ''true''" "NL \<notin> set ''false''" by code_simp+
  then show "clean_field kv \<Longrightarrow> NL \<notin> set (field_text kv)"
    by (auto simp: clean_field_def field_text_def int_string_no_NL dest: clean_text_no_NL
        split: field_value.splits)
qed

lemma set_join_chars: "c \<in> set (join sep ws) \<Longrightarrow> c \<in> set sep \<or> (\<exists>w\<in>set ws. c \<in> set w)"
  by (induction sep ws rule: join.induct) auto

lemma record_line_no_NL:
  assumes "\<forall>kv\<in>set kvs. clean_field kv"
  shows "NL \<notin> set (record_line kvs)"
proof -
  have "NL \<noteq> CHR ''{''" "NL \<noteq> CHR ''}''" "NL \<noteq> CHR '',''" by code_simp+
  then show ?thesis
    using assms field_text_no_NL by (auto simp: record_line_def dest!: set_join_chars)
qed

lemma trace_lines:
  assumes "\<forall>r\<in>set rs. clean_record r"
  shows "filter (\<lambda>line. trim line \<noteq> []) (split_on NL (trace_text rs))
       = map (\<lambda>r. record_line (record_fields r)) rs"
proof -
  let ?ls = "map (\<lambda>r. record_line (record_fields r)) rs"
  have "trace_text rs = concat (map (\<lambda>l. l @ [NL]) ?ls)"
    by (simp add: trace_text_def comp_def)
  moreover have "\<forall>l\<in>set ?ls. NL \<notin> set l"
    using assms record_fields_clean record_line_no_NL by auto
  ultimately have "split_on NL (trace_text rs) = ?ls @ [[]]"
    using split_lines by metis
  moreover have "trim (record_line kvs) \<noteq> []" for kvs
  proof
    assume "trim (record_line kvs) = []"
    then have "\<forall>c\<in>set (record_line kvs). is_space c"
      using blank_iff [of "record_line kvs"] by (simp add: blank_def)
    moreover have "\<not> is_space (CHR ''{'')" by code_simp
    ultimately show False by (simp add: record_line_def)
  qed
  moreover have "trim [] = []" by (simp add: trim_def)
  ultimately show ?thesis by (simp add: filter_id_conv)
qed

text \<open>Reading the records back.\<close>

lemma field_json_exact: "exact n \<Longrightarrow> field_json (FInt n) = JNum (Some (of_int n))"
  by (simp add: field_json_def exact_def double_of_rat_int)

lemma as_int_of_int: "as_int (Some (JNum (Some (of_int n)))) = Inr n"
  by (simp add: as_int_def)

lemmas read_simps = record_json_def record_fields_def property_def map_get_def int_field_def
  string_field_def call_field_def as_string_def field_json_exact as_int_of_int

lemma has_rec_json:
  "has_rec ''header'' (record_json r) = Inr (case r of HeaderRec _ \<Rightarrow> True | _ \<Rightarrow> False)"
  "has_rec ''event'' (record_json r) = Inr (case r of EventRec _ _ _ \<Rightarrow> True | _ \<Rightarrow> False)"
  "has_rec ''marker'' (record_json r) = Inr (case r of MarkerRec _ \<Rightarrow> True | _ \<Rightarrow> False)"
  by (cases r; simp add: has_rec_def read_simps field_json_def)+

lemma toEvent_json: "clean_record (EventRec flags t e) \<Longrightarrow> toEvent (record_json (EventRec flags t e)) = Inr e"
  by (simp add: toEvent_def clean_record_def read_simps)
    (simp add: field_json_def)

lemma toMarker_json: "clean_record (MarkerRec m) \<Longrightarrow> toMarker (record_json (MarkerRec m)) = Inr m"
  by (simp add: toMarker_def clean_record_def read_simps) (simp add: field_json_def)

lemma filter_result_total:
  "(\<And>x. x \<in> set xs \<Longrightarrow> P x = Inr (p x)) \<Longrightarrow> filter_result P xs = Inr (filter p xs)"
  by (induction xs) auto

lemma find_result_total:
  "(\<And>x. x \<in> set xs \<Longrightarrow> P x = Inr (p x)) \<Longrightarrow> find_result P xs = Inr (List.find p xs)"
  by (induction xs) auto

lemma read_events:
  assumes "\<forall>r\<in>set rs. clean_record r"
  shows "result_bind (filter_result (has_rec ''event'') (map record_json rs)) (map_result toEvent)
       = Inr (events_of rs)"
  using assms
proof (induction rs)
  case (Cons r rs)
  then obtain ys where ys: "filter_result (has_rec ''event'') (map record_json rs) = Inr ys"
    "map_result toEvent ys = Inr (events_of rs)"
    by (cases "filter_result (has_rec ''event'') (map record_json rs)") auto
  show ?case
    using Cons.prems ys
    by (cases r) (simp_all add: has_rec_json toEvent_json events_of_def map_filter_simps)
qed (simp add: events_of_def map_filter_simps)

lemma read_markers:
  assumes "\<forall>r\<in>set rs. clean_record r"
  shows "result_bind (filter_result (has_rec ''marker'') (map record_json rs)) (map_result toMarker)
       = Inr (markers_of rs)"
  using assms
proof (induction rs)
  case (Cons r rs)
  then obtain ys where ys: "filter_result (has_rec ''marker'') (map record_json rs) = Inr ys"
    "map_result toMarker ys = Inr (markers_of rs)"
    by (cases "filter_result (has_rec ''marker'') (map record_json rs)") auto
  show ?case
    using Cons.prems ys
    by (cases r) (simp_all add: has_rec_json toMarker_json markers_of_def map_filter_simps)
qed (simp add: markers_of_def map_filter_simps)

lemma find_header:
  "find_result (has_rec ''header'') (map record_json rs)
   = Inr (map_option (\<lambda>pid. record_json (HeaderRec pid)) (first_pid rs))"
proof (induction rs)
  case (Cons r rs)
  then show ?case
    by (cases r) (simp_all add: has_rec_json first_pid_def map_filter_simps)
qed (simp add: first_pid_def map_filter_simps)

lemma header_version: "check_version (record_json (HeaderRec pid)) = Inr ()"
  by (simp add: check_version_def read_simps TRACE_VERSION_def exact_def field_json_exact)

lemma header_pid: "exact pid \<Longrightarrow> int_field (record_json (HeaderRec pid)) ''pid'' = Inr pid"
  by (simp add: read_simps)

lemma first_pid_clean:
  "first_pid rs = Some pid \<Longrightarrow> \<forall>r\<in>set rs. clean_record r \<Longrightarrow> exact pid"
proof (induction rs)
  case (Cons r rs)
  then show ?case
    by (cases r) (auto simp: first_pid_def map_filter_simps clean_record_def)
qed (simp add: first_pid_def map_filter_simps)

text \<open>Reading a sequence of clean records.\<close>

lemma read_records:
  assumes "\<forall>r\<in>set rs. clean_record r"
  shows "parseTrace (trace_text rs) =
    (case first_pid rs of
       None \<Rightarrow> Inl (Error ''trace has no header record'')
     | Some pid \<Rightarrow> Inr \<lparr>tr_header = \<lparr>hd_version = TRACE_VERSION, hd_pid = pid\<rparr>,
         tr_events = sort_key ev_index (events_of rs),
         tr_markers = sort_key mk_index (markers_of rs)\<rparr>)"
proof -
  have records: "map_result json_parse (map (\<lambda>r. record_line (record_fields r)) rs)
      = Inr (map record_json rs)"
    using assms by (induction rs) (simp_all add: json_parse_line)
  obtain es where es: "filter_result (has_rec ''event'') (map record_json rs) = Inr es"
    "map_result toEvent es = Inr (events_of rs)"
    using read_events [OF assms]
    by (cases "filter_result (has_rec ''event'') (map record_json rs)") auto
  obtain ms where ms: "filter_result (has_rec ''marker'') (map record_json rs) = Inr ms"
    "map_result toMarker ms = Inr (markers_of rs)"
    using read_markers [OF assms]
    by (cases "filter_result (has_rec ''marker'') (map record_json rs)") auto
  show ?thesis
  proof (cases "first_pid rs")
    case None
    then show ?thesis
      by (simp add: parseTrace_def trace_lines [OF assms] records find_header)
  next
    case (Some pid)
    then show ?thesis
      using es ms header_pid [OF first_pid_clean [OF Some assms]]
      by (simp add: parseTrace_def trace_lines [OF assms] records find_header header_version)
  qed
qed

lemma read_ok:
  assumes "\<forall>r\<in>set rs. clean_record r" "first_pid rs = Some pid"
  shows "\<exists>trace. parseTrace (trace_text rs) = Inr trace"
  using assms by (simp add: read_records)

text \<open>C16: round trip of the trace text. Whatever records the shim appended, in whatever interleaving of
  its processes, the reader returns all events and all markers, each with every field, in the order
  of their submission stamps, under the first header; without a header it reports that error.\<close>

theorem parse_trace_roundtrip:
  assumes "\<forall>r\<in>set rs. clean_record r"
  shows "parseTrace (trace_text rs) =
    (case first_pid rs of
       None \<Rightarrow> Inl (Error ''trace has no header record'')
     | Some pid \<Rightarrow> Inr \<lparr>tr_header = \<lparr>hd_version = TRACE_VERSION, hd_pid = pid\<rparr>,
         tr_events = sort_key ev_index (events_of rs),
         tr_markers = sort_key mk_index (markers_of rs)\<rparr>)"
  using assms by (rule read_records)

definition sample_records :: "log_record list" where
  "sample_records =
     [HeaderRec 7, EventRec 0 1755285600123456789 (op_event CFsync ''/d/log'' 5 (-1) 0 0),
      MarkerRec \<lparr>mk_index = 0, mk_threadId = 1, mk_text = ''op=1 phase=begin''\<rparr>,
      HeaderRec 8, EventRec 0 1755285600123456000 (op_event CPwrite ''/d/log'' 3 0 1024 1024)]"

lemma parse_trace_roundtrip_witness:
  "parseTrace (trace_text sample_records) =
     Inr \<lparr>tr_header = \<lparr>hd_version = 1, hd_pid = 7\<rparr>,
       tr_events = [op_event CPwrite ''/d/log'' 3 0 1024 1024, op_event CFsync ''/d/log'' 5 (-1) 0 0],
       tr_markers = [\<lparr>mk_index = 0, mk_threadId = 1, mk_text = ''op=1 phase=begin''\<rparr>]\<rparr>"
proof -
  have "clean_text ''/d/log'' \<and> clean_text ''op=1 phase=begin'' \<and> clean_text []"
    by code_simp
  then have "\<forall>r\<in>set sample_records. clean_record r"
    by (simp add: sample_records_def clean_record_def exact_def op_event_def)
  then show ?thesis
    unfolding parse_trace_roundtrip [OF \<open>\<forall>r\<in>set sample_records. clean_record r\<close>]
    by (simp add: sample_records_def first_pid_def events_of_def markers_of_def map_filter_simps
        op_event_def TRACE_VERSION_def sort_key_def)
qed

text \<open>The submission stamps alone decide the order. Two interleavings of the same records with distinct
  stamps are read as the same events and markers.\<close>

lemma parse_trace_interleaving:
  assumes "\<forall>r\<in>set rs. clean_record r" "mset rs = mset rs'"
    and "distinct (map ev_index (events_of rs))" "distinct (map mk_index (markers_of rs))"
    and "parseTrace (trace_text rs) = Inr trace" "parseTrace (trace_text rs') = Inr trace'"
  shows "tr_events trace = tr_events trace' \<and> tr_markers trace = tr_markers trace'"
proof -
  have clean': "\<forall>r\<in>set rs'. clean_record r"
    using assms(1,2) by (metis set_mset_mset)
  have mf: "mset (List.map_filter f xs) = mset (List.map_filter f ys)" if "mset xs = mset ys"
    for f :: "log_record \<Rightarrow> 'b option" and xs ys
    using that unfolding map_filter_def by (metis mset_filter mset_map)
  have stable: "sort_key f xs = sort_key f ys" if "mset xs = mset ys" "distinct (map f xs)"
    for f :: "'c \<Rightarrow> int" and xs ys
  proof (rule map_sorted_distinct_set_unique)
    have same: "set xs = set ys" "mset (map f xs) = mset (map f ys)"
      using that(1) by (rule mset_eq_setD, simp only: mset_map that(1))
    then show "set (sort_key f xs) = set (sort_key f ys)" by simp
    show "inj_on f (set (sort_key f xs) \<union> set (sort_key f ys))"
      using that(2) same(1) by (simp add: distinct_map)
    have sorted_distinct: "distinct (map f (sort_key f zs)) \<longleftrightarrow> distinct (map f zs)" for zs
      by (rule mset_eq_imp_distinct_iff) simp
    show "distinct (map f (sort_key f xs))" "distinct (map f (sort_key f ys))"
      using that(2) mset_eq_imp_distinct_iff [OF same(2)] by (simp_all only: sorted_distinct)
  qed simp_all
  have "tr_events trace = sort_key ev_index (events_of rs)"
    "tr_markers trace = sort_key mk_index (markers_of rs)"
    using assms(5) by (auto simp: read_records [OF assms(1)] split: option.splits)
  moreover have "tr_events trace' = sort_key ev_index (events_of rs')"
    "tr_markers trace' = sort_key mk_index (markers_of rs')"
    using assms(6) by (auto simp: read_records [OF clean'] split: option.splits)
  moreover have "sort_key ev_index (events_of rs) = sort_key ev_index (events_of rs')"
    "sort_key mk_index (markers_of rs) = sort_key mk_index (markers_of rs')"
    using assms(2-4) by (auto simp: events_of_def markers_of_def intro!: stable mf)
  ultimately show ?thesis by simp
qed

lemma parse_trace_interleaving_example:
  "\<exists>trace trace'. parseTrace (trace_text sample_records) = Inr trace
     \<and> parseTrace (trace_text (rev sample_records)) = Inr trace'
     \<and> tr_events trace = tr_events trace' \<and> tr_markers trace = tr_markers trace'"
proof -
  have "clean_text ''/d/log'' \<and> clean_text ''op=1 phase=begin'' \<and> clean_text []"
    by code_simp
  then have clean: "\<forall>r\<in>set sample_records. clean_record r"
    by (simp add: sample_records_def clean_record_def exact_def op_event_def)
  then have clean': "\<forall>r\<in>set (rev sample_records). clean_record r" by simp
  have "first_pid sample_records = Some 7" "first_pid (rev sample_records) = Some 8"
    by (simp_all add: sample_records_def first_pid_def map_filter_simps)
  then obtain trace trace' where t: "parseTrace (trace_text sample_records) = Inr trace"
    "parseTrace (trace_text (rev sample_records)) = Inr trace'"
    using read_ok [OF clean] read_ok [OF clean'] by auto
  have "distinct (map ev_index (events_of sample_records))" "distinct (map mk_index (markers_of sample_records))"
    by (simp_all add: sample_records_def events_of_def markers_of_def map_filter_simps op_event_def)
  then show ?thesis
    using parse_trace_interleaving [OF clean _ _ _ t] t by auto
qed

end
