(* ===== verification/Campaign.thy ===== *)
theory Campaign
  imports Image Bounds Reader CrashPoints Sample Dedup Enumeration
begin

text \<open>
  \<open>core/src/campaign/campaign.ts\<close>: one trace through the pipeline. The effectful loop materialises and
  recovers one image per sampled state; what it reports is proved to be a pure function of the
  recoveries it saw, and the properties of the findings are about that function.
\<close>

definition IMAGE_BYTES :: int where
  "IMAGE_BYTES = 512 * 1024 * 1024"

record 'o campaign_options =
  co_tracePath :: string
  co_casDir :: string
  co_rootDir :: string
  co_imageDir :: string
  co_dbName :: string
  co_model :: filesystem_model
  co_filesystem :: filesystem
  co_mountOptions :: "string option"
  co_seed :: int
  co_recover :: "string \<Rightarrow> ('o world, recovery_result) io"

record finding =
  fi_signature :: string
  fi_violation :: violation
  fi_occurrences :: nat
  fi_state :: crash_state
  fi_imagePath :: string

record campaign_result =
  cr_crashPointsTested :: nat
  cr_statesTested :: nat
  cr_findings :: "finding list"

definition image_name :: "nat \<Rightarrow> string" where
  "image_name index = ''state-'' @ nat_string index @ ''.img''"

definition image_path :: "string \<Rightarrow> nat \<Rightarrow> string" where
  "image_path imageDir index = path_join imageDir (image_name index)"

text \<open>\<open>trace.events[state.crashPoint]?.index ?? 0\<close>\<close>

definition crash_stamp :: "trace \<Rightarrow> crash_state \<Rightarrow> int" where
  "crash_stamp trace state =
     (if cs_crashPoint state < length (tr_events trace)
      then ev_index (tr_events trace ! cs_crashPoint state) else 0)"

definition unknown_operation :: "int \<Rightarrow> acked_operation" where
  "unknown_operation crashStamp =
     \<lparr>ao_op = -1, ao_kind = '''', ao_key = '''', ao_digest = '''', ao_beganAt = 0,
      ao_acknowledgedAt = Some crashStamp, ao_durable = False\<rparr>"

definition violation_signature ::
    "trace \<Rightarrow> acked_operation list \<Rightarrow> int \<Rightarrow> crash_state \<Rightarrow> violation \<Rightarrow> string" where
  "violation_signature trace ackLog crashStamp state violation =
     (let operation = List.find (\<lambda>entry. Some (ao_op entry) = vi_op violation) ackLog in
      signatureOf violation state trace
        (case operation of Some entry \<Rightarrow> entry | None \<Rightarrow> unknown_operation crashStamp))"

definition record_violation ::
    "trace \<Rightarrow> acked_operation list \<Rightarrow> int \<Rightarrow> crash_state \<Rightarrow> string
     \<Rightarrow> (string, finding) js_map \<Rightarrow> violation \<Rightarrow> (string, finding) js_map" where
  "record_violation trace ackLog crashStamp state imagePath findings violation =
     (let signature = violation_signature trace ackLog crashStamp state violation in
      case map_get findings signature of
        None \<Rightarrow> map_set signature \<lparr>fi_signature = signature, fi_violation = violation,
                  fi_occurrences = 1, fi_state = state, fi_imagePath = imagePath\<rparr> findings
      | Some existing \<Rightarrow>
          map_set signature (existing\<lparr>fi_occurrences := fi_occurrences existing + 1\<rparr>) findings)"

definition tally_state ::
    "trace \<Rightarrow> acked_operation list \<Rightarrow> string \<Rightarrow> crash_state \<Rightarrow> recovery_result
     \<Rightarrow> (string, finding) js_map \<Rightarrow> (string, finding) js_map" where
  "tally_state trace ackLog imagePath state recovery findings =
     (let crashStamp = crash_stamp trace state;
          violations = checkOracle \<lparr>oi_crashStamp = crashStamp, oi_ackLog = ackLog, oi_recovery = recovery\<rparr>
      in foldl (record_violation trace ackLog crashStamp state imagePath) findings violations)"

definition is_evidence :: "(string, finding) js_map \<Rightarrow> string \<Rightarrow> bool" where
  "is_evidence findings imagePath \<longleftrightarrow> list_ex (\<lambda>f. fi_imagePath f = imagePath) (map_values findings)"

text \<open>One iteration of the loop over the states.\<close>

definition campaign_state ::
    "'o env \<Rightarrow> 'o campaign_options \<Rightarrow> trace \<Rightarrow> acked_operation list \<Rightarrow> nat \<times> crash_state
     \<Rightarrow> (string, finding) js_map \<times> nat \<Rightarrow> ('o world, (string, finding) js_map \<times> nat) io" where
  "campaign_state env options trace ackLog item acc =
     (case (item, acc) of ((index, state), (findings, statesTested)) \<Rightarrow>
        let imagePath = image_path (co_imageDir options) index in
        io_seq
          (materializeState env trace state
            \<lparr>mo_spec = \<lparr>is_imagePath = imagePath, is_filesystem = co_filesystem options,
               is_sizeBytes = IMAGE_BYTES\<rparr>,
             mo_mountOptions = co_mountOptions options, mo_casDir = co_casDir options,
             mo_rootDir = co_rootDir options\<rparr>)
          (io_bind (withMount env imagePath (co_recover options) (co_mountOptions options)) (\<lambda>recovery.
            let findings' = tally_state trace ackLog imagePath state recovery findings in
            io_seq
              (if is_evidence findings' imagePath then io_return ()
               else on_fs (rm_force (resolve (en_cwd env) imagePath)))
              (io_return (findings', statesTested + 1)))))"

text \<open>The states the campaign runs: sampled from the enumeration of the selected crash points.\<close>

definition campaign_points :: "trace \<Rightarrow> loaded_bounds \<Rightarrow> int \<Rightarrow> nat list" where
  "campaign_points trace bnds seed =
     selectCrashPoints trace
       \<lparr>so_nonFsyncSampleRate = lb_nonFsyncSampleRate bnds, so_seed = seed,
        so_maxExhaustiveWorkloadOps = Some (lb_maxExhaustiveWorkloadOps bnds)\<rparr>"

definition campaign_states ::
    "trace \<Rightarrow> filesystem_model \<Rightarrow> loaded_bounds \<Rightarrow> int \<Rightarrow> crash_state list result" where
  "campaign_states trace model bnds seed =
     result_bind
       (enumerateCrashStates trace
         \<lparr>eo_model = model,
          eo_bounds = \<lparr>tornWrites = lb_tornWrites bnds,
                       maxUnpersistedWindow = lb_maxUnpersistedWindow bnds\<rparr>,
          eo_crashPoints = Some (campaign_points trace bnds seed)\<rparr>)
       (\<lambda>states. Inr (sampleStates states
          \<lparr>sa_maxPerCrashPoint = lb_maxStatesPerCrashPoint bnds, sa_seed = seed\<rparr>))"

definition io_result :: "'a result \<Rightarrow> ('s, 'a) io" where
  "io_result r s = (r, s)"

definition runCampaign ::
    "'o env \<Rightarrow> segs \<Rightarrow> 'o campaign_options \<Rightarrow> ('o world, campaign_result) io" where
  "runCampaign env boundsPath options =
     io_bind (on_fs (loadBounds boundsPath)) (\<lambda>bnds.
     io_bind (on_fs (read_file (resolve (en_cwd env) (co_tracePath options)))) (\<lambda>bs.
     io_bind (io_result (result_bind (utf8_text bs) parseTrace)) (\<lambda>trace.
     let ackLog = parseAckLog trace in
     io_bind (io_result (campaign_states trace (co_model options) bnds (co_seed options))) (\<lambda>states.
     io_bind (io_fold (campaign_state env options trace ackLog) (map_empty, 0)
                (List.enumerate 0 states)) (\<lambda>(findings, statesTested).
       io_return \<lparr>cr_crashPointsTested = length (campaign_points trace bnds (co_seed options)),
                  cr_statesTested = statesTested, cr_findings = map_values findings\<rparr>)))))"

section \<open>The findings as a function of the recoveries\<close>

text \<open>A violation of a run: the index of its state, the state, its signature and itself.\<close>

record sighting =
  si_index :: nat
  si_state :: crash_state
  si_signature :: string
  si_violation :: violation

definition state_violations ::
    "trace \<Rightarrow> acked_operation list \<Rightarrow> crash_state \<Rightarrow> recovery_result \<Rightarrow> violation list" where
  "state_violations trace ackLog state recovery =
     checkOracle \<lparr>oi_crashStamp = crash_stamp trace state, oi_ackLog = ackLog, oi_recovery = recovery\<rparr>"

definition state_sightings ::
    "trace \<Rightarrow> acked_operation list \<Rightarrow> nat \<times> crash_state \<times> recovery_result \<Rightarrow> sighting list" where
  "state_sightings trace ackLog tested =
     (case tested of (index, state, recovery) \<Rightarrow>
        map (\<lambda>v. \<lparr>si_index = index, si_state = state,
              si_signature = violation_signature trace ackLog (crash_stamp trace state) state v,
              si_violation = v\<rparr>)
          (state_violations trace ackLog state recovery))"

definition sightings ::
    "trace \<Rightarrow> acked_operation list \<Rightarrow> (nat \<times> crash_state \<times> recovery_result) list \<Rightarrow> sighting list" where
  "sightings trace ackLog runs = concat (map (state_sightings trace ackLog) runs)"

definition count_sighting :: "string \<Rightarrow> finding option \<Rightarrow> sighting \<Rightarrow> finding" where
  "count_sighting imageDir old s =
     (case old of
        None \<Rightarrow> \<lparr>fi_signature = si_signature s, fi_violation = si_violation s, fi_occurrences = 1,
                 fi_state = si_state s, fi_imagePath = image_path imageDir (si_index s)\<rparr>
      | Some f \<Rightarrow> f\<lparr>fi_occurrences := fi_occurrences f + 1\<rparr>)"

definition findings_of ::
    "trace \<Rightarrow> acked_operation list \<Rightarrow> string \<Rightarrow> (nat \<times> crash_state \<times> recovery_result) list
     \<Rightarrow> (string, finding) js_map" where
  "findings_of trace ackLog imageDir runs =
     foldl (\<lambda>findings (index, state, recovery).
         tally_state trace ackLog (image_path imageDir index) state recovery findings) map_empty runs"

lemma tally_state_loop:
  "tally_state trace ackLog (image_path imageDir index) state recovery findings =
     foldl (\<lambda>m s. case Some (si_signature s) of None \<Rightarrow> m
        | Some k \<Rightarrow> map_set k (count_sighting imageDir (map_get m k) s) m) findings
       (state_sightings trace ackLog (index, state, recovery))"
  unfolding tally_state_def state_sightings_def state_violations_def Let_def prod.case foldl_map
  by (intro arg_cong2 [where f = "\<lambda>f. foldl f findings"] refl ext)
    (auto simp: record_violation_def Let_def count_sighting_def split: option.splits)

lemma findings_of_loop:
  "findings_of trace ackLog imageDir runs =
     foldl (\<lambda>m s. case Some (si_signature s) of None \<Rightarrow> m
        | Some k \<Rightarrow> map_set k (count_sighting imageDir (map_get m k) s) m) map_empty
       (sightings trace ackLog runs)"
proof -
  have "foldl (\<lambda>findings (index, state, recovery).
         tally_state trace ackLog (image_path imageDir index) state recovery findings) m runs
      = foldl (\<lambda>m s. case Some (si_signature s) of None \<Rightarrow> m
        | Some k \<Rightarrow> map_set k (count_sighting imageDir (map_get m k) s) m) m (sightings trace ackLog runs)" for m
    by (induction runs arbitrary: m) (auto simp: sightings_def tally_state_loop)
  then show ?thesis by (simp add: findings_of_def)
qed

lemma findings_wf: "map_wf (findings_of trace ackLog imageDir runs)"
  unfolding findings_of_loop by (rule jsmap.loop_invar) simp

lemma findings_keys:
  "map fst (findings_of trace ackLog imageDir runs)
   = set_of_list (map si_signature (sightings trace ackLog runs))"
  unfolding findings_of_loop
    jsmap.loop_keys [where key = "\<lambda>s. Some (si_signature s)" and upd = "count_sighting imageDir"]
  by (simp add: map_filter_def comp_def)

lemma count_sighting_simps:
  "count_sighting imageDir None s =
     \<lparr>fi_signature = si_signature s, fi_violation = si_violation s, fi_occurrences = 1,
      fi_state = si_state s, fi_imagePath = image_path imageDir (si_index s)\<rparr>"
  "count_sighting imageDir (Some f) s = f\<lparr>fi_occurrences := fi_occurrences f + 1\<rparr>"
  by (simp_all add: count_sighting_def)

lemma count_loop:
  "foldl (\<lambda>acc s. Some (count_sighting imageDir acc s)) (Some f) ss
   = Some (f\<lparr>fi_occurrences := fi_occurrences f + length ss\<rparr>)"
proof (induction ss arbitrary: f)
  case (Cons s ss)
  show ?case
    by (simp add: Cons.IH count_sighting_simps)
qed simp

text \<open>The finding of a signature: the first sighting, with the number of sightings.\<close>

lemma findings_get:
  "map_get (findings_of trace ackLog imageDir runs) signature =
     (case filter (\<lambda>s. si_signature s = signature) (sightings trace ackLog runs) of
        [] \<Rightarrow> None
      | s # others \<Rightarrow> Some \<lparr>fi_signature = signature, fi_violation = si_violation s,
          fi_occurrences = Suc (length others), fi_state = si_state s,
          fi_imagePath = image_path imageDir (si_index s)\<rparr>)"
proof -
  let ?ss = "filter (\<lambda>s. si_signature s = signature) (sightings trace ackLog runs)"
  have "map_get (findings_of trace ackLog imageDir runs) signature
      = foldl (\<lambda>acc s. Some (count_sighting imageDir acc s)) None ?ss"
    unfolding findings_of_loop
      jsmap.loop_get [OF map_wf_empty, where key = "\<lambda>s. Some (si_signature s)" and upd = "count_sighting imageDir"]
    by simp
  also have "\<dots> = (case ?ss of [] \<Rightarrow> None
      | s # others \<Rightarrow> Some \<lparr>fi_signature = signature, fi_violation = si_violation s,
          fi_occurrences = Suc (length others), fi_state = si_state s,
          fi_imagePath = image_path imageDir (si_index s)\<rparr>)"
  proof (cases ?ss)
    case (Cons s others)
    then have "s \<in> set ?ss" by simp
    then have "si_signature s = signature" by simp
    with Cons show ?thesis
      by (simp add: count_loop count_sighting_simps)
  qed simp
  finally show ?thesis .
qed

lemma findings_key:
  assumes "map_get (findings_of trace ackLog imageDir runs) k = Some f"
  shows "fi_signature f = k"
  using assms unfolding findings_get
  by (cases "filter (\<lambda>s. si_signature s = k) (sightings trace ackLog runs)") auto

lemma findings_occurrences:
  assumes "map_get (findings_of trace ackLog imageDir runs) k = Some f"
  shows "fi_occurrences f = length (filter (\<lambda>s. si_signature s = k) (sightings trace ackLog runs))"
  using assms unfolding findings_get
  by (cases "filter (\<lambda>s. si_signature s = k) (sightings trace ackLog runs)") auto

lemma in_findings:
  "f \<in> set (map_values (findings_of trace ackLog imageDir runs)) \<longleftrightarrow>
     map_get (findings_of trace ackLog imageDir runs) (fi_signature f) = Some f"
proof -
  let ?m = "findings_of trace ackLog imageDir runs"
  have "f \<in> set (map_values ?m) \<longleftrightarrow> (\<exists>k. (k, f) \<in> set ?m)"
    by (force simp: map_values_def)
  also have "\<dots> \<longleftrightarrow> (\<exists>k. map_get ?m k = Some f)"
    by (simp add: jsmap.entries_in_get [OF findings_wf])
  also have "\<dots> \<longleftrightarrow> map_get ?m (fi_signature f) = Some f"
    using findings_key by metis
  finally show ?thesis .
qed

lemma findings_signatures:
  "map fi_signature (map_values (findings_of trace ackLog imageDir runs))
   = set_of_list (map si_signature (sightings trace ackLog runs))"
proof -
  let ?m = "findings_of trace ackLog imageDir runs"
  have "fi_signature f = k" if "(k, f) \<in> set ?m" for k f
    using that unfolding jsmap.entries_in_get [OF findings_wf] by (rule findings_key)
  then have "map fi_signature (map_values ?m) = map fst ?m"
    by (auto simp: map_values_def)
  then show ?thesis by (simp add: findings_keys)
qed

text \<open>Counting a list by its distinct values.\<close>

lemma sum_by_value:
  assumes "distinct ks" "set (map g xs) = set ks"
  shows "(\<Sum>k\<leftarrow>ks. length (filter (\<lambda>x. g x = k) xs)) = length xs"
proof -
  have "(\<Sum>k\<leftarrow>ks. length (filter (\<lambda>x. g x = k) ys)) = length ys" if "set (map g ys) \<subseteq> set ks" for ys
    using that
  proof (induction ys)
    case (Cons y ys)
    have "(\<Sum>k\<leftarrow>ks. length (filter (\<lambda>x. g x = k) (y # ys)))
        = (\<Sum>k\<leftarrow>ks. (if g y = k then 1 else 0) + length (filter (\<lambda>x. g x = k) ys))"
      by (intro arg_cong [where f = sum_list] map_cong) auto
    also have "\<dots> = (\<Sum>k\<leftarrow>ks. if g y = k then 1 else 0) + length ys"
      using Cons by (simp add: sum_list_addf)
    also have "(\<Sum>k\<leftarrow>ks. if g y = k then 1 else 0) = (1::nat)"
    proof -
      have "(\<Sum>k\<leftarrow>ks. if g y = k then 1 else 0) = (\<Sum>k\<in>set ks. if g y = k then 1 else (0::nat))"
        using assms(1) by (simp add: sum_list_distinct_conv_sum_set)
      also have "\<dots> = 1" using Cons.prems by simp
      finally show ?thesis .
    qed
    finally show ?case by simp
  qed simp
  then show ?thesis using assms(2) by simp
qed

section \<open>Properties\<close>

text \<open>C20: deduplication. The findings have distinct signatures, in the order of their first sighting; the
  occurrences of all findings add up to the number of violations seen; and there is no finding
  exactly when the oracle accepts every recovered image.\<close>

theorem findings_deduplicated:
  "map fi_signature (map_values (findings_of trace ackLog imageDir runs))
     = set_of_list (map si_signature (sightings trace ackLog runs))
   \<and> (\<Sum>f\<leftarrow>map_values (findings_of trace ackLog imageDir runs). fi_occurrences f)
     = (\<Sum>(index, state, recovery)\<leftarrow>runs. length (state_violations trace ackLog state recovery))
   \<and> (map_values (findings_of trace ackLog imageDir runs) = [] \<longleftrightarrow>
        list_all (\<lambda>(index, state, recovery). state_violations trace ackLog state recovery = []) runs)"
proof (intro conjI)
  let ?m = "findings_of trace ackLog imageDir runs" and ?ss = "sightings trace ackLog runs"
  let ?count = "\<lambda>k. length (filter (\<lambda>s. si_signature s = k) ?ss)"
  show sigs: "map fi_signature (map_values ?m) = set_of_list (map si_signature ?ss)"
    by (rule findings_signatures)
  have "fi_occurrences f = ?count (fi_signature f)" if "f \<in> set (map_values ?m)" for f
    using that unfolding in_findings by (rule findings_occurrences)
  then have "(\<Sum>f\<leftarrow>map_values ?m. fi_occurrences f) = (\<Sum>f\<leftarrow>map_values ?m. ?count (fi_signature f))"
    by (intro arg_cong [where f = sum_list] map_cong refl)
  also have "\<dots> = (\<Sum>k\<leftarrow>set_of_list (map si_signature ?ss). ?count k)"
    by (simp flip: sigs add: comp_def)
  also have "\<dots> = length ?ss"
    by (rule sum_by_value) simp_all
  also have "\<dots> = (\<Sum>(index, state, recovery)\<leftarrow>runs. length (state_violations trace ackLog state recovery))"
    by (induction runs) (auto simp: sightings_def state_sightings_def)
  finally show "(\<Sum>f\<leftarrow>map_values ?m. fi_occurrences f)
      = (\<Sum>(index, state, recovery)\<leftarrow>runs. length (state_violations trace ackLog state recovery))" .
  have "map_values ?m = [] \<longleftrightarrow> set (map fi_signature (map_values ?m)) = {}" by simp
  also have "\<dots> \<longleftrightarrow> ?ss = []" unfolding sigs by simp
  also have "\<dots> \<longleftrightarrow> list_all (\<lambda>(index, state, recovery). state_violations trace ackLog state recovery = []) runs"
    by (induction runs) (auto simp: sightings_def state_sightings_def)
  finally show "map_values ?m = [] \<longleftrightarrow>
      list_all (\<lambda>(index, state, recovery). state_violations trace ackLog state recovery = []) runs" .
qed

lemma filter_concat_first:
  assumes "filter P (concat xss) = s # others"
  shows "\<exists>i<length xss. s \<in> set (xss ! i) \<and> P s \<and> (\<forall>j<i. filter P (xss ! j) = [])"
  using assms
proof (induction xss)
  case (Cons xs xss)
  show ?case
  proof (cases "filter P xs = []")
    case True
    then obtain i where i: "i < length xss" "s \<in> set (xss ! i)" "P s" "\<forall>j<i. filter P (xss ! j) = []"
      using Cons by auto
    then have "\<forall>j<Suc i. filter P ((xs # xss) ! j) = []"
      using True by (auto simp: less_Suc_eq_0_disj)
    with i show ?thesis by (intro exI [of _ "Suc i"]) simp
  next
    case False
    then have "s \<in> set (filter P xs)"
      using Cons.prems by (cases "filter P xs") auto
    then show ?thesis by (intro exI [of _ 0]) simp
  qed
qed simp

text \<open>C21: reproducers. A finding keeps the violation, the state and the image of the first state that
  showed its signature: the state is the one of that index, the violation is one the oracle reported
  for it, the image path is that state's own, and no earlier state showed the signature.\<close>

theorem first_reproducer:
  assumes "map fst runs = [0..<length runs]"
    and "f \<in> set (map_values (findings_of trace ackLog imageDir runs))"
  shows "\<exists>i recovery. i < length runs \<and> runs ! i = (i, fi_state f, recovery)
     \<and> fi_imagePath f = image_path imageDir i
     \<and> fi_violation f \<in> set (state_violations trace ackLog (fi_state f) recovery)
     \<and> fi_signature f = violation_signature trace ackLog (crash_stamp trace (fi_state f)) (fi_state f) (fi_violation f)
     \<and> (\<forall>j<i. fi_signature f \<notin> si_signature ` set (state_sightings trace ackLog (runs ! j)))"
proof -
  let ?P = "\<lambda>s. si_signature s = fi_signature f"
  obtain s others where s: "filter ?P (concat (map (state_sightings trace ackLog) runs)) = s # others"
    "f = \<lparr>fi_signature = fi_signature f, fi_violation = si_violation s, fi_occurrences = Suc (length others),
       fi_state = si_state s, fi_imagePath = image_path imageDir (si_index s)\<rparr>"
    using assms(2) unfolding in_findings findings_get sightings_def
    by (auto split: list.splits)
  obtain i where i: "i < length runs" "s \<in> set (state_sightings trace ackLog (runs ! i))" "?P s"
    "\<forall>j<i. filter ?P (state_sightings trace ackLog (runs ! j)) = []"
    using filter_concat_first [OF s(1)] by auto
  obtain k state recovery where run: "runs ! i = (k, state, recovery)" by (cases "runs ! i")
  have "k = i"
    using arg_cong [OF assms(1), of "\<lambda>xs. xs ! i"] i(1) run by simp
  moreover have "si_index s = k" "si_state s = state"
      "si_violation s \<in> set (state_violations trace ackLog state recovery)"
      "si_signature s = violation_signature trace ackLog (crash_stamp trace state) state (si_violation s)"
    using i(2) by (auto simp: run state_sightings_def)
  moreover have "fi_state f = si_state s" "fi_violation f = si_violation s"
      "fi_imagePath f = image_path imageDir (si_index s)"
    by (subst s(2), simp)+
  moreover have "fi_signature f \<notin> si_signature ` set (state_sightings trace ackLog (runs ! j))" if "j < i" for j
    using i(4) that unfolding filter_empty_conv by (metis imageE)
  ultimately show ?thesis
    using i(1,3) run by (intro exI [of _ i] exI [of _ recovery]) simp
qed

definition lost_runs :: "(nat \<times> crash_state \<times> recovery_result) list" where
  "lost_runs =
     [(0, \<lparr>cs_crashPoint = 4, cs_persisted = [1, 3, 4], cs_partial = []\<rparr>, Opened True [(''k'', ''d1'')] None),
      (1, \<lparr>cs_crashPoint = 4, cs_persisted = [1], cs_partial = []\<rparr>, Opened True [] None),
      (2, \<lparr>cs_crashPoint = 4, cs_persisted = [1], cs_partial = []\<rparr>, Opened True [] None)]"

definition lost_log :: "acked_operation list" where
  "lost_log = [promised_operation 1 ''k'' ''d1'' 8]"

lemma lost_findings:
  "map_values (findings_of log_trace lost_log ''/img'' lost_runs) =
     [\<lparr>fi_signature = ''LOST_ACKED|missing:pwrite@log'', fi_violation = lost_acked 9 (promised_operation 1 ''k'' ''d1'' 8) None,
       fi_occurrences = 2, fi_state = \<lparr>cs_crashPoint = 4, cs_persisted = [1], cs_partial = []\<rparr>,
       fi_imagePath = ''/img/state-1.img''\<rparr>]"
  by code_simp

lemma first_reproducer_witness:
  "\<exists>i recovery. i < 3 \<and> lost_runs ! i = (i, \<lparr>cs_crashPoint = 4, cs_persisted = [1], cs_partial = []\<rparr>, recovery)
     \<and> ''/img/state-1.img'' = image_path ''/img'' i"
proof -
  let ?f = "\<lparr>fi_signature = ''LOST_ACKED|missing:pwrite@log'', fi_violation = lost_acked 9 (promised_operation 1 ''k'' ''d1'' 8) None,
       fi_occurrences = 2, fi_state = \<lparr>cs_crashPoint = 4, cs_persisted = [1], cs_partial = []\<rparr>,
       fi_imagePath = ''/img/state-1.img''\<rparr>"
  have "?f \<in> set (map_values (findings_of log_trace lost_log ''/img'' lost_runs))"
    by (simp add: lost_findings)
  moreover have "map fst lost_runs = [0..<length lost_runs]"
    by (simp add: lost_runs_def upt_rec)
  moreover have "length lost_runs = 3" by (simp add: lost_runs_def)
  ultimately show ?thesis
    using first_reproducer [of lost_runs ?f log_trace lost_log "''/img''"] by auto
qed

section \<open>The loop\<close>

text \<open>
  What it means to test states one after the other. A run has seen some states already, given with their
  recoveries. The next state is materialised into the image of its index, the target's recovery runs in
  the mount of that image, and the image stays on the disk exactly if the recovery violates the oracle
  with a signature that no state before it has shown; otherwise it is removed.
\<close>

definition new_signature ::
    "trace \<Rightarrow> (nat \<times> crash_state \<times> recovery_result) list \<Rightarrow> nat \<times> crash_state \<times> recovery_result \<Rightarrow> bool" where
  "new_signature trace seen tested \<longleftrightarrow>
     (\<exists>s\<in>set (state_sightings trace (parseAckLog trace) tested).
        si_signature s \<notin> si_signature ` set (sightings trace (parseAckLog trace) seen))"

definition state_image :: "'o campaign_options \<Rightarrow> nat \<Rightarrow> materialize_options" where
  "state_image options index =
     \<lparr>mo_spec = \<lparr>is_imagePath = image_path (co_imageDir options) index, is_filesystem = co_filesystem options,
        is_sizeBytes = IMAGE_BYTES\<rparr>,
      mo_mountOptions = co_mountOptions options, mo_casDir = co_casDir options, mo_rootDir = co_rootDir options\<rparr>"

inductive tests ::
    "'o env \<Rightarrow> 'o campaign_options \<Rightarrow> trace \<Rightarrow> (nat \<times> crash_state \<times> recovery_result) list
     \<Rightarrow> (nat \<times> crash_state) list \<Rightarrow> recovery_result list \<Rightarrow> 'o world \<Rightarrow> 'o world \<Rightarrow> bool"
  for env options trace where
  tests_none: "tests env options trace seen [] [] w w"
| tests_next:
    "materializeState env trace state (state_image options index) w = (Inr (), w1) \<Longrightarrow>
     withMount env (image_path (co_imageDir options) index) (co_recover options) (co_mountOptions options) w1
       = (Inr recovery, w2) \<Longrightarrow>
     (if new_signature trace seen (index, state, recovery) then w3 = w2
      else on_fs (rm_force (resolve (en_cwd env) (image_path (co_imageDir options) index))) w2 = (Inr (), w3)) \<Longrightarrow>
     tests env options trace (seen @ [(index, state, recovery)]) items recoveries w3 w' \<Longrightarrow>
     tests env options trace seen ((index, state) # items) (recovery # recoveries) w w'"

inductive_cases tests_cases:
  "tests env options trace seen [] recoveries w w'"
  "tests env options trace seen (item # items) recoveries w w'"

lemma tests_length: "tests env options trace seen items recoveries w w' \<Longrightarrow> length recoveries = length items"
  by (induction rule: tests.induct) simp_all

lemma plain_image_name: "plain_segment (image_name k)"
proof -
  have "c \<noteq> CHR ''/''" if "c \<in> set (nat_string k)" for c
  proof -
    have "is_digit c" using that nat_string_digits [of k] by blast
    then show ?thesis by (auto simp: is_digit_def char_code_def)
  qed
  then show ?thesis by (auto simp: plain_segment_def image_name_def)
qed

lemma image_path_inj: "image_path dir i = image_path dir j \<longleftrightarrow> i = j"
proof
  assume "image_path dir i = image_path dir j"
  then have "image_name i = image_name j"
    unfolding image_path_def by (rule path_join_inj [OF plain_image_name plain_image_name])
  then show "i = j" by (simp add: image_name_def nat_string_inj)
qed simp

lemma findings_snoc:
  "tally_state trace ackLog (image_path dir index) state recovery (findings_of trace ackLog dir seen)
   = findings_of trace ackLog dir (seen @ [(index, state, recovery)])"
  by (simp add: findings_of_def)

text \<open>An image is evidence exactly if its state was the first to show one of its signatures.\<close>

lemma evidence_iff:
  assumes "index \<notin> fst ` set seen"
  shows "is_evidence (findings_of trace (parseAckLog trace) dir (seen @ [(index, state, recovery)])) (image_path dir index)
     \<longleftrightarrow> new_signature trace seen (index, state, recovery)"
proof -
  let ?log = "parseAckLog trace" and ?run = "(index, state, recovery)"
  let ?old = "sightings trace ?log seen" and ?new = "state_sightings trace ?log ?run"
  have split: "sightings trace ?log (seen @ [?run]) = ?old @ ?new" by (simp add: sightings_def)
  have old: "si_index s \<noteq> index" if "s \<in> set ?old" for s
    using assms that by (force simp: sightings_def state_sightings_def)
  have new: "si_index s = index" if "s \<in> set ?new" for s
    using that by (auto simp: state_sightings_def)
  have get: "(\<exists>f. map_get (findings_of trace ?log dir (seen @ [?run])) k = Some f \<and> fi_imagePath f = image_path dir index)
      \<longleftrightarrow> k \<in> si_signature ` set ?new \<and> k \<notin> si_signature ` set ?old" for k
  proof (cases "filter (\<lambda>s. si_signature s = k) ?old")
    case Nil
    then have fresh: "k \<notin> si_signature ` set ?old" by (auto simp: filter_empty_conv)
    show ?thesis
    proof (cases "filter (\<lambda>s. si_signature s = k) ?new")
      case Nil
      then have "k \<notin> si_signature ` set ?new" by (auto simp: filter_empty_conv)
      then show ?thesis
        using \<open>filter (\<lambda>s. si_signature s = k) ?old = []\<close> Nil by (simp add: findings_get split)
    next
      case (Cons s others)
      then have "s \<in> set (filter (\<lambda>s. si_signature s = k) ?new)" by simp
      then have s: "s \<in> set ?new" "si_signature s = k" by simp_all
      then show ?thesis
        using \<open>filter (\<lambda>s. si_signature s = k) ?old = []\<close> Cons fresh new [OF s(1)]
        by (auto simp: findings_get split)
    qed
  next
    case (Cons s others)
    then have "s \<in> set (filter (\<lambda>s. si_signature s = k) ?old)" by simp
    then have s: "s \<in> set ?old" "si_signature s = k" by simp_all
    then show ?thesis
      using Cons old [OF s(1)] by (auto simp: findings_get split image_path_inj)
  qed
  have member: "f \<in> set (map_values (findings_of trace ?log dir (seen @ [?run])))
      \<longleftrightarrow> (\<exists>k. map_get (findings_of trace ?log dir (seen @ [?run])) k = Some f)" for f
    unfolding in_findings by (auto dest: findings_key)
  have "is_evidence (findings_of trace ?log dir (seen @ [?run])) (image_path dir index)
      \<longleftrightarrow> (\<exists>k f. map_get (findings_of trace ?log dir (seen @ [?run])) k = Some f \<and> fi_imagePath f = image_path dir index)"
    unfolding is_evidence_def list_ex_iff Bex_def member by blast
  also have "\<dots> \<longleftrightarrow> (\<exists>k. k \<in> si_signature ` set ?new \<and> k \<notin> si_signature ` set ?old)"
    using get by blast
  finally show ?thesis by (auto simp: new_signature_def)
qed

text \<open>One iteration, and the loop.\<close>

lemma campaign_state_iff:
  assumes "index \<notin> fst ` set seen"
  shows "campaign_state env options trace (parseAckLog trace) (index, state)
      (findings_of trace (parseAckLog trace) (co_imageDir options) seen, n) w = (Inr (findings', n'), w')
   \<longleftrightarrow> (\<exists>w1 recovery w2.
        materializeState env trace state (state_image options index) w = (Inr (), w1)
        \<and> withMount env (image_path (co_imageDir options) index) (co_recover options) (co_mountOptions options) w1
          = (Inr recovery, w2)
        \<and> (if new_signature trace seen (index, state, recovery) then w' = w2
           else on_fs (rm_force (resolve (en_cwd env) (image_path (co_imageDir options) index))) w2 = (Inr (), w'))
        \<and> findings' = findings_of trace (parseAckLog trace) (co_imageDir options) (seen @ [(index, state, recovery)])
        \<and> n' = n + 1)"
proof -
  have keep: "(if P then io_return () else m) u = (Inr x, v) \<longleftrightarrow> (if P then v = u else m u = (Inr (), v))"
    for P x u v and m :: "('a world, unit) io"
    by (cases P) (auto simp: io_return_def)
  show ?thesis
    unfolding campaign_state_def Let_def prod.case findings_snoc evidence_iff [OF assms] state_image_def [symmetric]
      io_seq_def io_bind_Inr_iff keep
    by (simp add: io_return_def cong: conj_cong split del: if_split) blast
qed

lemma campaign_fold_iff:
  assumes "distinct (map fst seen @ map fst items)"
  shows "io_fold (campaign_state env options trace (parseAckLog trace))
      (findings_of trace (parseAckLog trace) (co_imageDir options) seen, n) items w = (Inr (findings', n'), w')
   \<longleftrightarrow> (\<exists>recoveries. tests env options trace seen items recoveries w w'
        \<and> n' = n + length items
        \<and> findings' = findings_of trace (parseAckLog trace) (co_imageDir options)
            (seen @ map2 (\<lambda>(index, state) recovery. (index, state, recovery)) items recoveries))"
  using assms
proof (induction items arbitrary: seen n w)
  case Nil
  then show ?case by (auto simp: io_return_def intro: tests_none elim: tests_cases)
next
  case (Cons item items)
  obtain index state where item: "item = (index, state)" by (cases item)
  have fresh: "index \<notin> fst ` set seen" using Cons.prems by (auto simp: item)
  have rest: "distinct (map fst (seen @ [(index, state, recovery)]) @ map fst items)" for recovery :: recovery_result
    using Cons.prems by (simp add: item)
  show ?case (is "?l \<longleftrightarrow> ?r")
  proof
    assume ?l
    then obtain f1 n1 w3 where one: "campaign_state env options trace (parseAckLog trace) (index, state)
          (findings_of trace (parseAckLog trace) (co_imageDir options) seen, n) w = (Inr (f1, n1), w3)"
      and more: "io_fold (campaign_state env options trace (parseAckLog trace)) (f1, n1) items w3 = (Inr (findings', n'), w')"
      by (auto simp: item io_bind_Inr_iff)
    from one obtain w1 recovery w2 where step:
      "materializeState env trace state (state_image options index) w = (Inr (), w1)"
      "withMount env (image_path (co_imageDir options) index) (co_recover options) (co_mountOptions options) w1 = (Inr recovery, w2)"
      "if new_signature trace seen (index, state, recovery) then w3 = w2
       else on_fs (rm_force (resolve (en_cwd env) (image_path (co_imageDir options) index))) w2 = (Inr (), w3)"
      "f1 = findings_of trace (parseAckLog trace) (co_imageDir options) (seen @ [(index, state, recovery)])" "n1 = n + 1"
      unfolding campaign_state_iff [OF fresh] by blast
    obtain recoveries where "tests env options trace (seen @ [(index, state, recovery)]) items recoveries w3 w'"
      "n' = n1 + length items" "findings' = findings_of trace (parseAckLog trace) (co_imageDir options)
          ((seen @ [(index, state, recovery)]) @ map2 (\<lambda>(index, state) recovery. (index, state, recovery)) items recoveries)"
      using more unfolding step(4) Cons.IH [OF rest] by blast
    then show ?r
      using tests_next [OF step(1,2,3)] step(5) by (intro exI [of _ "recovery # recoveries"]) (simp add: item)
  next
    assume ?r
    then obtain recoveries' where t: "tests env options trace seen ((index, state) # items) recoveries' w w'"
      "n' = n + Suc (length items)" "findings' = findings_of trace (parseAckLog trace) (co_imageDir options)
          (seen @ map2 (\<lambda>(index, state) recovery. (index, state, recovery)) ((index, state) # items) recoveries')"
      by (auto simp: item)
    from t(1) obtain w1 recovery w2 w3 recoveries where step:
      "materializeState env trace state (state_image options index) w = (Inr (), w1)"
      "withMount env (image_path (co_imageDir options) index) (co_recover options) (co_mountOptions options) w1 = (Inr recovery, w2)"
      "if new_signature trace seen (index, state, recovery) then w3 = w2
       else on_fs (rm_force (resolve (en_cwd env) (image_path (co_imageDir options) index))) w2 = (Inr (), w3)"
      "tests env options trace (seen @ [(index, state, recovery)]) items recoveries w3 w'"
      "recoveries' = recovery # recoveries"
      by (cases rule: tests.cases) auto
    let ?f = "findings_of trace (parseAckLog trace) (co_imageDir options) (seen @ [(index, state, recovery)])"
    have "campaign_state env options trace (parseAckLog trace) (index, state)
          (findings_of trace (parseAckLog trace) (co_imageDir options) seen, n) w = (Inr (?f, n + 1), w3)"
      unfolding campaign_state_iff [OF fresh] using step(1,2,3) by blast
    moreover have "io_fold (campaign_state env options trace (parseAckLog trace)) (?f, n + 1) items w3
        = (Inr (findings', n'), w')"
      unfolding Cons.IH [OF rest] using step(4) t(2,3) by (auto simp: step(5))
    ultimately show ?l by (auto simp: item io_bind_Inr_iff)
  qed
qed

lemma campaign_loop_iff:
  "io_fold (campaign_state env options trace (parseAckLog trace)) (map_empty, 0) (List.enumerate 0 states) w
     = (Inr (findings, n), w')
   \<longleftrightarrow> (\<exists>recoveries. tests env options trace [] (List.enumerate 0 states) recoveries w w' \<and> n = length states
        \<and> findings = findings_of trace (parseAckLog trace) (co_imageDir options)
            (map2 (\<lambda>(index, state) recovery. (index, state, recovery)) (List.enumerate 0 states) recoveries))"
proof -
  have "findings_of trace (parseAckLog trace) (co_imageDir options) [] = map_empty" by (simp add: findings_of_def)
  then show ?thesis
    using campaign_fold_iff [of "[]" "List.enumerate 0 states" env options trace 0 w findings n w'] by simp
qed

text \<open>The enumeration inside a campaign cannot fail: every selected crash point is in the trace.\<close>

lemma campaign_states_total: "\<exists>states. campaign_states trace model bnds seed = Inr states"
proof -
  have "\<forall>cp\<in>set (campaign_points trace bnds seed). cp < length (tr_events trace)"
    by (auto simp: campaign_points_def in_selectCrashPoints)
  then show ?thesis
    by (simp add: campaign_states_def enumerate_cases crash_points_of_def)
qed

text \<open>The bounds and the trace are read without changing the disk.\<close>

lemma read_file_state: "snd (read_file p s) = s"
  by (auto simp: read_file_def with_node_def sys_error_def io_throw_def split: option.splits node.splits)

lemma loadBounds_state: "snd (loadBounds p s) = s"
  using read_file_state [of p s] by (auto simp: loadBounds_def io_bind_def split: prod.splits sum.splits)

lemma on_fs_reads:
  assumes "\<And>s. snd (m s) = s"
  shows "on_fs m w = (Inr x, w') \<longleftrightarrow> fst (m (wd_fs w)) = Inr x \<and> w' = w"
  using assms [of "wd_fs w"] by (cases "m (wd_fs w)") (auto simp: on_fs_def)

text \<open>What a campaign did when it returns, and that it returns whenever this can be done.\<close>

lemma campaign_run_iff:
  "runCampaign env boundsPath options w = (Inr result, w') \<longleftrightarrow>
   (\<exists>bnds bs trace states recoveries.
      fst (loadBounds boundsPath (wd_fs w)) = Inr bnds
      \<and> fst (read_file (resolve (en_cwd env) (co_tracePath options)) (wd_fs w)) = Inr bs
      \<and> result_bind (utf8_text bs) parseTrace = Inr trace
      \<and> campaign_states trace (co_model options) bnds (co_seed options) = Inr states
      \<and> tests env options trace [] (List.enumerate 0 states) recoveries w w'
      \<and> result = \<lparr>cr_crashPointsTested = length (campaign_points trace bnds (co_seed options)),
          cr_statesTested = length states,
          cr_findings = map_values (findings_of trace (parseAckLog trace) (co_imageDir options)
            (map2 (\<lambda>(index, state) recovery. (index, state, recovery)) (List.enumerate 0 states) recoveries))\<rparr>)"
  (is "?l \<longleftrightarrow> ?r")
proof
  assume ?l
  then obtain bnds bs trace states findings n where
    "fst (loadBounds boundsPath (wd_fs w)) = Inr bnds"
    "fst (read_file (resolve (en_cwd env) (co_tracePath options)) (wd_fs w)) = Inr bs"
    "result_bind (utf8_text bs) parseTrace = Inr trace"
    "campaign_states trace (co_model options) bnds (co_seed options) = Inr states"
    "io_fold (campaign_state env options trace (parseAckLog trace)) (map_empty, 0) (List.enumerate 0 states) w
      = (Inr (findings, n), w')"
    "result = \<lparr>cr_crashPointsTested = length (campaign_points trace bnds (co_seed options)),
        cr_statesTested = n, cr_findings = map_values findings\<rparr>"
    by (auto simp: runCampaign_def io_bind_Inr_iff io_result_def Let_def io_return_def
        on_fs_reads [OF read_file_state] on_fs_reads [OF loadBounds_state])
  then show ?r unfolding campaign_loop_iff by blast
next
  assume ?r
  then show ?l
    by (fastforce simp: runCampaign_def io_bind_Inr_iff io_result_def Let_def io_return_def campaign_loop_iff
        on_fs_reads [OF read_file_state] on_fs_reads [OF loadBounds_state])
qed

text \<open>A disk with a bounds file and a trace that has a header only.\<close>

definition small_bounds :: "(string \<times> field_value) list" where
  "small_bounds =
     [(''crashPoints'', FText ''all''), (''nonFsyncSampleRate'', FInt 0), (''maxUnpersistedWindow'', FInt 8),
      (''maxExhaustiveWorkloadOps'', FInt 3), (''maxStatesPerCrashPoint'', FInt 24), (''tornWrites'', FBool True),
      (''tornWriteGranularityBytes'', FInt 512), (''maxTornOpsPerState'', FInt 1)]"

definition text_bytes :: "string \<Rightarrow> byte list" where
  "text_bytes s = map (\<lambda>c. word_of_nat (char_code c)) s"

definition campaign_world :: "unit world" where
  "campaign_world = \<lparr>wd_fs = \<lparr>fs_nodes = [([''b''], File 0), ([''t''], File 1)],
     fs_inodes = [(0, text_bytes (record_line small_bounds)), (1, text_bytes (trace_text [HeaderRec 7]))],
     fs_next = 2\<rparr>, wd_os = (), wd_log = []\<rparr>"

definition small_campaign :: "unit campaign_options" where
  "small_campaign = \<lparr>co_tracePath = ''/t'', co_casDir = ''/cas'', co_rootDir = ''/d'', co_imageDir = ''/img'',
     co_dbName = ''db'', co_model = xfs, co_filesystem = Xfs, co_mountOptions = None, co_seed = 1,
     co_recover = (\<lambda>dir. io_return (Failed ''no database''))\<rparr>"

lemma utf8_text_bytes:
  assumes "\<forall>c\<in>set s. char_code c < 128"
  shows "utf8_text (text_bytes s) = Inr s"
proof -
  have "unat (word_of_nat (char_code c) :: byte) = char_code c" if "c \<in> set s" for c
  proof -
    have "char_code c < 2 ^ 8" using assms that by fastforce
    then show ?thesis by (simp add: unat_of_nat take_bit_nat_eq_self)
  qed
  then show ?thesis
    using assms by (induction s) (auto simp: utf8_text_def text_bytes_def list_all_iff char_code_def)
qed

lemma field_json_text: "field_json (FText s) = JString s" "field_json (FBool b) = JBool b"
  by (simp_all add: field_json_def)

lemma small_line: "\<forall>c\<in>set (record_line small_bounds). char_code c < 128 \<and> c \<noteq> CHR ''/''"
  unfolding list_all_iff [symmetric] by code_simp

lemma small_trace_line: "\<forall>c\<in>set (trace_text [HeaderRec 7]). char_code c < 128"
  unfolding list_all_iff [symmetric] by code_simp

lemma small_record: "\<exists>lb. as_bounds (JObject (map (\<lambda>(k, v). (k, field_json v)) small_bounds)) = Inr lb
    \<and> lb_maxUnpersistedWindow lb = 8"
  by (simp add: small_bounds_def as_bounds_def property_def map_get_def int_field_def string_field_def
      rat_field_def bool_field_def field_json_exact exact_def field_json_text as_int_def as_string_def as_rat_def as_bool_def)

lemma small_parse: "\<exists>lb. parse_bounds (record_line small_bounds) = Inr lb \<and> lb_maxUnpersistedWindow lb = 8"
proof -
  have strip: "stripComments (record_line small_bounds) = record_line small_bounds"
    using small_line by (intro strip_no_slash) blast
  have "\<forall>kv\<in>set small_bounds. clean_field kv"
    unfolding list_all_iff [symmetric] by code_simp
  then have "json_parse (record_line small_bounds)
      = Inr (JObject (foldl (\<lambda>m (k, v). map_set k (field_json v) m) map_empty small_bounds))"
    by (intro json_parse_record) (simp add: small_bounds_def)
  also have "foldl (\<lambda>m (k, v). map_set k (field_json v) m) map_empty small_bounds
      = map (\<lambda>(k, v). (k, field_json v)) small_bounds"
    by (simp add: small_bounds_def map_set_def map_empty_def)
  finally show ?thesis
    using small_record by (auto simp: parse_bounds_def strip)
qed

lemma small_load:
  "\<exists>lb. loadBounds [''b''] (wd_fs campaign_world) = (Inr lb, wd_fs campaign_world) \<and> lb_maxUnpersistedWindow lb = 8"
proof -
  obtain lb where lb: "parse_bounds (record_line small_bounds) = Inr lb" "lb_maxUnpersistedWindow lb = 8"
    using small_parse by blast
  have "loadBounds [''b''] (wd_fs campaign_world) = (Inr lb, wd_fs campaign_world)"
    using utf8_text_bytes [of "record_line small_bounds"] small_line lb(1)
    by (simp add: loadBounds_def io_bind_def read_file_def with_node_def walk_error_def ancestors_def
        fs_lookup_def campaign_world_def map_get_def inode_content_def)
  with lb(2) show ?thesis by blast
qed

end
