(* ===== verification/FileStore.thy ===== *)
theory FileStore
  imports Durability Recover Campaign
begin

text \<open>
  The positive control end to end: replaying a crash state, reading the directory back with
  \<open>recoverFileKv\<close> and asking the oracle. The recovery is proved to be a function of the store of files
  alone, which gives the soundness of the pipeline: a store that synced what it acknowledged is
  never accused.
\<close>

section \<open>The directory as a store\<close>

lemma resolve_join:
  assumes "starts_char (CHR ''/'') dir" "plain_segment name"
  shows "resolve cwd (path_join dir name) = resolve cwd dir @ [name]"
proof -
  have name: "CHR ''/'' \<notin> set name" "norm_step acc name = acc @ [name]" for acc
    using assms(2) by (auto simp: plain_segment_def norm_step_def)
  have "segments (dir @ ''/'' @ name) = segments dir @ [name]"
    using split_on_last [OF name(1), of dir] by (simp add: segments_def)
  then have joined: "norm_from [] (segments (dir @ ''/'' @ name)) = resolve cwd dir @ [name]"
    using assms(1) by (simp add: norm_from_def resolve_def name(2))
  have "starts_char (CHR ''/'') (dir @ ''/'' @ name)" "dir \<noteq> []"
    using assms(1) by (auto simp: starts_char_def)
  then have "path_join dir name = path_string (resolve cwd dir @ [name])"
    unfolding path_join_def Let_def by (simp only: if_False if_True joined)
  moreover have "plain (resolve cwd dir @ [name])"
    using plain_resolve assms(2) by (auto simp: plain_def)
  ultimately show ?thesis by (simp add: resolve_path_string)
qed

text \<open>What recovery sees of a file: nothing for scratch files and the marker, else its digest.\<close>

definition hidden_name :: "string \<Rightarrow> bool" where
  "hidden_name name \<longleftrightarrow> ends_with ''.tmp'' name \<or> name = ''crashfuzz.marker''"

definition seen_value :: "store \<Rightarrow> segs \<Rightarrow> string \<Rightarrow> string option" where
  "seen_value st T name = (if hidden_name name then None else map_option sha256 (st (T @ [name])))"

lemma entry_lookup:
  "(name, n) \<in> set (dir_entries s d) \<longleftrightarrow> fs_lookup s (d @ [name]) = Some n"
proof
  assume "fs_lookup s (d @ [name]) = Some n"
  moreover from this have "(d @ [name], n) \<in> set (fs_nodes s)"
    by (auto simp: fs_lookup_def map_get_def dest: map_of_SomeD)
  then have "name \<in> set (entry_names s d)"
    by (force simp: entry_names_def map_filter_def)
  ultimately show "(name, n) \<in> set (dir_entries s d)"
    by (force simp: dir_entries_def map_filter_def)
qed (auto simp: dir_entries_def map_filter_def split: option.splits)

definition kv_step :: "string \<Rightarrow> string \<Rightarrow> string \<times> node \<Rightarrow> (string, string) js_map \<Rightarrow> (fs, (string, string) js_map) io" where
  "kv_step cwd mountDir entry vals =
     (if \<not> is_value_file entry then io_return vals
      else io_bind (read_file (resolve cwd (path_join mountDir (fst entry)))) (\<lambda>bs.
        io_return (map_set (fst entry) (sha256 bs) vals)))"

lemma dir_ready_below: "dir_ready T s \<Longrightarrow> under_dirs s (T @ [n])"
  by (auto simp: dir_ready_def under_dirs_def ancestors_snoc ancestor_prefix strict_prefix_def)

lemma kv_step_effect:
  assumes ready: "dir_ready (resolve cwd dir) s" and abs: "starts_char (CHR ''/'') dir"
    and entry: "fs_lookup s (resolve cwd dir @ [name]) = Some n" "plain_segment name"
  shows "\<exists>vals'. kv_step cwd dir (name, n) vals s = (Inr vals', s)
    \<and> (\<forall>k. map_get vals' k = (if k = name \<and> n \<noteq> Dir \<and> \<not> hidden_name name
          then seen_value (files s) (resolve cwd dir) name else map_get vals k))"
proof (cases n)
  case Dir
  then show ?thesis by (simp add: kv_step_def is_value_file_def io_return_def)
next
  case i: (File i)
  let ?p = "resolve cwd dir @ [name]"
  from i have content: "tree s ?p = Some (F (inode_content s i))" using entry(1) by (simp add: tree_def)
  have "under_dirs s ?p" by (rule dir_ready_below [OF ready])
  then have read: "read_file ?p s = (Inr (inode_content s i), s)" using content by (rule read_effect)
  have join: "resolve cwd (path_join dir name) = ?p" by (rule resolve_join [OF abs entry(2)])
  have seen: "seen_value (files s) (resolve cwd dir) name = Some (sha256 (inode_content s i))" if "\<not> hidden_name name"
    using that content by (simp add: seen_value_def files_def)
  have "is_value_file (name, n) \<longleftrightarrow> \<not> hidden_name name"
    by (auto simp: is_value_file_def hidden_name_def i)
  then show ?thesis
    using seen i by (auto simp: kv_step_def io_bind_def io_return_def join read)
qed

lemma kv_fold_effect:
  assumes "dir_ready (resolve cwd dir) s" "starts_char (CHR ''/'') dir"
    and "\<forall>(name, n)\<in>set es. fs_lookup s (resolve cwd dir @ [name]) = Some n \<and> plain_segment name"
  shows "\<exists>vals'. io_fold (kv_step cwd dir) vals es s = (Inr vals', s)
    \<and> (\<forall>k. map_get vals' k = (if (\<exists>i. (k, File i) \<in> set es) \<and> \<not> hidden_name k
          then seen_value (files s) (resolve cwd dir) k else map_get vals k))"
  using assms(3)
proof (induction es arbitrary: vals)
  case Nil
  then show ?case by (simp add: io_return_def)
next
  case (Cons e es)
  obtain name n where e: "e = (name, n)" by (cases e)
  obtain v1 where v1: "kv_step cwd dir e vals s = (Inr v1, s)"
    "\<forall>k. map_get v1 k = (if k = name \<and> n \<noteq> Dir \<and> \<not> hidden_name name
        then seen_value (files s) (resolve cwd dir) name else map_get vals k)"
    using kv_step_effect [OF assms(1,2)] Cons.prems e by fastforce
  obtain v2 where v2: "io_fold (kv_step cwd dir) v1 es s = (Inr v2, s)"
    "\<forall>k. map_get v2 k = (if (\<exists>i. (k, File i) \<in> set es) \<and> \<not> hidden_name k
        then seen_value (files s) (resolve cwd dir) k else map_get v1 k)"
    using Cons by fastforce
  have "io_fold (kv_step cwd dir) vals (e # es) s = (Inr v2, s)"
    using v1(1) v2(1) by (simp add: io_bind_def)
  then show ?case
    using v1(2) v2(2) by (intro exI [of _ v2]) (cases n; auto simp: e)
qed

text \<open>Recovery of a directory of plainly named files reads exactly the store.\<close>

lemma recover_store:
  assumes ready: "dir_ready (resolve cwd dir) s" and abs: "starts_char (CHR ''/'') dir"
    and names: "\<forall>name. tree s (resolve cwd dir @ [name]) \<noteq> None \<longrightarrow> plain_segment name"
  shows "\<exists>vals. recoverFileKv cwd dir s = (Inr (Opened True vals None), s)
    \<and> (\<forall>name. map_get vals name = seen_value (files s) (resolve cwd dir) name)"
proof -
  let ?T = "resolve cwd dir"
  have es: "\<forall>(name, n)\<in>set (dir_entries s ?T). fs_lookup s (?T @ [name]) = Some n \<and> plain_segment name"
    using names by (auto simp: entry_lookup tree_None)
  obtain vals where vals: "io_fold (kv_step cwd dir) map_empty (dir_entries s ?T) s = (Inr vals, s)"
    "\<forall>k. map_get vals k = (if (\<exists>i. (k, File i) \<in> set (dir_entries s ?T)) \<and> \<not> hidden_name k
        then seen_value (files s) ?T k else map_get map_empty k)"
    using kv_fold_effect [OF ready abs es] by blast
  have "under_dirs s ?T" "fs_lookup s ?T = Some Dir"
    using ready by (auto simp: dir_ready_def under_dirs_def ancestor_prefix strict_prefix_def tree_Dir [symmetric])
  then have "readdirSync ?T s = (Inr (dir_entries s ?T), s)"
    by (simp add: readdirSync_def with_node_def walk_ok)
  moreover have "seen_value (files s) ?T k = None" if "\<nexists>i. (k, File i) \<in> set (dir_entries s ?T)" for k
    using that by (auto simp: entry_lookup seen_value_def files_def tree_def split: option.splits node.splits)
  moreover have "seen_value (files s) ?T k = None" if "hidden_name k" for k
    using that by (simp add: seen_value_def)
  moreover have "map_get map_empty k = None" for k :: string
    by (simp add: map_get_def map_empty_def)
  ultimately show ?thesis
    using vals unfolding recoverFileKv_def kv_step_def [symmetric]
    by (intro exI [of _ vals]) (auto simp: io_bind_def io_return_def)
qed

section \<open>Names of the files a replay leaves\<close>

lemma plain_rebase: "plain (rebase cwd path options)"
proof -
  have "CHR ''/'' \<notin> set seg" if "seg \<in> set (relative cwd from path)" for seg "from"
  proof -
    have "seg = ''..'' \<or> seg \<in> set (resolve cwd path)"
      using that by (auto simp only: relative_def Let_def set_append Un_iff set_replicate_conv_if empty_iff
          singleton_iff dest: in_set_dropD split: if_splits)
    moreover have "plain_segment seg" if "seg \<in> set (resolve cwd path)"
      using that plain_resolve by (simp only: plain_def)
    ultimately show ?thesis by (auto simp: plain_segment_def)
  qed
  then show ?thesis
    unfolding rebase_def by (intro plain_norm_from plain_resolve) blast
qed

lemma store_fold_domain:
  assumes "foldl (\<lambda>st i. store_step (places cwd options) cas (events ! i) (tornb i) st) st is p \<noteq> None"
  shows "st p \<noteq> None \<or> plain p"
  using assms
proof (induction "is" arbitrary: st)
  case (Cons i "is")
  let ?st = "store_step (places cwd options) cas (events ! i) (tornb i) st"
  have "st p \<noteq> None \<or> plain p" if "?st p \<noteq> None"
    using that plain_rebase
    by (auto simp: store_step_def places_def Let_def split: if_splits)
  then show ?case using Cons by auto
qed simp

section \<open>No false alarm\<close>

text \<open>
  A promise the application kept: the operation's file was synced, not touched again before the crash,
  and its content at the sync has the acknowledged digest.
\<close>

definition kept_promise ::
    "string \<Rightarrow> replay_options \<Rightarrow> (string \<Rightarrow> byte list option) \<Rightarrow> trace_event list \<Rightarrow> nat \<Rightarrow> acked_operation \<Rightarrow> bool" where
  "kept_promise cwd ro cas events cp operation \<longleftrightarrow> \<not> hidden_name (ao_key operation)
     \<and> (\<exists>i\<le>cp. ev_call (events ! i) \<in> PERSISTENCE \<and> 0 \<le> ev_returnValue (events ! i)
          \<and> rebase cwd (ev_path (events ! i)) ro = resolve cwd (ro_targetDir ro) @ [ao_key operation]
          \<and> (\<forall>j. i < j \<and> j \<le> cp \<and> ev_call (events ! j) \<in> MUTATING \<longrightarrow> ev_path (events ! j) \<noteq> ev_path (events ! i))
          \<and> map_option sha256 (content_after cas
               (filter (\<lambda>event. ev_call event \<in> MUTATING \<and> ev_path event = ev_path (events ! i)) (take i events)) None)
            = Some (ao_digest operation))"

text \<open>Writes, truncations and unlinks directly in the traced directory, one spelling per file.\<close>

definition simple_workload :: "string \<Rightarrow> replay_options \<Rightarrow> (string \<Rightarrow> byte list option) \<Rightarrow> trace_event list \<Rightarrow> bool" where
  "simple_workload cwd ro cas events \<longleftrightarrow>
     (\<forall>j<length events. flat_event cwd ro cas (events ! j) \<and> ev_call (events ! j) \<noteq> CRename
        \<and> (\<forall>k<length events. rebase cwd (ev_path (events ! j)) ro = rebase cwd (ev_path (events ! k)) ro
             \<longrightarrow> ev_path (events ! j) = ev_path (events ! k)))"

text \<open>What a disk promises to a set of operations: under each visible key, content with the promised digest.\<close>

definition holds_promises :: "(string \<Rightarrow> byte list option) \<Rightarrow> acked_operation list \<Rightarrow> bool" where
  "holds_promises content operations \<longleftrightarrow>
     (\<forall>operation\<in>set operations. \<not> hidden_name (ao_key operation)
        \<and> map_option sha256 (content (ao_key operation)) = Some (ao_digest operation))"

text \<open>A replayed crash state holds the promises that were kept, and only plainly named files.\<close>

lemma replay_holds_promises:
  assumes states: "enumerateCrashStates trace options = Inr states" "state \<in> set states"
    and window: "0 < maxUnpersistedWindow (eo_bounds options)" "maxUnpersistedWindow (eo_bounds options) \<le> 30"
    and workload: "simple_workload cwd ro cas (tr_events trace)"
    and disk: "replay_ready cwd ro cas s" "\<forall>n. files s (resolve cwd (ro_targetDir ro) @ [n]) = None"
    and kept: "\<forall>operation\<in>set operations. kept_promise cwd ro cas (tr_events trace) (cs_crashPoint state) operation"
  shows "\<exists>t. replaySelection cwd trace ro (selection_of state) s = (Inr (), t) \<and> replay_inv cwd ro cas t
    \<and> (\<forall>p. \<not> in_dir (resolve cwd (ro_targetDir ro)) p \<and> \<not> prefix p (resolve cwd (ro_targetDir ro)) \<longrightarrow> tree t p = tree s p)
    \<and> (\<forall>n. files t (resolve cwd (ro_targetDir ro) @ [n]) \<noteq> None \<longrightarrow> plain_segment n)
    \<and> holds_promises (\<lambda>n. files t (resolve cwd (ro_targetDir ro) @ [n])) operations"
proof -
  let ?e = "tr_events trace" and ?T = "resolve cwd (ro_targetDir ro)" and ?cp = "cs_crashPoint state"
  have cp: "?cp < length ?e"
    using states in_enumerate [OF states(1)] by (auto simp: enumerate_Inr_iff)
  have flat: "\<forall>j<length ?e. flat_event cwd ro cas (?e ! j)"
    using workload by (simp add: simple_workload_def)
  obtain t where t: "replaySelection cwd trace ro (selection_of state) s = (Inr (), t)"
    "replay_inv cwd ro cas t"
    "files t = store_after cwd ro cas ?e (selection_of state) (files s)"
    "\<forall>p. \<not> in_dir ?T p \<and> \<not> prefix p ?T \<longrightarrow> tree t p = tree s p"
    using replay_store [OF disk(1), of trace "selection_of state"] flat by blast
  have "plain_segment n" if "files t (?T @ [n]) \<noteq> None" for n
  proof -
    have "plain (?T @ [n])"
      using that store_fold_domain disk(2) unfolding t(3) store_after_def by blast
    then show ?thesis by (simp add: plain_def)
  qed
  moreover have "holds_promises (\<lambda>n. files t (?T @ [n])) operations"
    unfolding holds_promises_def
  proof
    fix operation assume "operation \<in> set operations"
    then have "kept_promise cwd ro cas ?e ?cp operation" using kept by blast
    then obtain i where i: "\<not> hidden_name (ao_key operation)" "i \<le> ?cp" "ev_call (?e ! i) \<in> PERSISTENCE"
      "0 \<le> ev_returnValue (?e ! i)"
      "rebase cwd (ev_path (?e ! i)) ro = ?T @ [ao_key operation]"
      "\<forall>j. i < j \<and> j \<le> ?cp \<and> ev_call (?e ! j) \<in> MUTATING \<longrightarrow> ev_path (?e ! j) \<noteq> ev_path (?e ! i)"
      "map_option sha256 (content_after cas
           (filter (\<lambda>event. ev_call event \<in> MUTATING \<and> ev_path event = ev_path (?e ! i)) (take i ?e)) None)
        = Some (ao_digest operation)"
      unfolding kept_promise_def by (elim conjE exE) (rule that)
    have "\<forall>j<length ?e. flat_event cwd ro cas (?e ! j) \<and> ev_call (?e ! j) \<noteq> CRename
        \<and> (rebase cwd (ev_path (?e ! j)) ro = rebase cwd (ev_path (?e ! i)) ro
             \<longrightarrow> ev_path (?e ! j) = ev_path (?e ! i))"
      using workload i(2) cp by (simp add: simple_workload_def)
    from synced_content [OF states window i(2,3,4,6) this disk(1)]
    have "files t (?T @ [ao_key operation]) = content_after cas
        (filter (\<lambda>event. ev_call event \<in> MUTATING \<and> ev_path event = ev_path (?e ! i)) (take i ?e)) None"
      using t(1) disk(2) by (simp add: i(5))
    then show "\<not> hidden_name (ao_key operation)
        \<and> map_option sha256 (files t (?T @ [ao_key operation])) = Some (ao_digest operation)"
      using i(1,7) by simp
  qed
  ultimately show ?thesis using t(1,2,4) by blast
qed

text \<open>The same for what an image holds: the directory \<open>lost+found\<close> is skipped.\<close>

lemma recover_files:
  assumes ready: "dir_ready (resolve cwd dir) s" "starts_char (CHR ''/'') dir"
    and plain: "\<forall>n. files s (resolve cwd dir @ [n]) \<noteq> None \<longrightarrow> plain_segment n"
  shows "\<exists>vals. recoverFileKv cwd dir s = (Inr (Opened True vals None), s)
    \<and> (\<forall>name. map_get vals name = seen_value (files s) (resolve cwd dir) name)"
proof (rule recover_store [OF ready], intro allI impI)
  fix n assume n: "tree s (resolve cwd dir @ [n]) \<noteq> None"
  show "plain_segment n"
  proof (cases "n = ''lost+found''")
    case False
    then have "tree s (resolve cwd dir @ [n]) \<noteq> Some D" using ready(1) by (simp add: dir_ready_def in_dir_def)
    then have "files s (resolve cwd dir @ [n]) \<noteq> None"
      using n by (auto simp: files_def split: entry.splits)
    then show ?thesis using plain by blast
  qed (simp add: plain_segment_def)
qed

text \<open>Recovery of a directory that holds the promises satisfies the oracle.\<close>

lemma recovery_satisfies_oracle:
  assumes ready: "dir_ready (resolve cwd dir) t" "starts_char (CHR ''/'') dir"
    and plain: "\<forall>n. files t (resolve cwd dir @ [n]) \<noteq> None \<longrightarrow> plain_segment n"
    and holds: "holds_promises (\<lambda>n. files t (resolve cwd dir @ [n])) (promisedBefore ackLog stamp)"
  shows "\<exists>recovery. recoverFileKv cwd dir t = (Inr recovery, t)
    \<and> checkOracle \<lparr>oi_crashStamp = stamp, oi_ackLog = ackLog, oi_recovery = recovery\<rparr> = []"
proof -
  obtain vals where vals: "recoverFileKv cwd dir t = (Inr (Opened True vals None), t)"
    "\<forall>name. map_get vals name = seen_value (files t) (resolve cwd dir) name"
    using recover_files [OF ready plain] by blast
  have "honoured (Opened True vals None) operation" if "operation \<in> set (promisedBefore ackLog stamp)" for operation
    using that holds vals(2) by (auto simp: holds_promises_def honoured_def seen_value_def)
  then have "contract_holds \<lparr>oi_crashStamp = stamp, oi_ackLog = ackLog, oi_recovery = Opened True vals None\<rparr>"
    by (auto simp: contract_holds_def)
  then show ?thesis
    using vals(1) contract_clean by blast
qed

text \<open>The pipeline raises no false alarm on a careful application. Take a workload of writes,
  truncations and unlinks on files of one directory, and an acknowledgement log each of whose
  promises at the crash is kept: the file was synced with the acknowledged content and not touched
  again. Then, for every crash state the enumerator produces under any model, materialising it into a
  directory without files succeeds, recovery reads the directory, and the oracle reports nothing.\<close>

lemma careful_store_clean:
  assumes states: "enumerateCrashStates trace options = Inr states" "state \<in> set states"
    and window: "0 < maxUnpersistedWindow (eo_bounds options)" "maxUnpersistedWindow (eo_bounds options) \<le> 30"
    and workload: "simple_workload cwd ro cas (tr_events trace)"
    and disk: "replay_ready cwd ro cas s" "\<forall>n. files s (resolve cwd (ro_targetDir ro) @ [n]) = None"
      "starts_char (CHR ''/'') (ro_targetDir ro)"
    and kept: "\<forall>operation\<in>set (promisedBefore ackLog (crash_stamp trace state)).
        kept_promise cwd ro cas (tr_events trace) (cs_crashPoint state) operation"
  shows "\<exists>t recovery. replaySelection cwd trace ro (selection_of state) s = (Inr (), t)
    \<and> recoverFileKv cwd (ro_targetDir ro) t = (Inr recovery, t)
    \<and> checkOracle \<lparr>oi_crashStamp = crash_stamp trace state, oi_ackLog = ackLog, oi_recovery = recovery\<rparr> = []"
  using replay_holds_promises [OF states window workload disk(1,2) kept] recovery_satisfies_oracle [OF _ disk(3)]
  unfolding replay_inv_def by blast

text \<open>The log file of the sample trace, acknowledged after its fsync and before the crash.\<close>

definition kept_log :: "acked_operation list" where
  "kept_log = [promised_operation 1 ''log'' (sha256 [0, 0, 1, 2, 3]) 4]"

lemma synced_workload: "simple_workload ''/'' sample_options_replay sample_cas (tr_events synced_trace)"
proof -
  let ?e = "tr_events synced_trace"
  have e: "?e = [(op_event CPwrite ''/d/log'' 1 2 3 3)\<lparr>ev_digest := ''h''\<rparr>,
      op_event CFsync ''/d/log'' 3 (-1) 0 0, (op_event CPwrite ''/d/aux'' 5 0 3 3)\<lparr>ev_digest := ''h''\<rparr>]"
    by (simp add: synced_trace_def trace_of_def)
  show ?thesis
    by (auto simp: simple_workload_def e less_Suc_eq op_event_def synced_places flat_event_def MUTATING_def
        places_def in_dir_def is_write_def sample_cas_def)
qed

lemma kept_log_promise:
  "kept_promise ''/'' sample_options_replay sample_cas (tr_events synced_trace) 2
     (promised_operation 1 ''log'' (sha256 [0, 0, 1, 2, 3]) 4)"
proof -
  let ?e = "tr_events synced_trace" and ?op = "promised_operation 1 ''log'' (sha256 [0, 0, 1, 2, 3]) 4"
  have e: "?e = [(op_event CPwrite ''/d/log'' 1 2 3 3)\<lparr>ev_digest := ''h''\<rparr>,
      op_event CFsync ''/d/log'' 3 (-1) 0 0, (op_event CPwrite ''/d/aux'' 5 0 3 3)\<lparr>ev_digest := ''h''\<rparr>]"
    by (simp add: synced_trace_def trace_of_def)
  have key: "ao_key ?op = ''log''" "ao_digest ?op = sha256 [0, 0, 1, 2, 3]"
    by (simp_all add: promised_operation_def)
  have "\<not> hidden_name ''log''" by code_simp
  moreover have "content_after sample_cas
      (filter (\<lambda>event. ev_call event \<in> MUTATING \<and> ev_path event = ev_path (?e ! 1)) (take 1 ?e)) None
      = Some [0, 0, 1, 2, 3]"
    unfolding sample_cas_def by code_simp
  moreover have "\<forall>j. 1 < j \<and> j \<le> 2 \<and> ev_call (?e ! j) \<in> MUTATING \<longrightarrow> ev_path (?e ! j) \<noteq> ev_path (?e ! 1)"
    by (auto simp: e le_Suc_eq numeral_2_eq_2 op_event_def)
  moreover have "ev_call (?e ! 1) \<in> PERSISTENCE" "0 \<le> ev_returnValue (?e ! 1)" "ev_path (?e ! 1) = ''/d/log''"
    by (simp_all add: e op_event_def PERSISTENCE_def)
  ultimately show ?thesis
    unfolding kept_promise_def key
    by (intro conjI exI [of _ 1]) (simp_all add: synced_places)
qed

lemma careful_store_clean_example:
  "\<exists>states. enumerateCrashStates synced_trace (shipped_options xfs (Some [2])) = Inr states
     \<and> length states = 2 \<and> promisedBefore kept_log 5 = kept_log
     \<and> (\<forall>state\<in>set states. \<exists>t recovery.
          replaySelection ''/'' synced_trace sample_options_replay (selection_of state) sample_disk = (Inr (), t)
          \<and> recoverFileKv ''/'' ''/mnt'' t = (Inr recovery, t)
          \<and> checkOracle \<lparr>oi_crashStamp = 5, oi_ackLog = kept_log, oi_recovery = recovery\<rparr> = [])"
proof -
  let ?opts = "shipped_options xfs (Some [2])"
  obtain states where states: "enumerateCrashStates synced_trace ?opts = Inr states"
    by (simp add: enumerate_cases synced_trace_def trace_of_def)
  have "map_sum id length (enumerateCrashStates synced_trace ?opts) = Inr 2"
    by code_simp
  then have two: "length states = 2" using states by simp
  have promised: "promisedBefore kept_log 5 = kept_log"
    by (simp add: promisedBefore_def kept_log_def promised_operation_def)
  have dir: "ro_targetDir sample_options_replay = ''/mnt''" by (simp add: sample_options_replay_def)
  have empty: "\<forall>n. files sample_disk (resolve ''/'' (ro_targetDir sample_options_replay) @ [n]) = None"
    by (simp add: synced_places files_def tree_def fs_lookup_def sample_disk_def map_get_def)
  have "\<exists>t recovery.
          replaySelection ''/'' synced_trace sample_options_replay (selection_of state) sample_disk = (Inr (), t)
          \<and> recoverFileKv ''/'' ''/mnt'' t = (Inr recovery, t)
          \<and> checkOracle \<lparr>oi_crashStamp = 5, oi_ackLog = kept_log, oi_recovery = recovery\<rparr> = []"
    if "state \<in> set states" for state
  proof -
    have cp: "cs_crashPoint state = 2"
      using that in_enumerate [OF states] by simp
    then have stamp: "crash_stamp synced_trace state = 5"
      by (simp add: crash_stamp_def synced_trace_def trace_of_def op_event_def)
    have "\<forall>operation\<in>set (promisedBefore kept_log (crash_stamp synced_trace state)).
        kept_promise ''/'' sample_options_replay sample_cas (tr_events synced_trace) (cs_crashPoint state) operation"
      unfolding stamp promised cp by (simp add: kept_log_def kept_log_promise)
    from careful_store_clean [OF states that _ _ synced_workload sample_ready empty _ this]
    show ?thesis by (simp add: stamp dir starts_char_def)
  qed
  with states two promised show ?thesis by blast
qed

end
