(* ===== verification/Progress.thy ===== *)
theory Progress
  imports Total FileStore
begin

text \<open>
  A campaign comes to an end: on a machine whose programs succeed, with the payloads of the trace in the
  content store, every image is made, mounted, filled, recovered and released, state after state.
\<close>

section \<open>The disk between two steps\<close>

definition mount_root :: segs where
  "mount_root = [''var'', ''lib'', ''crashfuzz'', ''mnt'']"

lemma resolve_mount_root [simp]: "resolve cwd MOUNT_ROOT = mount_root"
proof -
  have "resolve cwd MOUNT_ROOT = norm_from [] (segments MOUNT_ROOT)"
    by (simp add: resolve_def MOUNT_ROOT_def starts_char_def)
  also have "\<dots> = mount_root" by code_simp
  finally show ?thesis .
qed

definition payload_path :: "string \<Rightarrow> 'o campaign_options \<Rightarrow> string \<Rightarrow> segs" where
  "payload_path cwd options digest = norm_from (resolve cwd (co_casDir options)) (segments digest)"

definition image_file :: "string \<Rightarrow> 'o campaign_options \<Rightarrow> nat \<Rightarrow> segs" where
  "image_file cwd options k = resolve cwd (co_imageDir options) @ [image_name k]"

text \<open>
  What holds between two statements: directories may be missing but nothing else is in their place, mounted
  directories hold files only, and the payloads are there.
\<close>

definition campaign_disk :: "string \<Rightarrow> 'o campaign_options \<Rightarrow> (string \<Rightarrow> byte list option) \<Rightarrow> fs \<Rightarrow> bool" where
  "campaign_disk cwd options cas s \<longleftrightarrow>
     fs_ok s
     \<and> (\<forall>p. prefix p mount_root \<or> prefix p (resolve cwd (co_imageDir options)) \<longrightarrow> tree s p = None \<or> tree s p = Some D)
     \<and> (\<forall>k. tree s (image_file cwd options k) \<noteq> Some D)
     \<and> (\<forall>d. tree s (mount_root @ [d]) = None \<or> tree s (mount_root @ [d]) = Some D)
     \<and> (\<forall>d n. n \<noteq> ''lost+found'' \<longrightarrow> tree s (mount_root @ [d, n]) \<noteq> Some D)
     \<and> (\<forall>d bs. cas d = Some bs \<longrightarrow> tree s (payload_path cwd options d) = Some (F bs)
          \<and> under_dirs s (payload_path cwd options d))"

lemma disk_payload:
  assumes "campaign_disk cwd options cas s" "cas d = Some bs"
  shows "tree s (payload_path cwd options d) = Some (F bs)" "under_dirs s (payload_path cwd options d)"
  using assms unfolding campaign_disk_def by simp_all

text \<open>Images, payloads and mount points are kept apart.\<close>

definition campaign_layout :: "string \<Rightarrow> 'o campaign_options \<Rightarrow> (string \<Rightarrow> byte list option) \<Rightarrow> bool" where
  "campaign_layout cwd options cas \<longleftrightarrow>
     starts_char (CHR ''/'') (co_imageDir options)
     \<and> \<not> prefix mount_root (resolve cwd (co_imageDir options))
     \<and> (\<forall>d. cas d \<noteq> None \<longrightarrow> \<not> prefix mount_root (payload_path cwd options d)
          \<and> (\<forall>k. payload_path cwd options d \<noteq> image_file cwd options k))"

lemma image_name_facts: "plain_segment (image_name k)" "image_name k \<notin> set mount_root"
  by (rule plain_image_name) (simp add: image_name_def mount_root_def)

text \<open>The changes that keep the disk in order.\<close>

definition tidy_change :: "string \<Rightarrow> 'o campaign_options \<Rightarrow> segs \<Rightarrow> entry option \<Rightarrow> bool" where
  "tidy_change cwd options q e \<longleftrightarrow>
     ((prefix q mount_root \<or> prefix q (resolve cwd (co_imageDir options))) \<and> e = Some D)
     \<or> (\<exists>k. q = image_file cwd options k \<and> e \<noteq> Some D)
     \<or> (\<exists>d. q = mount_root @ [d] \<and> (e = None \<or> e = Some D))
     \<or> (\<exists>d n. prefix (mount_root @ [d, n]) q \<and> e \<noteq> Some D)"

lemma tidy_disk:
  assumes disk: "campaign_disk cwd options cas s" and layout: "campaign_layout cwd options cas"
    and ok: "fs_ok t" and change: "\<And>q. tree t q = tree s q \<or> tidy_change cwd options q (tree t q)"
  shows "campaign_disk cwd options cas t"
proof -
  let ?I = "resolve cwd (co_imageDir options)" and ?M = mount_root
  have apart: "\<not> prefix ?M ?I" using layout by (simp add: campaign_layout_def)
  have image: "\<not> prefix (image_file cwd options k) ?M" "\<not> prefix (image_file cwd options k) ?I"
    "\<not> prefix ?M (image_file cwd options k)" for k
    using apart image_name_facts(2) [of k] set_mono_prefix [of "image_file cwd options k" ?M]
    by (auto simp: image_file_def prefix_snoc mount_root_def dest: prefix_length_le)
  have below: "\<not> prefix (?M @ x # xs) ?I" "\<not> prefix (?M @ x # xs) ?M" for x xs
    using apart by (auto dest: append_prefixD prefix_length_le)
  have under_image: "\<not> prefix (?M @ x # xs) (image_file cwd options k)" for x xs k
    using image(3) [of k] by (auto dest: append_prefixD)
  have "tree t p = None \<or> tree t p = Some D" if "prefix p ?M \<or> prefix p ?I" for p
    using change [of p] disk that image below
    by (auto simp: campaign_disk_def tidy_change_def dest: append_prefixD prefix_order.trans)
  moreover have "tree t (image_file cwd options k) \<noteq> Some D" for k
    using change [of "image_file cwd options k"] disk image [of k] under_image [of _ _ k]
    by (auto simp: campaign_disk_def tidy_change_def)
  moreover have "tree t (?M @ [d]) = None \<or> tree t (?M @ [d]) = Some D" for d
    using change [of "?M @ [d]"] disk image(3) below
    by (auto simp: campaign_disk_def tidy_change_def dest: prefix_length_le) (metis prefixI)+
  moreover have "tree t (?M @ [d, n]) \<noteq> Some D" if "n \<noteq> ''lost+found''" for d n
    using change [of "?M @ [d, n]"] disk image(3) below that
    by (auto simp: campaign_disk_def tidy_change_def dest: prefix_length_le)
  moreover have "tree t (payload_path cwd options d) = Some (F bs) \<and> under_dirs t (payload_path cwd options d)"
    if "cas d = Some bs" for d bs
  proof
    let ?C = "payload_path cwd options d"
    have C: "tree s ?C = Some (F bs)" "under_dirs s ?C" "\<not> prefix ?M ?C"
      "\<And>k. ?C \<noteq> image_file cwd options k"
      using disk layout that by (auto simp: campaign_disk_def campaign_layout_def)
    have "\<not> tidy_change cwd options ?C (tree t ?C)"
    proof
      assume "tidy_change cwd options ?C (tree t ?C)"
      then have "prefix ?C ?M \<or> prefix ?C ?I"
        using C(3,4) by (auto simp: tidy_change_def dest: append_prefixD)
      with disk C(1) show False by (auto simp: campaign_disk_def)
    qed
    then show "tree t ?C = Some (F bs)" using change [of ?C] C(1) by auto
    have "tree t q = Some D" if "q \<in> set (ancestors ?C)" for q
    proof (cases "tree t q = tree s q")
      case True
      then show ?thesis using C(2) that by (simp add: under_dirs_def)
    next
      case False
      have q: "tree s q = Some D" "\<not> prefix ?M q \<or> q = ?M"
        using C(2,3) that by (auto simp: under_dirs_def ancestor_prefix strict_prefix_def dest: prefix_order.trans)
      then have "q \<noteq> image_file cwd options k" for k
        using disk by (auto simp: campaign_disk_def)
      then show ?thesis
        using change [of q] False q(2) by (auto simp: tidy_change_def dest: append_prefixD prefix_length_le)
    qed
    then show "under_dirs t ?C" by (simp add: under_dirs_def)
  qed
  ultimately show ?thesis using ok by (auto simp: campaign_disk_def)
qed

section \<open>The machine and the workload\<close>

text \<open>The programs of the block layer; the others are what a recovery runs.\<close>

definition block_command :: "string list \<Rightarrow> bool" where
  "block_command command \<longleftrightarrow> command \<noteq> []
     \<and> hd command \<in> {''sudo'', ''/usr/sbin/mkfs.ext4'', ''/usr/sbin/mkfs.xfs'', ''/usr/sbin/mkfs.btrfs''}"

lemma block_commands [simp]:
  "block_command (formatCommand spec)" "block_command (attach_command path)"
  "block_command (mount_command mountOptions dev dir)" "block_command (umount_command dir)"
  "block_command (detach_command dev)" "block_command [''sudo'', ''chmod'', ''0777'', dir]"
  by (simp_all add: block_command_def formatCommand_def attach_command_def mount_command_def umount_command_def
      detach_command_def split: filesystem.splits)

text \<open>
  The programs of the block layer exit with zero, and every program keeps the disk in order and leaves a
  mount point that is ready so.
\<close>

definition working_machine :: "'o env \<Rightarrow> 'o campaign_options \<Rightarrow> (string \<Rightarrow> byte list option) \<Rightarrow> bool" where
  "working_machine env options cas \<longleftrightarrow>
     (\<forall>s. CHR ''/'' \<notin> set (en_fresh env s))
     \<and> (\<forall>vars command s os p s' os'. en_spawn env vars command (s, os) = (p, s', os')
          \<longrightarrow> campaign_disk (en_cwd env) options cas s
          \<longrightarrow> (block_command command \<longrightarrow> pr_exit p = 0) \<and> campaign_disk (en_cwd env) options cas s'
              \<and> (\<forall>d. dir_ready (mount_root @ [d]) s \<longrightarrow> dir_ready (mount_root @ [d]) s'))"

text \<open>A file directly in the traced directory, and operations on such files with their payloads stored.\<close>

definition traced_file :: "string \<Rightarrow> string \<Rightarrow> string \<Rightarrow> bool" where
  "traced_file cwd rootDir path \<longleftrightarrow> (\<exists>n. plain_segment n \<and> n \<noteq> ''lost+found'' \<and> relative cwd rootDir path = [n])"

definition campaign_workload :: "string \<Rightarrow> 'o campaign_options \<Rightarrow> (string \<Rightarrow> byte list option) \<Rightarrow> trace \<Rightarrow> bool" where
  "campaign_workload cwd options cas trace \<longleftrightarrow>
     (\<forall>event\<in>set (tr_events trace). ev_call event \<in> MUTATING \<longrightarrow>
        ev_call event \<noteq> CMkdir \<and> ev_call event \<noteq> CLink
        \<and> traced_file cwd (co_rootDir options) (ev_path event)
        \<and> (ev_call event = CRename \<longrightarrow> traced_file cwd (co_rootDir options) (ev_path2 event))
        \<and> (is_write (ev_call event) \<longrightarrow> 0 \<le> ev_offset event \<and> cas (ev_digest event) \<noteq> None))"

abbreviation disk_inv :: "'o env \<Rightarrow> 'o campaign_options \<Rightarrow> (string \<Rightarrow> byte list option) \<Rightarrow> 'o world \<Rightarrow> bool" where
  "disk_inv env options cas w \<equiv> campaign_disk (en_cwd env) options cas (wd_fs w)"

text \<open>The disk is in order and a directory is mounted.\<close>

definition mounted_at :: "'o env \<Rightarrow> 'o campaign_options \<Rightarrow> (string \<Rightarrow> byte list option) \<Rightarrow> string \<Rightarrow> 'o world \<Rightarrow> bool" where
  "mounted_at env options cas d w \<longleftrightarrow> disk_inv env options cas w \<and> dir_ready (mount_root @ [d]) (wd_fs w)"

lemma ends_on_fs:
  assumes "\<And>s. P s \<Longrightarrow> \<exists>x t. m s = (Inr x, t) \<and> Q x t"
  shows "ends (\<lambda>w. P (wd_fs w)) (on_fs m :: ('o world, 'a) io) (\<lambda>x w. Q x (wd_fs w))"
  unfolding ends_def
proof (intro allI impI)
  fix w :: "'o world" assume "P (wd_fs w)"
  then obtain x t where "m (wd_fs w) = (Inr x, t)" "Q x t" using assms by blast
  then show "\<exists>x t. on_fs m w = (Inr x, t) \<and> Q x (wd_fs t)"
    by (simp add: on_fs_def)
qed

text \<open>A statement on files leaves the rest of the machine alone.\<close>

lemma ends_on_fs_frame:
  assumes "\<And>s. P s \<Longrightarrow> \<exists>x t. m s = (Inr x, t) \<and> Q x t"
  shows "ends (\<lambda>w. P (wd_fs w) \<and> A (wd_os w)) (on_fs m :: ('o world, 'a) io) (\<lambda>x w. Q x (wd_fs w) \<and> A (wd_os w))"
  unfolding ends_def
proof (intro allI impI, elim conjE)
  fix w :: "'o world" assume "P (wd_fs w)" "A (wd_os w)"
  then obtain x t where "m (wd_fs w) = (Inr x, t)" "Q x t" using assms by blast
  then show "\<exists>x t. on_fs m w = (Inr x, t) \<and> Q x (wd_fs t) \<and> A (wd_os t)"
    using \<open>A (wd_os w)\<close> by (simp add: on_fs_def)
qed

lemma spawn_ends:
  assumes "working_machine env options cas" "disk_inv env options cas w" "block_command command"
  shows "\<exists>w'. run env command w = (Inr (), w') \<and> disk_inv env options cas w'
    \<and> (\<forall>d. dir_ready (mount_root @ [d]) (wd_fs w) \<longrightarrow> dir_ready (mount_root @ [d]) (wd_fs w'))"
    "\<exists>x w'. capture env command w = (Inr x, w') \<and> disk_inv env options cas w'
    \<and> (\<forall>d. dir_ready (mount_root @ [d]) (wd_fs w) \<longrightarrow> dir_ready (mount_root @ [d]) (wd_fs w'))"
proof -
  obtain p s os where p: "en_spawn env [] command (wd_fs w, wd_os w) = (p, s, os)"
    by (metis prod_cases3)
  then have "pr_exit p = 0" "campaign_disk (en_cwd env) options cas s"
    "\<forall>d. dir_ready (mount_root @ [d]) (wd_fs w) \<longrightarrow> dir_ready (mount_root @ [d]) s"
    using assms unfolding working_machine_def by blast+
  then show "\<exists>w'. run env command w = (Inr (), w') \<and> disk_inv env options cas w'
    \<and> (\<forall>d. dir_ready (mount_root @ [d]) (wd_fs w) \<longrightarrow> dir_ready (mount_root @ [d]) (wd_fs w'))"
    "\<exists>x w'. capture env command w = (Inr x, w') \<and> disk_inv env options cas w'
    \<and> (\<forall>d. dir_ready (mount_root @ [d]) (wd_fs w) \<longrightarrow> dir_ready (mount_root @ [d]) (wd_fs w'))"
    by (simp_all add: run_def capture_def spawnSync_def spawn_with_def p io_bind_def io_return_def)
qed

lemma run_ends:
  assumes "working_machine env options cas" "block_command command"
  shows "ends (disk_inv env options cas) (run env command) (\<lambda>_. disk_inv env options cas)"
    "ends (mounted_at env options cas d) (run env command) (\<lambda>_. mounted_at env options cas d)"
    "ends (mounted_at env options cas d) (capture env command) (\<lambda>_. mounted_at env options cas d)"
  unfolding ends_def mounted_at_def using spawn_ends [OF assms(1) _ assms(2)] by blast+

section \<open>The steps\<close>

lemma open_wplus_effect:
  assumes "fs_ok s" "p \<noteq> []" "under_dirs s p" "tree s p \<noteq> Some D"
  obtains i t where "open_wplus p s = (Inr i, t)" "fs_ok t" "fs_lookup t p = Some (File i)"
    "tree t = (tree s)(p \<mapsto> F [])"
proof (cases "fs_lookup s p")
  case None
  obtain r t where c: "create_file p s = (r, t)" by (cases "create_file p s")
  have "tree s p = None" using None by (simp add: tree_None)
  from create_file_effect [OF assms(1,2) this c] None c this that show ?thesis
    by (simp add: open_wplus_def with_node_def walk_ok [OF assms(3)])
next
  case (Some n)
  then obtain i where i: "n = File i"
    using assms(4) by (cases n) (auto simp: tree_Dir)
  obtain r t where c: "set_content i [] s = (r, t)" by (cases "set_content i [] s")
  from set_content_effect [OF assms(1) _ c] Some i c that show ?thesis
    by (simp add: open_wplus_def with_node_def walk_ok [OF assms(3)] io_seq_def io_bind_def io_return_def)
qed

lemma disk_mkdirp:
  assumes disk: "campaign_disk cwd options cas s" and layout: "campaign_layout cwd options cas"
    and d: "prefix d mount_root \<or> prefix d (resolve cwd (co_imageDir options))"
  obtains t where "mkdirp d s = (Inr (), t)" "campaign_disk cwd options cas t" "\<forall>p. prefix p d \<longrightarrow> tree t p = Some D"
proof -
  have "fs_ok s" "\<forall>p. prefix p d \<longrightarrow> tree s p = None \<or> tree s p = Some D"
    using disk d by (auto simp: campaign_disk_def dest: prefix_order.trans)
  then obtain t where t: "mkdirp d s = (Inr (), t)" "fs_ok t"
    "tree t = (\<lambda>q. if prefix q d then Some D else tree s q)"
    by (rule mkdirp_effect)
  have "campaign_disk cwd options cas t"
  proof (rule tidy_disk [OF disk layout t(2)])
    show "tree t q = tree s q \<or> tidy_change cwd options q (tree t q)" for q
      using d by (auto simp: t(3) tidy_change_def dest: prefix_order.trans)
  qed
  then show ?thesis using that [OF t(1)] by (simp add: t(3))
qed

lemma image_path_resolve:
  "campaign_layout cwd options cas \<Longrightarrow> resolve cwd (image_path (co_imageDir options) k) = image_file cwd options k"
  by (simp add: campaign_layout_def image_path_def image_file_def resolve_join image_name_facts)

lemma createImage_ends:
  assumes layout: "campaign_layout (en_cwd env) options cas"
    and spec: "is_imagePath spec = image_path (co_imageDir options) k"
    and format: "ends (disk_inv env options cas) (run env (formatCommand spec)) Q"
  shows "ends (disk_inv env options cas) (createImage env spec) Q"
proof -
  let ?p = "image_file (en_cwd env) options k" and ?J = "campaign_disk (en_cwd env) options cas"
  have path: "resolve (en_cwd env) (is_imagePath spec) = ?p" "?p \<noteq> []"
    "butlast ?p = resolve (en_cwd env) (co_imageDir options)"
    by (simp_all add: spec image_path_resolve [OF layout] image_file_def)
  have keep: "?J t" if "?J s" "fs_ok t" "tree t = (tree s)(?p \<mapsto> F bs)" for s t bs
    by (rule tidy_disk [OF that(1) layout that(2)]) (auto simp: that(3) tidy_change_def)
  have under: "under_dirs t ?p" if "under_dirs s ?p" "?J s" "tree t = (tree s)(?p \<mapsto> F bs)" for s t bs
    using that by (intro under_dirs_update [of s t]) (auto simp: campaign_disk_def)
  have one: "\<exists>x t. mkdirp (butlast ?p) s = (Inr x, t) \<and> ?J t \<and> under_dirs t ?p" if J: "?J s" for s
  proof -
    obtain t where "mkdirp (butlast ?p) s = (Inr (), t)" "?J t" "\<forall>p. prefix p (butlast ?p) \<longrightarrow> tree t p = Some D"
      using disk_mkdirp [OF J layout, of "butlast ?p"] path(3) by auto
    then show ?thesis
      by (intro exI [of _ "()"] exI [of _ t]) (auto simp: under_dirs_def ancestor_prefix image_file_def strict_prefix_def)
  qed
  have two: "\<exists>x t. io_bind (open_wplus ?p) close_fd s = (Inr x, t) \<and> ?J t \<and> under_dirs t ?p
      \<and> (\<exists>i. fs_lookup t ?p = Some (File i))" if J: "?J s \<and> under_dirs s ?p" for s
  proof -
    have "fs_ok s" "tree s ?p \<noteq> Some D" using J by (auto simp: campaign_disk_def)
    then obtain i t where t: "open_wplus ?p s = (Inr i, t)" "fs_ok t" "fs_lookup t ?p = Some (File i)"
      "tree t = (tree s)(?p \<mapsto> F [])"
      using open_wplus_effect [of s ?p] path(2) J by metis
    then show ?thesis
      using J keep [of s t "[]"] under [of s t "[]"]
      by (intro exI [of _ "()"] exI [of _ t]) (simp add: io_bind_def close_fd_def io_return_def)
  qed
  have three: "\<exists>x t. truncate_file ?p len s = (Inr x, t) \<and> ?J t"
    if J: "?J s \<and> under_dirs s ?p \<and> (\<exists>i. fs_lookup s ?p = Some (File i))" for s len
  proof -
    obtain i where i: "fs_ok s" "under_dirs s ?p" "fs_lookup s ?p = Some (File i)"
      using J by (auto simp: campaign_disk_def)
    obtain t where "truncate_file ?p len s = (Inr (), t)" "fs_ok t"
      "tree t = (tree s)(?p \<mapsto> F (resize (nat len) (bytes_of (tree s ?p))))"
      using truncate_effect [OF i] by blast
    then show ?thesis using J keep by blast
  qed
  let ?U = "\<lambda>s. ?J s \<and> under_dirs s ?p" and ?O = "\<lambda>s. ?J s \<and> under_dirs s ?p \<and> (\<exists>i. fs_lookup s ?p = Some (File i))"
  have "ends (disk_inv env options cas) (on_fs (mkdirp (butlast ?p))) (\<lambda>_ w. ?U (wd_fs w))"
    by (rule ends_on_fs) (rule one)
  moreover have "ends (\<lambda>w :: 'a world. ?U (wd_fs w)) (on_fs (io_bind (open_wplus ?p) close_fd)) (\<lambda>_ w. ?O (wd_fs w))"
    by (rule ends_on_fs) (rule two)
  moreover have "ends (\<lambda>w :: 'a world. ?O (wd_fs w)) (on_fs (truncate_file ?p (is_sizeBytes spec))) (\<lambda>_. disk_inv env options cas)"
    by (rule ends_on_fs) (rule three)
  ultimately show ?thesis
    unfolding createImage_def Let_def path(1)
    by (intro ends_seq) (assumption | rule format)+
qed

text \<open>The directories a mount makes: every one is directly below the mount root.\<close>

definition mount_dir :: "string \<Rightarrow> string" where
  "mount_dir x = MOUNT_ROOT @ ''/m-'' @ x"

lemma mount_dir_resolve:
  assumes "CHR ''/'' \<notin> set x"
  shows "resolve cwd (mount_dir x) = mount_root @ [''m-'' @ x]"
proof -
  have "split_on (CHR ''/'') (MOUNT_ROOT @ CHR ''/'' # ''m-'' @ x) = split_on (CHR ''/'') MOUNT_ROOT @ [''m-'' @ x]"
    using assms by (intro split_on_last) simp
  then have "resolve cwd (mount_dir x) = norm_from [] (segments MOUNT_ROOT @ [''m-'' @ x])"
    by (simp add: resolve_def mount_dir_def MOUNT_ROOT_def starts_char_def segments_def)
  also have "\<dots> = norm_from [] (segments MOUNT_ROOT) @ [''m-'' @ x]"
    by (simp add: norm_from_def norm_step_def)
  also have "norm_from [] (segments MOUNT_ROOT) = mount_root" by code_simp
  finally show ?thesis .
qed

lemma mkdtemp_ends:
  assumes "working_machine env options cas" "campaign_layout (en_cwd env) options cas"
  shows "ends (\<lambda>w. (disk_inv env options cas w \<and> (\<forall>p. prefix p mount_root \<longrightarrow> tree (wd_fs w) p = Some D)) \<and> A (wd_os w))
     (mkdtemp env (MOUNT_ROOT @ ''/m-''))
     (\<lambda>dir w. \<exists>x. CHR ''/'' \<notin> set x \<and> dir = mount_dir x \<and> mounted_at env options cas (''m-'' @ x) w \<and> A (wd_os w))"
  unfolding ends_def
proof (intro allI impI, elim conjE)
  fix w :: "'a world"
  assume A: "A (wd_os w)" and disk: "disk_inv env options cas w" and dirs: "\<forall>p. prefix p mount_root \<longrightarrow> tree (wd_fs w) p = Some D"
  let ?x = "en_fresh env (wd_fs w)" let ?d = "mount_root @ [''m-'' @ ?x]"
  have x: "CHR ''/'' \<notin> set ?x" using assms(1) by (simp add: working_machine_def)
  have "\<forall>p\<in>set [?d]. tree (wd_fs w) p = None \<or> tree (wd_fs w) p = Some D" "fs_ok (wd_fs w)"
    using disk by (auto simp: campaign_disk_def)
  then obtain t where t: "mkdir_one ?d (wd_fs w) = (Inr (), t)" "fs_ok t"
      "tree t = (\<lambda>q. if q = ?d then Some D else tree (wd_fs w) q)"
    using mkdir_list_effect [of "wd_fs w" "[?d]"]
    by (auto simp: io_seq_def io_bind_def io_return_def split: prod.splits sum.splits)
  have J: "campaign_disk (en_cwd env) options cas t"
    by (rule tidy_disk [OF disk assms(2) t(2)]) (auto simp: t(3) tidy_change_def)
  have "\<forall>p. prefix p ?d \<longrightarrow> tree t p = Some D"
    using dirs by (auto simp: t(3) prefix_snoc)
  then have "dir_ready ?d t" using J t(2) by (auto simp: dir_ready_def campaign_disk_def in_dir_def)
  moreover have "mkdtemp env (MOUNT_ROOT @ ''/m-'') w = (Inr (mount_dir ?x), w\<lparr>wd_fs := t\<rparr>)"
    using t(1) mount_dir_resolve [OF x]
    by (simp add: mkdtemp_def mount_dir_def on_fs_def io_seq_def io_bind_def io_return_def)
  ultimately show "\<exists>dir w'. mkdtemp env (MOUNT_ROOT @ ''/m-'') w = (Inr dir, w')
      \<and> (\<exists>x. CHR ''/'' \<notin> set x \<and> dir = mount_dir x \<and> mounted_at env options cas (''m-'' @ x) w' \<and> A (wd_os w'))"
    using x J A by (auto simp: mounted_at_def)
qed

lemma rm_tree_disk:
  assumes "campaign_disk cwd options cas s" "campaign_layout cwd options cas"
  shows "\<exists>x t. rm_tree (mount_root @ [d]) s = (Inr x, t) \<and> campaign_disk cwd options cas t"
proof -
  let ?p = "mount_root @ [d]"
  obtain t where t: "rm_tree ?p s = (Inr (), t)"
    "t = s\<lparr>fs_nodes := filter (\<lambda>(q, _). take (length ?p) q \<noteq> ?p) (fs_nodes s)\<rparr>"
    by (simp add: rm_tree_def)
  have "map_get (filter (\<lambda>(q, _). take (length ?p) q \<noteq> ?p) m) q
      = (if take (length ?p) q = ?p then None else map_get m q)" for m :: "(segs, node) js_map" and q
    unfolding map_get_def by (induction m) auto
  then have look: "fs_lookup t q = (if take (length ?p) q = ?p then None else fs_lookup s q)" for q
    by (auto simp: t(2) fs_lookup_def)
  have content: "inode_content t = inode_content s" by (simp only: t(2) content_nodes)
  have tree: "tree t q = (if take (length ?p) q = ?p then None else tree s q)" for q
    unfolding tree_def look content by simp
  have nxt: "fs_next t = fs_next s" by (simp add: t(2))
  have "fs_ok s" using assms(1) by (simp add: campaign_disk_def)
  then have ok: "fs_ok t"
    unfolding fs_ok_def look nxt by (simp split: if_splits)
  have "campaign_disk cwd options cas t"
  proof (rule tidy_disk [OF assms ok])
    fix q
    show "tree t q = tree s q \<or> tidy_change cwd options q (tree t q)"
    proof (cases "take (length ?p) q = ?p")
      case True
      then have q: "q = ?p @ drop (length ?p) q" by (metis append_take_drop_id)
      show ?thesis
      proof (cases "drop (length ?p) q")
        case Nil
        with q True show ?thesis by (simp add: tidy_change_def tree)
      next
        case (Cons n r)
        with q have "q = (mount_root @ [d, n]) @ r" by simp
        then have "prefix (mount_root @ [d, n]) q" by (rule prefixI)
        then show ?thesis using True unfolding tidy_change_def tree by auto
      qed
    qed (simp add: tree)
  qed
  then show ?thesis using t(1) by blast
qed

text \<open>
  A mount, step by step: from what holds of the machine before (\<open>A\<close>) to what holds of it afterwards (\<open>K\<close>), if
  every program and the callback do their part.
\<close>

lemma withMount_steps:
  assumes machine: "working_machine env options cas" and layout: "campaign_layout (en_cwd env) options cas"
    and attach: "\<And>x. CHR ''/'' \<notin> set x \<Longrightarrow>
      ends (\<lambda>w. mounted_at env options cas (''m-'' @ x) w \<and> A (wd_os w)) (capture env (attach_command imagePath)) (B x)"
    and mount: "\<And>x dev. CHR ''/'' \<notin> set x \<Longrightarrow>
      ends (B x dev) (run env (mount_command mountOptions dev (mount_dir x))) (\<lambda>_. C x dev)"
    and chmod: "\<And>x dev. CHR ''/'' \<notin> set x \<Longrightarrow>
      ends (C x dev) (run env [''sudo'', ''chmod'', ''0777'', mount_dir x]) (\<lambda>_. E x dev)"
    and body: "\<And>x dev. CHR ''/'' \<notin> set x \<Longrightarrow> ends (E x dev) (fn (mount_dir x)) (G x dev)"
    and umount: "\<And>x dev y. CHR ''/'' \<notin> set x \<Longrightarrow>
      ends (G x dev y) (run env (umount_command (mount_dir x))) (\<lambda>_. H x dev y)"
    and detach: "\<And>x dev y. CHR ''/'' \<notin> set x \<Longrightarrow>
      ends (H x dev y) (run env (detach_command dev)) (\<lambda>_ w. disk_inv env options cas w \<and> K y (wd_os w))"
  shows "ends (\<lambda>w. disk_inv env options cas w \<and> A (wd_os w)) (withMount env imagePath fn mountOptions)
     (\<lambda>y w. disk_inv env options cas w \<and> K y (wd_os w))"
proof -
  have root_dir: "ends (\<lambda>w. disk_inv env options cas w \<and> A (wd_os w)) (on_fs (mkdirp mount_root))
      (\<lambda>_ w. (disk_inv env options cas w \<and> (\<forall>p. prefix p mount_root \<longrightarrow> tree (wd_fs w) p = Some D)) \<and> A (wd_os w))"
    by (rule ends_on_fs_frame) (use disk_mkdirp [OF _ layout, of _ mount_root] in blast)
  have session: "ends (\<lambda>w. mounted_at env options cas (''m-'' @ x) w \<and> A (wd_os w))
     (io_bind (capture env (attach_command imagePath)) (\<lambda>dev. io_finally
        (io_seq (run env (mount_command mountOptions dev (mount_dir x)))
          (io_finally
            (io_seq (run env [''sudo'', ''chmod'', ''0777'', mount_dir x]) (fn (mount_dir x)))
            (run env (umount_command (mount_dir x)))))
        (io_seq (run env (detach_command dev)) (on_fs (rm_tree (resolve (en_cwd env) (mount_dir x)))))))
     (\<lambda>y w. disk_inv env options cas w \<and> K y (wd_os w))" if x: "CHR ''/'' \<notin> set x" for x
  proof (rule ends_bind [OF attach [OF x]], rule ends_finally)
    fix dev
    show "ends (B x dev)
     (io_seq (run env (mount_command mountOptions dev (mount_dir x)))
          (io_finally
            (io_seq (run env [''sudo'', ''chmod'', ''0777'', mount_dir x]) (fn (mount_dir x)))
            (run env (umount_command (mount_dir x))))) (H x dev)"
      by (rule ends_seq [OF mount [OF x] ends_finally [OF ends_seq [OF chmod [OF x] body [OF x]] umount [OF x]]])
    fix y
    have "ends (\<lambda>w. disk_inv env options cas w \<and> K y (wd_os w)) (on_fs (rm_tree (resolve (en_cwd env) (mount_dir x))))
        (\<lambda>_ w. disk_inv env options cas w \<and> K y (wd_os w))"
      unfolding mount_dir_resolve [OF x] by (rule ends_on_fs_frame) (rule rm_tree_disk [OF _ layout])
    then show "ends (H x dev y)
        (io_seq (run env (detach_command dev)) (on_fs (rm_tree (resolve (en_cwd env) (mount_dir x)))))
        (\<lambda>_ w. disk_inv env options cas w \<and> K y (wd_os w))"
      by (rule ends_seq [OF detach [OF x]])
  qed
  show ?thesis
    unfolding withMount_eq mounted_def resolve_mount_root
    by (rule ends_seq [OF root_dir], rule ends_bind [OF mkdtemp_ends [OF machine layout, where A = A]])
      (use session in \<open>auto simp: ends_def\<close>)
qed

text \<open>A mount returns what its callback returns.\<close>

lemma withMount_ends:
  assumes machine: "working_machine env options cas" and layout: "campaign_layout (en_cwd env) options cas"
    and body: "\<And>x. CHR ''/'' \<notin> set x \<Longrightarrow>
      ends (mounted_at env options cas (''m-'' @ x)) (fn (mount_dir x)) (\<lambda>_. disk_inv env options cas)"
  shows "ends (disk_inv env options cas) (withMount env imagePath fn mountOptions) (\<lambda>_. disk_inv env options cas)"
proof -
  let ?J = "disk_inv env options cas" and ?M = "\<lambda>x. mounted_at env options cas (''m-'' @ x)"
  have "ends (\<lambda>w. ?J w \<and> True) (withMount env imagePath fn mountOptions) (\<lambda>y w. ?J w \<and> True)"
    by (rule withMount_steps [OF machine layout, where A = "\<lambda>_. True" and K = "\<lambda>_ _. True"
          and B = "\<lambda>x _. ?M x" and C = "\<lambda>x _. ?M x" and E = "\<lambda>x _. ?M x" and G = "\<lambda>_ _ _. ?J" and H = "\<lambda>_ _ _. ?J"])
      (simp_all only: simp_thms run_ends [OF machine] block_commands body)
  then show ?thesis by simp
qed

text \<open>Filling a mounted directory.\<close>

definition target_options :: "'o campaign_options \<Rightarrow> string \<Rightarrow> replay_options" where
  "target_options options dir =
     \<lparr>ro_casDir = co_casDir options, ro_rootDir = co_rootDir options, ro_targetDir = dir\<rparr>"

lemma workload_flat:
  assumes work: "campaign_workload cwd options cas trace" and x: "CHR ''/'' \<notin> set x"
    and event: "event \<in> set (tr_events trace)"
  shows "flat_event cwd (target_options options (mount_dir x)) cas event"
proof -
  have "in_dir (mount_root @ [''m-'' @ x]) (rebase cwd path (target_options options (mount_dir x)))"
    if traced: "traced_file cwd (co_rootDir options) path" for path
  proof -
    obtain n where n: "plain_segment n" "n \<noteq> ''lost+found''" "relative cwd (co_rootDir options) path = [n]"
      using traced by (auto simp: traced_file_def)
    have "plain [n]" using n(1) by (simp add: plain_def)
    then show ?thesis
      using n(2,3) by (auto simp: rebase_def target_options_def mount_dir_resolve [OF x] norm_from_plain in_dir_def)
  qed
  moreover have "resolve cwd (ro_targetDir (target_options options (mount_dir x))) = mount_root @ [''m-'' @ x]"
    by (simp add: target_options_def mount_dir_resolve [OF x])
  ultimately show ?thesis
    using work event unfolding campaign_workload_def flat_event_def places_def fst_conv snd_conv by metis
qed

text \<open>A replay into a ready mount point starts from what it needs and leaves the disk in order.\<close>

lemma mounted_replay_ready:
  assumes disk: "campaign_disk cwd options cas s" and ready: "dir_ready (mount_root @ [''m-'' @ x]) s"
    and layout: "campaign_layout cwd options cas" and x: "CHR ''/'' \<notin> set x"
  shows "replay_ready cwd (target_options options (mount_dir x)) cas s"
proof -
  let ?ro = "target_options options (mount_dir x)" and ?T = "mount_root @ [''m-'' @ x]"
  have T: "resolve cwd (ro_targetDir ?ro) = ?T"
    by (simp add: target_options_def mount_dir_resolve [OF x])
  have cas: "cas_path cwd ?ro d = payload_path cwd options d" for d
    by (simp add: cas_path_def payload_path_def target_options_def)
  have "\<not> in_dir ?T (payload_path cwd options d)" if "cas d = Some bs" for d bs
    using layout that by (auto simp: campaign_layout_def in_dir_def)
  then have "cas_ready cwd ?ro cas s"
    using disk_payload [OF disk] by (simp add: cas_ready_def cas T)
  then show ?thesis using ready by (simp add: replay_ready_def T dir_ready_def)
qed

lemma replayed_disk:
  assumes disk: "campaign_disk cwd options cas s" and layout: "campaign_layout cwd options cas"
    and ready: "dir_ready (mount_root @ [d]) t"
    and out: "\<forall>p. \<not> in_dir (mount_root @ [d]) p \<and> \<not> prefix p (mount_root @ [d]) \<longrightarrow> tree t p = tree s p"
  shows "campaign_disk cwd options cas t"
proof (rule tidy_disk [OF disk layout])
  let ?T = "mount_root @ [d]"
  show "fs_ok t" using ready by (simp add: dir_ready_def)
  show "tree t q = tree s q \<or> tidy_change cwd options q (tree t q)" for q
  proof (cases "in_dir ?T q \<or> prefix q ?T")
    case True
    have "\<forall>p. in_dir ?T p \<longrightarrow> tree t p \<noteq> Some D" "\<forall>p. prefix p ?T \<longrightarrow> tree t p = Some D"
      using ready by (simp_all add: dir_ready_def)
    with True show ?thesis by (auto simp: tidy_change_def in_dir_def prefix_snoc)
  qed (use out in simp)
qed

lemma replay_ends:
  assumes layout: "campaign_layout (en_cwd env) options cas" and x: "CHR ''/'' \<notin> set x"
    and work: "campaign_workload (en_cwd env) options cas trace"
  shows "ends (mounted_at env options cas (''m-'' @ x))
     (on_fs (replaySelection (en_cwd env) trace (target_options options (mount_dir x)) selection))
     (\<lambda>_. disk_inv env options cas)"
proof -
  let ?ro = "target_options options (mount_dir x)" and ?T = "mount_root @ [''m-'' @ x]" and ?cwd = "en_cwd env"
  have T: "resolve ?cwd (ro_targetDir ?ro) = ?T"
    by (simp add: target_options_def mount_dir_resolve [OF x])
  have flat: "\<forall>i<length (tr_events trace). selected selection i \<longrightarrow> flat_event ?cwd ?ro cas (tr_events trace ! i)"
    using workload_flat [OF work x] by simp
  have "\<exists>y t. replaySelection ?cwd trace ?ro selection s = (Inr y, t) \<and> campaign_disk ?cwd options cas t"
    if J: "campaign_disk ?cwd options cas s \<and> dir_ready ?T s" for s
  proof -
    obtain t where t: "replaySelection ?cwd trace ?ro selection s = (Inr (), t)"
      "replay_inv ?cwd ?ro cas t" "\<forall>p. \<not> in_dir ?T p \<and> \<not> prefix p ?T \<longrightarrow> tree t p = tree s p"
      using replay_store [OF mounted_replay_ready flat] J layout x unfolding T by blast
    then have "dir_ready ?T t" by (simp add: replay_inv_def T)
    then have "campaign_disk ?cwd options cas t"
      using replayed_disk t(3) J layout by blast
    then show ?thesis using t(1) by blast
  qed
  then show ?thesis
    unfolding mounted_at_def by (intro ends_on_fs)
qed

lemma rm_force_ends:
  assumes layout: "campaign_layout cwd options cas" and J: "campaign_disk cwd options cas s"
  shows "\<exists>x t. rm_force (image_file cwd options k) s = (Inr x, t) \<and> campaign_disk cwd options cas t"
proof (cases "under_dirs s (image_file cwd options k)")
  case True
  have "fs_ok s" "image_file cwd options k \<noteq> []" "tree s (image_file cwd options k) \<noteq> Some D"
    using J by (auto simp: campaign_disk_def image_file_def)
  then obtain t where t: "rm_force (image_file cwd options k) s = (Inr (), t)" "fs_ok t"
    "tree t = (tree s)(image_file cwd options k := None)"
    using rm_effect [OF _ _ True] by blast
  have "campaign_disk cwd options cas t"
    by (rule tidy_disk [OF J layout t(2)]) (auto simp: t(3) tidy_change_def)
  with t(1) show ?thesis by blast
next
  case False
  have "tree s q = None \<or> tree s q = Some D" if "q \<in> set (ancestors (image_file cwd options k))" for q
    using that J by (auto simp: campaign_disk_def image_file_def ancestor_prefix strict_prefix_def)
  then have dirs: "fs_lookup s q = None \<or> fs_lookup s q = Some Dir" if "q \<in> set (ancestors (image_file cwd options k))" for q
    using that by (simp add: tree_None tree_Dir)
  have "walk_error s (image_file cwd options k) = Some ENOENT"
  proof (cases "List.find (\<lambda>q. fs_lookup s q \<noteq> Some Dir) (ancestors (image_file cwd options k))")
    case None
    then have "under_dirs s (image_file cwd options k)"
      by (auto simp: under_dirs_def find_None_iff tree_Dir)
    with False show ?thesis by simp
  next
    case (Some q)
    then have "q \<in> set (ancestors (image_file cwd options k))" "fs_lookup s q \<noteq> Some Dir"
      by (auto dest: find_Some_in simp: find_Some_iff)
    with dirs have "fs_lookup s q = None" by blast
    with Some show ?thesis by (simp add: walk_error_def)
  qed
  with J show ?thesis by (simp add: rm_force_def)
qed

section \<open>The loop comes to its end\<close>

definition recovery_returns ::
    "'o env \<Rightarrow> 'o campaign_options \<Rightarrow> (string \<Rightarrow> byte list option) \<Rightarrow> bool" where
  "recovery_returns env options cas \<longleftrightarrow>
     (\<forall>x. CHR ''/'' \<notin> set x \<longrightarrow> ends (mounted_at env options cas (''m-'' @ x)) (co_recover options (mount_dir x))
        (\<lambda>_. disk_inv env options cas))"

lemma campaign_state_ends:
  assumes machine: "working_machine env options cas" and layout: "campaign_layout (en_cwd env) options cas"
    and work: "campaign_workload (en_cwd env) options cas trace" and recovery: "recovery_returns env options cas"
  shows "ends (disk_inv env options cas) (campaign_state env options trace ackLog (index, state) (findings, n))
     (\<lambda>_. disk_inv env options cas)"
proof -
  let ?J = "disk_inv env options cas"
  have materialise: "ends ?J (materializeState env trace state
        \<lparr>mo_spec = \<lparr>is_imagePath = image_path (co_imageDir options) index, is_filesystem = co_filesystem options,
           is_sizeBytes = IMAGE_BYTES\<rparr>,
         mo_mountOptions = co_mountOptions options, mo_casDir = co_casDir options,
         mo_rootDir = co_rootDir options\<rparr>) (\<lambda>_. ?J)"
    unfolding materializeState_def
    by (rule ends_seq [OF createImage_ends [OF layout _ run_ends(1) [OF machine block_commands(1)]] withMount_ends [OF machine layout]])
      (use replay_ends [OF layout _ work] in \<open>simp_all add: target_options_def\<close>)
  have recovered: "ends ?J (withMount env imagePath (co_recover options) mo) (\<lambda>_. ?J)" for imagePath mo
    by (rule withMount_ends [OF machine layout]) (use recovery in \<open>simp add: recovery_returns_def\<close>)
  have removed: "ends ?J (if keep then io_return () else on_fs (rm_force (resolve (en_cwd env) (image_path (co_imageDir options) index))))
      (\<lambda>_. ?J)" for keep
  proof (cases keep)
    case True
    then show ?thesis by (simp add: ends_return)
  next
    case False
    have "ends ?J (on_fs (rm_force (image_file (en_cwd env) options index))) (\<lambda>_. ?J)"
      by (rule ends_on_fs) (rule rm_force_ends [OF layout])
    then show ?thesis using False by (simp add: image_path_resolve [OF layout])
  qed
  show ?thesis
    unfolding campaign_state_def Let_def prod.case
    by (rule ends_seq [OF materialise ends_bind [OF recovered ends_seq [OF removed ends_return]]])
qed

text \<open>A campaign is its loop, once the bounds and the trace are read.\<close>

lemma runCampaign_loop:
  assumes bounds: "fst (loadBounds boundsPath (wd_fs w)) = Inr bnds"
    and trace: "fst (read_file (resolve (en_cwd env) (co_tracePath options)) (wd_fs w)) = Inr bs"
      "result_bind (utf8_text bs) parseTrace = Inr trace"
    and states: "campaign_states trace (co_model options) bnds (co_seed options) = Inr states"
    and loop: "io_fold (campaign_state env options trace (parseAckLog trace)) (map_empty, 0) (List.enumerate 0 states) w
      = (Inr (findings, n), w')"
  shows "runCampaign env boundsPath options w
      = (Inr \<lparr>cr_crashPointsTested = length (campaign_points trace bnds (co_seed options)),
            cr_statesTested = length states, cr_findings = map_values findings\<rparr>, w')"
proof -
  obtain recoveries where "tests env options trace [] (List.enumerate 0 states) recoveries w w'" "n = length states"
    "findings = findings_of trace (parseAckLog trace) (co_imageDir options)
       (map2 (\<lambda>(index, state) recovery. (index, state, recovery)) (List.enumerate 0 states) recoveries)"
    using loop unfolding campaign_loop_iff by blast
  then show ?thesis
    unfolding campaign_run_iff using bounds trace states by blast
qed

text \<open>C10: a campaign comes to its end. Take a machine on which every program succeeds and keeps the disk in
  order, a recovery that returns, a disk on which the bounds and the trace can be read and the payloads
  of the trace are stored, and a trace of operations on files of the traced directory. Then the
  campaign returns a result, every sampled state has been tested, and the disk is in order again.\<close>

theorem campaign_completes:
  assumes machine: "working_machine env options cas" and layout: "campaign_layout (en_cwd env) options cas"
    and disk: "campaign_disk (en_cwd env) options cas (wd_fs w)"
    and recovery: "recovery_returns env options cas"
    and bounds: "fst (loadBounds boundsPath (wd_fs w)) = Inr bnds"
    and trace: "fst (read_file (resolve (en_cwd env) (co_tracePath options)) (wd_fs w)) = Inr bs"
      "result_bind (utf8_text bs) parseTrace = Inr trace"
    and work: "campaign_workload (en_cwd env) options cas trace"
  shows "\<exists>states result w'. campaign_states trace (co_model options) bnds (co_seed options) = Inr states
    \<and> runCampaign env boundsPath options w = (Inr result, w')
    \<and> cr_statesTested result = length states
    \<and> campaign_disk (en_cwd env) options cas (wd_fs w')"
proof -
  obtain states where states: "campaign_states trace (co_model options) bnds (co_seed options) = Inr states"
    using campaign_states_total by blast
  have "ends (disk_inv env options cas)
      (io_fold (campaign_state env options trace (parseAckLog trace)) (map_empty, 0) (List.enumerate 0 states))
      (\<lambda>_. disk_inv env options cas)"
  proof (rule ends_fold [where I = "\<lambda>_. disk_inv env options cas"])
    show "ends (disk_inv env options cas) (campaign_state env options trace (parseAckLog trace) item acc)
        (\<lambda>_. disk_inv env options cas)" for item acc
      using campaign_state_ends [OF machine layout work recovery] by (cases item; cases acc) simp
  qed
  then obtain findings n w' where loop:
    "io_fold (campaign_state env options trace (parseAckLog trace)) (map_empty, 0) (List.enumerate 0 states) w
      = (Inr (findings, n), w')" "disk_inv env options cas w'"
    using endsD [where s = w] disk by fastforce
  show ?thesis
    using runCampaign_loop [OF bounds trace states loop(1)] states loop(2) by (intro exI [of _ states]) simp
qed

text \<open>A trace with one write, its payload stored, and programs that succeed without doing anything.\<close>

definition one_write :: "log_record list" where
  "one_write = [HeaderRec 7, EventRec 0 0 ((op_event CPwrite ''/d/log'' 3 0 3 3)\<lparr>ev_digest := ''h''\<rparr>)]"

definition busy_world :: "unit world" where
  "busy_world = \<lparr>wd_fs = \<lparr>fs_nodes = [([''b''], File 0), ([''t''], File 1), ([''cas''], Dir), ([''cas'', ''h''], File 2)],
     fs_inodes = [(0, text_bytes (record_line small_bounds)), (1, text_bytes (trace_text one_write)), (2, [1, 2, 3])],
     fs_next = 3\<rparr>, wd_os = (), wd_log = []\<rparr>"

lemma busy_lookup: "fs_lookup (wd_fs busy_world) p = (if p = [] \<or> p = [''cas''] then Some Dir
    else if p = [''b''] then Some (File 0) else if p = [''t''] then Some (File 1)
    else if p = [''cas'', ''h''] then Some (File 2) else None)"
  by (simp add: fs_lookup_def busy_world_def map_get_def)

lemma busy_content: "inode_content (wd_fs busy_world) 0 = text_bytes (record_line small_bounds)"
  "inode_content (wd_fs busy_world) (Suc 0) = text_bytes (trace_text one_write)" "inode_content (wd_fs busy_world) 2 = [1, 2, 3]"
  by (simp_all add: inode_content_def busy_world_def map_get_def)

lemma busy_paths: "resolve ''/'' (co_imageDir small_campaign) = [''img'']"
  "payload_path ''/'' small_campaign ''h'' = [''cas'', ''h'']" "resolve ''/'' (co_tracePath small_campaign) = [''t'']"
  "relative ''/'' (co_rootDir small_campaign) ''/d/log'' = [''log'']" "starts_char (CHR ''/'') (co_imageDir small_campaign)"
  by code_simp+

lemma busy_disk: "campaign_disk ''/'' small_campaign sample_cas (wd_fs busy_world)"
proof -
  have "fs_next (wd_fs busy_world) = 3" by (simp add: busy_world_def)
  then have "fs_ok (wd_fs busy_world)"
    by (auto simp: fs_ok_def busy_lookup split: if_splits)
  then show ?thesis
    by (auto simp: campaign_disk_def busy_paths image_file_def mount_root_def tree_def busy_lookup busy_content
        sample_cas_def under_dirs_def ancestors_def less_Suc_eq prefix_Cons split: if_splits)
qed

lemma busy_layout: "campaign_layout ''/'' small_campaign sample_cas"
  by (auto simp: campaign_layout_def busy_paths image_file_def mount_root_def sample_cas_def)

lemma busy_machine: "working_machine idle_env small_campaign sample_cas"
  by (simp add: working_machine_def idle_env_def)

lemma busy_recovery: "recovery_returns idle_env small_campaign sample_cas"
  by (auto simp: recovery_returns_def small_campaign_def mounted_at_def intro: ends_return)

lemma busy_trace: "\<exists>trace. result_bind (utf8_text (text_bytes (trace_text one_write))) parseTrace = Inr trace
    \<and> tr_events trace = [(op_event CPwrite ''/d/log'' 3 0 3 3)\<lparr>ev_digest := ''h''\<rparr>]"
proof -
  have "\<forall>c\<in>set (trace_text one_write). char_code c < 128"
    unfolding list_all_iff [symmetric] by code_simp
  moreover have "clean_text ''/d/log'' \<and> clean_text ''h'' \<and> clean_text []" by code_simp
  then have "\<forall>r\<in>set one_write. clean_record r"
    by (simp add: one_write_def clean_record_def exact_def op_event_def)
  ultimately show ?thesis
    using utf8_text_bytes read_records
    by (simp add: one_write_def first_pid_def map_filter_simps events_of_def)
qed

lemma campaign_completes_witness:
  "\<exists>result w'. runCampaign idle_env [''b''] small_campaign busy_world = (Inr result, w')
     \<and> campaign_disk ''/'' small_campaign sample_cas (wd_fs w')"
proof -
  obtain trace where trace: "result_bind (utf8_text (text_bytes (trace_text one_write))) parseTrace = Inr trace"
    "tr_events trace = [(op_event CPwrite ''/d/log'' 3 0 3 3)\<lparr>ev_digest := ''h''\<rparr>]"
    using busy_trace by blast
  have work: "campaign_workload ''/'' small_campaign sample_cas trace"
    using busy_paths(4)
    by (simp add: campaign_workload_def trace(2) op_event_def traced_file_def sample_cas_def plain_segment_def)
  obtain lb where "parse_bounds (record_line small_bounds) = Inr lb" using small_parse by blast
  then have load: "fst (loadBounds [''b''] (wd_fs busy_world)) = Inr lb"
    using utf8_text_bytes [of "record_line small_bounds"] small_line
    by (simp add: loadBounds_def io_bind_def read_file_def with_node_def walk_error_def ancestors_def
        busy_lookup busy_content)
  have read: "fst (read_file (resolve ''/'' (co_tracePath small_campaign)) (wd_fs busy_world))
      = Inr (text_bytes (trace_text one_write))"
    by (simp add: busy_paths read_file_def with_node_def walk_error_def ancestors_def busy_lookup busy_content)
  have cwd: "en_cwd idle_env = ''/''" by (simp add: idle_env_def)
  show ?thesis
    using campaign_completes [OF busy_machine busy_layout [folded cwd] busy_disk [folded cwd] busy_recovery
        load read [folded cwd] trace(1) work [folded cwd]]
    unfolding cwd by blast
qed

end
