(* ===== verification/Machine.thy ===== *)
theory Machine
  imports Progress
begin

text \<open>
  The block layer a campaign drives. The programs it spawns are outside the repository; what the campaign
  relies on is the documented behaviour of \<open>mkfs\<close>, \<open>losetup\<close>, \<open>mount\<close> and \<open>umount\<close>, stated as the assumptions
  of a locale over three views of the machine: the files in a file-system image, the image behind a loop
  device, and the image mounted on a directory.
\<close>

abbreviation dir_files :: "string \<Rightarrow> fs \<Rightarrow> string \<Rightarrow> byte list option" where
  "dir_files x s \<equiv> \<lambda>n. files s (mount_root @ [''m-'' @ x, n])"

text \<open>
  What a campaign needs of its recovery: on a mounted directory with good files it returns, its result
  satisfies the verdict, and the directory is still mounted.
\<close>

definition recovers_to ::
    "'o env \<Rightarrow> 'o campaign_options \<Rightarrow> (string \<Rightarrow> byte list option) \<Rightarrow> ('o \<Rightarrow> string \<Rightarrow> string option)
     \<Rightarrow> ((string \<Rightarrow> byte list option) \<Rightarrow> bool) \<Rightarrow> (recovery_result \<Rightarrow> bool) \<Rightarrow> bool" where
  "recovers_to env options cas mounted_on good verdict \<longleftrightarrow>
     (\<forall>x path content. CHR ''/'' \<notin> set x \<longrightarrow> good content \<longrightarrow>
        ends (\<lambda>w. mounted_at env options cas (''m-'' @ x) w
            \<and> mounted_on (wd_os w) (mount_dir x) = Some path \<and> dir_files x (wd_fs w) = content)
          (co_recover options (mount_dir x))
          (\<lambda>r w. disk_inv env options cas w \<and> mounted_on (wd_os w) (mount_dir x) = Some path \<and> verdict r))"

locale block_machine =
  fixes env :: "'o env" and options :: "'o campaign_options" and cas :: "string \<Rightarrow> byte list option"
    and contents :: "'o \<Rightarrow> string \<Rightarrow> string \<Rightarrow> byte list option"
    and device :: "'o \<Rightarrow> string \<Rightarrow> string option"
    and mounted_on :: "'o \<Rightarrow> string \<Rightarrow> string option"
  assumes working: "working_machine env options cas"
    and format_empties: "campaign_disk (en_cwd env) options cas s \<Longrightarrow>
      en_spawn env [] (formatCommand spec) (s, os) = (p, s', os') \<Longrightarrow> contents os' (is_imagePath spec) = (\<lambda>_. None)"
    and attach_names: "campaign_disk (en_cwd env) options cas s \<Longrightarrow>
      en_spawn env [] (attach_command path) (s, os) = (p, s', os') \<Longrightarrow>
      contents os' = contents os \<and> device os' (trim (pr_stdout p)) = Some path"
    and mount_shows: "campaign_disk (en_cwd env) options cas s \<Longrightarrow> CHR ''/'' \<notin> set x \<Longrightarrow>
      dir_ready (mount_root @ [''m-'' @ x]) s \<Longrightarrow> device os dev = Some path \<Longrightarrow>
      en_spawn env [] (mount_command mountOptions dev (mount_dir x)) (s, os) = (p, s', os') \<Longrightarrow>
      mounted_on os' (mount_dir x) = Some path \<and> dir_files x s' = contents os path"
    and chmod_keeps: "campaign_disk (en_cwd env) options cas s \<Longrightarrow>
      en_spawn env [] [''sudo'', ''chmod'', ''0777'', mount_dir x] (s, os) = (p, s', os') \<Longrightarrow>
      mounted_on os' = mounted_on os \<and> dir_files x s' = dir_files x s"
    and umount_writes: "campaign_disk (en_cwd env) options cas s \<Longrightarrow> CHR ''/'' \<notin> set x \<Longrightarrow>
      mounted_on os (mount_dir x) = Some path \<Longrightarrow>
      en_spawn env [] (umount_command (mount_dir x)) (s, os) = (p, s', os') \<Longrightarrow> contents os' path = dir_files x s"
    and detach_keeps: "campaign_disk (en_cwd env) options cas s \<Longrightarrow>
      en_spawn env [] (detach_command dev) (s, os) = (p, s', os') \<Longrightarrow> contents os' = contents os"

text \<open>Running a program, from what its documentation says about one call.\<close>

lemma run_documented:
  assumes machine: "working_machine env options cas" and block: "block_command command"
    and disk: "\<And>w. P w \<Longrightarrow> disk_inv env options cas w"
    and call: "\<And>w p s' os'. P w \<Longrightarrow> en_spawn env [] command (wd_fs w, wd_os w) = (p, s', os') \<Longrightarrow>
      campaign_disk (en_cwd env) options cas s' \<Longrightarrow>
      (\<And>d. dir_ready (mount_root @ [d]) (wd_fs w) \<Longrightarrow> dir_ready (mount_root @ [d]) s') \<Longrightarrow>
      Q (trim (pr_stdout p)) s' os'"
  shows "ends P (capture env command) (\<lambda>out w. Q out (wd_fs w) (wd_os w))"
    "ends P (run env command) (\<lambda>_ w. \<exists>out. Q out (wd_fs w) (wd_os w))"
proof -
  have "\<exists>p s' os'. en_spawn env [] command (wd_fs w, wd_os w) = (p, s', os') \<and> pr_exit p = 0
      \<and> Q (trim (pr_stdout p)) s' os'" if "P w" for w
  proof -
    obtain p s' os' where p: "en_spawn env [] command (wd_fs w, wd_os w) = (p, s', os')"
      by (metis prod_cases3)
    then have facts: "pr_exit p = 0" "campaign_disk (en_cwd env) options cas s'"
      "\<forall>d. dir_ready (mount_root @ [d]) (wd_fs w) \<longrightarrow> dir_ready (mount_root @ [d]) s'"
      using machine disk [OF that] block unfolding working_machine_def by blast+
    have "Q (trim (pr_stdout p)) s' os'"
      by (rule call [OF that p facts(2)]) (use facts(3) in blast)
    then show ?thesis using p facts(1) by blast
  qed
  then show "ends P (capture env command) (\<lambda>out w. Q out (wd_fs w) (wd_os w))"
    "ends P (run env command) (\<lambda>_ w. \<exists>out. Q out (wd_fs w) (wd_os w))"
    by (fastforce simp: ends_def run_def capture_def spawnSync_def spawn_with_def io_bind_def io_return_def)+
qed

context block_machine
begin

text \<open>A fresh image has no files.\<close>

lemma fresh_image:
  assumes "campaign_layout (en_cwd env) options cas" "is_imagePath spec = image_path (co_imageDir options) k"
  shows "ends (disk_inv env options cas) (createImage env spec)
     (\<lambda>_ w. disk_inv env options cas w \<and> contents (wd_os w) (is_imagePath spec) = (\<lambda>_. None))"
proof (rule createImage_ends [OF assms])
  have "ends (disk_inv env options cas) (run env (formatCommand spec))
     (\<lambda>_ w. \<exists>out :: string. campaign_disk (en_cwd env) options cas (wd_fs w)
        \<and> contents (wd_os w) (is_imagePath spec) = (\<lambda>_. None))"
    by (rule run_documented(2) [OF working block_commands(1)]) (use format_empties in blast)+
  then show "ends (disk_inv env options cas) (run env (formatCommand spec))
     (\<lambda>_ w. disk_inv env options cas w \<and> contents (wd_os w) (is_imagePath spec) = (\<lambda>_. None))"
    by simp
qed

text \<open>The states of a mount: attached to a device, and mounted with given files.\<close>

abbreviation attached_to :: "string \<Rightarrow> string \<Rightarrow> (string \<Rightarrow> byte list option) \<Rightarrow> string \<Rightarrow> 'o world \<Rightarrow> bool" where
  "attached_to x path content dev w \<equiv> mounted_at env options cas (''m-'' @ x) w
     \<and> contents (wd_os w) path = content \<and> device (wd_os w) dev = Some path"

abbreviation mounted_with :: "string \<Rightarrow> string \<Rightarrow> (string \<Rightarrow> byte list option) \<Rightarrow> 'o world \<Rightarrow> bool" where
  "mounted_with x path content w \<equiv> mounted_at env options cas (''m-'' @ x) w
     \<and> mounted_on (wd_os w) (mount_dir x) = Some path \<and> dir_files x (wd_fs w) = content"

abbreviation image_satisfies :: "string \<Rightarrow> ((string \<Rightarrow> byte list option) \<Rightarrow> bool) \<Rightarrow> 'o world \<Rightarrow> bool" where
  "image_satisfies path P w \<equiv> disk_inv env options cas w \<and> P (contents (wd_os w) path)"

lemma attach_run:
  "ends (\<lambda>w. mounted_at env options cas (''m-'' @ x) w \<and> contents (wd_os w) path = content)
     (capture env (attach_command path)) (attached_to x path content)"
  unfolding mounted_at_def
  by (rule run_documented(1) [OF working block_commands(2), where Q = "\<lambda>out s os. (campaign_disk (en_cwd env) options cas s
        \<and> dir_ready (mount_root @ [''m-'' @ x]) s) \<and> contents os path = content \<and> device os out = Some path"])
    (use attach_names in \<open>fastforce+\<close>)

lemma mount_run:
  assumes "CHR ''/'' \<notin> set x"
  shows "ends (attached_to x path content dev) (run env (mount_command mountOptions dev (mount_dir x)))
     (\<lambda>_. mounted_with x path content)"
proof -
  have "ends (attached_to x path content dev) (run env (mount_command mountOptions dev (mount_dir x)))
     (\<lambda>_ w. \<exists>out :: string. (campaign_disk (en_cwd env) options cas (wd_fs w) \<and> dir_ready (mount_root @ [''m-'' @ x]) (wd_fs w))
        \<and> mounted_on (wd_os w) (mount_dir x) = Some path \<and> dir_files x (wd_fs w) = content)"
    unfolding mounted_at_def
    by (rule run_documented(2) [OF working block_commands(3)]) (use mount_shows [OF _ assms] in \<open>fastforce+\<close>)
  then show ?thesis by (simp add: mounted_at_def)
qed

lemma chmod_run:
  "ends (mounted_with x path content) (run env [''sudo'', ''chmod'', ''0777'', mount_dir x])
     (\<lambda>_. mounted_with x path content)"
proof -
  have "ends (mounted_with x path content) (run env [''sudo'', ''chmod'', ''0777'', mount_dir x])
     (\<lambda>_ w. \<exists>out :: string. (campaign_disk (en_cwd env) options cas (wd_fs w) \<and> dir_ready (mount_root @ [''m-'' @ x]) (wd_fs w))
        \<and> mounted_on (wd_os w) (mount_dir x) = Some path \<and> dir_files x (wd_fs w) = content)"
    unfolding mounted_at_def
    by (rule run_documented(2) [OF working block_commands(6)]) (use chmod_keeps in \<open>fastforce+\<close>)
  then show ?thesis by (simp add: mounted_at_def)
qed

lemma umount_run:
  assumes "CHR ''/'' \<notin> set x"
  shows "ends (\<lambda>w. disk_inv env options cas w \<and> mounted_on (wd_os w) (mount_dir x) = Some path \<and> P (dir_files x (wd_fs w)))
     (run env (umount_command (mount_dir x))) (\<lambda>_. image_satisfies path P)"
proof -
  have "ends (\<lambda>w. disk_inv env options cas w \<and> mounted_on (wd_os w) (mount_dir x) = Some path \<and> P (dir_files x (wd_fs w)))
      (run env (umount_command (mount_dir x)))
      (\<lambda>_ w. \<exists>out :: string. campaign_disk (en_cwd env) options cas (wd_fs w) \<and> P (contents (wd_os w) path))"
    by (rule run_documented(2) [OF working block_commands(4)]) (use umount_writes [OF _ assms] in \<open>fastforce+\<close>)
  then show ?thesis by simp
qed

lemma detach_run:
  "ends (image_satisfies path P) (run env (detach_command dev)) (\<lambda>_. image_satisfies path P)"
proof -
  have "ends (image_satisfies path P) (run env (detach_command dev))
      (\<lambda>_ w. \<exists>out :: string. campaign_disk (en_cwd env) options cas (wd_fs w) \<and> P (contents (wd_os w) path))"
    by (rule run_documented(2) [OF working block_commands(5)]) (use detach_keeps in \<open>fastforce+\<close>)
  then show ?thesis by simp
qed

text \<open>
  What a statement does to the files of a mounted directory, it does to the image: it starts from the
  files of the image, and the image ends with the files it leaves.
\<close>

lemma mounted_program:
  assumes layout: "campaign_layout (en_cwd env) options cas"
    and body: "\<And>x. CHR ''/'' \<notin> set x \<Longrightarrow> ends (mounted_with x path before) (fn (mount_dir x))
      (\<lambda>y w. disk_inv env options cas w \<and> mounted_on (wd_os w) (mount_dir x) = Some path \<and> R y (dir_files x (wd_fs w)))"
  shows "ends (\<lambda>w. disk_inv env options cas w \<and> contents (wd_os w) path = before)
     (withMount env path fn mountOptions) (\<lambda>y. image_satisfies path (R y))"
  by (rule withMount_steps [OF working layout attach_run mount_run chmod_run body umount_run detach_run])

lemma mounted_files:
  assumes body: "\<And>s. campaign_disk (en_cwd env) options cas s \<Longrightarrow>
      dir_ready (mount_root @ [''m-'' @ x]) s \<Longrightarrow> dir_files x s = before \<Longrightarrow>
      \<exists>y t. m s = (Inr y, t) \<and> campaign_disk (en_cwd env) options cas t \<and> R y (dir_files x t)"
  shows "ends (mounted_with x path before) (on_fs m)
      (\<lambda>y w. disk_inv env options cas w \<and> mounted_on (wd_os w) (mount_dir x) = Some path \<and> R y (dir_files x (wd_fs w)))"
proof -
  have "ends (\<lambda>w. (campaign_disk (en_cwd env) options cas (wd_fs w) \<and> dir_ready (mount_root @ [''m-'' @ x]) (wd_fs w)
        \<and> dir_files x (wd_fs w) = before) \<and> mounted_on (wd_os w) (mount_dir x) = Some path) (on_fs m)
      (\<lambda>y w. (campaign_disk (en_cwd env) options cas (wd_fs w) \<and> R y (dir_files x (wd_fs w))) \<and> mounted_on (wd_os w) (mount_dir x) = Some path)"
    by (rule ends_on_fs_frame) (use body in blast)
  then show ?thesis by (rule ends_weaken) (auto simp: mounted_at_def)
qed

text \<open>A recovery that reads a mounted directory is one over the mounted image.\<close>

lemma file_recovery:
  assumes recover: "co_recover options = (\<lambda>dir. on_fs (m dir))"
    and reads: "\<And>x s. CHR ''/'' \<notin> set x \<Longrightarrow> campaign_disk (en_cwd env) options cas s \<Longrightarrow>
      dir_ready (mount_root @ [''m-'' @ x]) s \<Longrightarrow> good (dir_files x s) \<Longrightarrow>
      \<exists>r t. m (mount_dir x) s = (Inr r, t) \<and> campaign_disk (en_cwd env) options cas t \<and> verdict r"
  shows "recovers_to env options cas mounted_on good verdict"
  unfolding recovers_to_def recover
proof (intro allI impI)
  fix x path content assume x: "CHR ''/'' \<notin> set x" and good: "good content"
  show "ends (mounted_with x path content) (on_fs (m (mount_dir x)))
      (\<lambda>r w. disk_inv env options cas w \<and> mounted_on (wd_os w) (mount_dir x) = Some path \<and> verdict r)"
    by (rule mounted_files [where R = "\<lambda>r _. verdict r"]) (use reads [OF x] good in blast)
qed

end

end
