(* ===== verification/Ram.thy ===== *)
theory Ram
  imports Machine
begin

text \<open>
  A block layer in memory, on which the assumptions of \<open>block_machine\<close> hold: images are lists of named files,
  one loop device names the image attached last, a mount writes the files of the image into the directory
  and an unmount collects them.
\<close>

section \<open>The machine\<close>

record ram =
  ram_image :: "string \<Rightarrow> (string \<times> byte list) list"
  ram_loop :: "string option"
  ram_mount :: "string \<Rightarrow> string option"

definition below :: "segs \<Rightarrow> segs \<Rightarrow> bool" where
  "below T q \<longleftrightarrow> take (length T) q = T \<and> length T < length q"

definition clear_dir :: "segs \<Rightarrow> fs \<Rightarrow> fs" where
  "clear_dir T s = s\<lparr>fs_nodes := filter (\<lambda>(q, _). \<not> below T q) (fs_nodes s)\<rparr>"

definition add_file :: "segs \<Rightarrow> string \<times> byte list \<Rightarrow> fs \<Rightarrow> fs" where
  "add_file T entry s =
     s\<lparr>fs_nodes := map_set (T @ [fst entry]) (File (fs_next s)) (fs_nodes s),
       fs_inodes := map_set (fs_next s) (snd entry) (fs_inodes s), fs_next := Suc (fs_next s)\<rparr>"

definition fill_dir :: "segs \<Rightarrow> (string \<times> byte list) list \<Rightarrow> fs \<Rightarrow> fs" where
  "fill_dir T entries s = foldr (add_file T) entries (clear_dir T s)"

definition list_dir :: "segs \<Rightarrow> fs \<Rightarrow> (string \<times> byte list) list" where
  "list_dir T s = List.map_filter (\<lambda>(name, n). case n of File i \<Rightarrow> Some (name, inode_content s i) | Dir \<Rightarrow> None)
     (dir_entries s T)"

definition is_mount_point :: "string \<Rightarrow> bool" where
  "is_mount_point dir \<longleftrightarrow> resolve ''/'' dir \<noteq> [] \<and> butlast (resolve ''/'' dir) = mount_root"

text \<open>A query tool for databases whose file is the report on them.\<close>

definition ram_report :: "byte list option \<Rightarrow> process" where
  "ram_report db = (case db of
     None \<Rightarrow> \<lparr>pr_pid = 1, pr_exit = 1, pr_stdout = [], pr_stderr = ''no database''\<rparr>
   | Some bs \<Rightarrow> \<lparr>pr_pid = 1, pr_exit = 0, pr_stdout = map (\<lambda>b. char_of (unat b)) bs, pr_stderr = []\<rparr>)"

definition ram_spawn ::
    "(string \<times> string) list \<Rightarrow> string list \<Rightarrow> fs \<times> ram \<Rightarrow> process \<times> fs \<times> ram" where
  "ram_spawn vars command machine =
     (let (s, os) = machine; target = last command; T = resolve ''/'' target;
          ok = \<lparr>pr_pid = 1, pr_exit = 0, pr_stdout = ''/dev/loop0'', pr_stderr = ''''\<rparr> in
      if take 4 command = [''sudo'', ''losetup'', ''--find'', ''--show''] then (ok, s, os\<lparr>ram_loop := Some target\<rparr>)
      else if take 2 command = [''sudo'', ''mount''] then
        (case ram_loop os of
           Some path \<Rightarrow> if is_mount_point target
             then (ok, fill_dir T (ram_image os path) s, os\<lparr>ram_mount := (ram_mount os)(target \<mapsto> path)\<rparr>) else (ok, s, os)
         | None \<Rightarrow> (ok, s, os))
      else if take 2 command = [''sudo'', ''umount''] then
        (case ram_mount os target of
           Some path \<Rightarrow> if is_mount_point target
             then (ok, clear_dir T s, os\<lparr>ram_image := (ram_image os)(path := list_dir T s)\<rparr>) else (ok, s, os)
         | None \<Rightarrow> (ok, s, os))
      else if take 1 command = [''sudo''] then (ok, s, os)
      else if take 1 command = [redbBinary ''redb-query''] then (ram_report (files s T), s, os)
      else (ok, s, os\<lparr>ram_image := (ram_image os)(target := [])\<rparr>))"

definition ram_env :: "ram env" where
  "ram_env = \<lparr>en_spawn = ram_spawn, en_cwd = ''/'', en_fresh = (\<lambda>s. ''x'')\<rparr>"

section \<open>Clearing, filling and listing a directory\<close>

lemma tree_clear: "tree (clear_dir T s) q = (if below T q then None else tree s q)"
  and ok_clear: "fs_ok s \<Longrightarrow> fs_ok (clear_dir T s)"
proof -
  have "map_get (filter (\<lambda>(q, _). \<not> below T q) m) q = (if below T q then None else map_get m q)"
    for m :: "(segs, node) js_map" and q
    unfolding map_get_def by (induction m) auto
  then have look: "fs_lookup (clear_dir T s) q = (if below T q then None else fs_lookup s q)" for q
    by (auto simp: clear_dir_def fs_lookup_def below_def)
  have content: "inode_content (clear_dir T s) = inode_content s" "fs_next (clear_dir T s) = fs_next s"
    by (simp_all add: clear_dir_def)
  show "tree (clear_dir T s) q = (if below T q then None else tree s q)"
    unfolding tree_def look content by simp
  show "fs_ok (clear_dir T s)" if "fs_ok s"
    using that unfolding fs_ok_def look content by (simp split: if_splits)
qed

lemma add_file_effect:
  assumes "fs_ok s"
  shows "fs_ok (add_file T e s)" "tree (add_file T e s) = (tree s)(T @ [fst e] \<mapsto> F (snd e))"
proof -
  let ?t = "add_file T e s"
  have look: "fs_lookup ?t = (fs_lookup s)(T @ [fst e] \<mapsto> File (fs_next s))"
    by (auto simp: add_file_def fs_lookup_def fun_eq_iff)
  have content: "inode_content ?t i = (if i = fs_next s then snd e else inode_content s i)" for i
    by (simp add: add_file_def inode_content_def)
  have "fs_next ?t = Suc (fs_next s)" by (simp add: add_file_def)
  then show "fs_ok ?t"
    using assms by (fastforce simp: fs_ok_def look less_Suc_eq split: if_splits)
  show "tree ?t = (tree s)(T @ [fst e] \<mapsto> F (snd e))"
    using fs_ok_fresh [OF assms]
    by (auto simp: fun_eq_iff tree_def look content split: option.splits node.splits)
qed

lemma fill_effect:
  assumes "fs_ok s"
  shows "fs_ok (fill_dir T entries s)
    \<and> tree (fill_dir T entries s) q = (if below T q
        then (if butlast q = T then map_option F (map_of entries (last q)) else None) else tree s q)"
proof (induction entries arbitrary: q)
  case Nil
  then show ?case using ok_clear [OF assms] by (simp add: fill_dir_def tree_clear)
next
  case (Cons e entries)
  have step: "fill_dir T (e # entries) s = add_file T e (fill_dir T entries s)"
    by (simp add: fill_dir_def)
  have ok: "fs_ok (fill_dir T entries s)" using Cons.IH by blast
  have "tree (fill_dir T (e # entries) s) q = (if q = T @ [fst e] then Some (F (snd e)) else tree (fill_dir T entries s) q)"
    by (simp add: step add_file_effect(2) [OF ok])
  also have "\<dots> = (if below T q
        then (if butlast q = T then map_option F (map_of (e # entries) (last q)) else None) else tree s q)"
  proof (cases "q = T @ [fst e]")
    case True
    then show ?thesis by (cases e) (simp add: below_def)
  next
    case False
    then have "\<not> (below T q \<and> butlast q = T \<and> last q = fst e)"
      by (cases q rule: rev_cases) (auto simp: below_def)
    then show ?thesis using Cons.IH [of q] False by (cases e) auto
  qed
  finally show ?case using add_file_effect(1) [OF ok] by (simp add: step)
qed

lemma list_effect: "map_of (list_dir T s) n = files s (T @ [n])"
proof -
  have entry: "(m, bs) \<in> set (list_dir T s) \<longleftrightarrow> (\<exists>i. (m, File i) \<in> set (dir_entries s T) \<and> bs = inode_content s i)" for m bs
    by (force simp: list_dir_def map_filter_def split: node.splits)
  have "(m, bs) \<in> set (list_dir T s) \<longleftrightarrow> files s (T @ [m]) = Some bs" for m bs
    unfolding entry entry_lookup by (auto simp: files_def tree_def split: option.splits node.splits)
  then show ?thesis
    by (metis map_of_SomeD not_None_eq weak_map_of_SomeI)
qed

section \<open>The documented behaviour\<close>

lemma mount_dir_point: "CHR ''/'' \<notin> set x \<Longrightarrow> is_mount_point (mount_dir x)"
  by (simp add: is_mount_point_def mount_dir_resolve)

text \<open>Only files below one mount point change.\<close>

lemma mount_point_keeps:
  assumes layout: "campaign_layout cwd options cas" and disk: "campaign_disk cwd options cas s"
    and ok: "fs_ok t" and T: "T \<noteq> []" "butlast T = mount_root"
    and change: "\<And>q. tree t q = tree s q \<or> below T q \<and> tree t q \<noteq> Some D"
  shows "campaign_disk cwd options cas t"
    "dir_ready (mount_root @ [d]) s \<longrightarrow> dir_ready (mount_root @ [d]) t"
proof -
  have T_eq: "T = mount_root @ [last T]" using T by (metis append_butlast_last_id)
  have deep: "\<exists>n. prefix (mount_root @ [last T, n]) q" if "below T q" for q
  proof -
    have "prefix T q" "length T < length q" using that unfolding below_def by (metis take_is_prefix)+
    then obtain n r where "q = T @ n # r" by (metis append_self_conv length_append neq_Nil_conv nat_less_le prefixE)
    then have "q = (mount_root @ [last T, n]) @ r" using T_eq by (metis append.assoc append_Cons append_Nil)
    then show ?thesis by (metis prefixI)
  qed
  show "campaign_disk cwd options cas t"
    by (rule tidy_disk [OF disk layout ok]) (use change deep in \<open>unfold tidy_change_def, blast\<close>)
  have short: "\<not> below T q" if "prefix q (mount_root @ [d])" for q
    using prefix_length_le [OF that] arg_cong [OF T_eq, of length] by (simp add: below_def)
  show "dir_ready (mount_root @ [d]) s \<longrightarrow> dir_ready (mount_root @ [d]) t"
    using ok change short unfolding dir_ready_def by metis
qed

lemma fill_keeps:
  assumes layout: "campaign_layout cwd options cas" and disk: "campaign_disk cwd options cas s"
    and T: "T \<noteq> []" "butlast T = mount_root"
  shows "campaign_disk cwd options cas (fill_dir T entries s)"
    "dir_ready (mount_root @ [d]) s \<longrightarrow> dir_ready (mount_root @ [d]) (fill_dir T entries s)"
    "campaign_disk cwd options cas (clear_dir T s)"
    "dir_ready (mount_root @ [d]) s \<longrightarrow> dir_ready (mount_root @ [d]) (clear_dir T s)"
proof -
  have ok: "fs_ok s" using disk by (simp add: campaign_disk_def)
  show "campaign_disk cwd options cas (fill_dir T entries s)"
    "dir_ready (mount_root @ [d]) s \<longrightarrow> dir_ready (mount_root @ [d]) (fill_dir T entries s)"
    "campaign_disk cwd options cas (clear_dir T s)"
    "dir_ready (mount_root @ [d]) s \<longrightarrow> dir_ready (mount_root @ [d]) (clear_dir T s)"
    by (rule mount_point_keeps [OF layout disk _ T]; use fill_effect [OF ok, of T entries] ok_clear [OF ok] in \<open>auto simp: tree_clear\<close>)+
qed

abbreviation ram_contents :: "ram \<Rightarrow> string \<Rightarrow> string \<Rightarrow> byte list option" where
  "ram_contents os path \<equiv> map_of (ram_image os path)"

abbreviation ram_device :: "ram \<Rightarrow> string \<Rightarrow> string option" where
  "ram_device os dev \<equiv> if dev = ''/dev/loop0'' then ram_loop os else None"

lemma ram_working:
  assumes layout: "campaign_layout ''/'' options cas"
  shows "working_machine ram_env options cas"
proof -
  have "(block_command command \<longrightarrow> pr_exit p = 0) \<and> campaign_disk ''/'' options cas s'
      \<and> (\<forall>d. dir_ready (mount_root @ [d]) s \<longrightarrow> dir_ready (mount_root @ [d]) s')"
    if spawn: "ram_spawn vars command (s, os) = (p, s', os')" and disk: "campaign_disk ''/'' options cas s"
    for vars command s os p s' os'
  proof -
    note keeps = fill_keeps [OF layout disk, of "resolve ''/'' (last command)"]
    have "\<not> block_command command" if "take 1 command = [redbBinary ''redb-query'']"
      using that by (cases command) (simp_all add: block_command_def redbBinary_query)
    then show ?thesis
      using spawn disk keeps
      by (auto simp: ram_spawn_def Let_def is_mount_point_def split: if_splits option.splits)
  qed
  then show ?thesis by (simp add: working_machine_def ram_env_def)
qed

lemma ram_machine:
  assumes layout: "campaign_layout ''/'' options cas"
  shows "block_machine ram_env options cas ram_contents ram_device ram_mount"
proof
  show "working_machine ram_env options cas" by (rule ram_working [OF layout])
next
  fix s spec os p s' os'
  assume "en_spawn ram_env [] (formatCommand spec) (s, os) = (p, s', os')"
  then show "ram_contents os' (is_imagePath spec) = (\<lambda>_. None)"
    by (cases "is_filesystem spec") (auto simp: ram_env_def ram_spawn_def formatCommand_def Let_def redbBinary_query)
next
  fix s path os p s' os'
  have "trim ''/dev/loop0'' = ''/dev/loop0''" by code_simp
  moreover assume "en_spawn ram_env [] (attach_command path) (s, os) = (p, s', os')"
  ultimately show "ram_contents os' = ram_contents os \<and> ram_device os' (trim (pr_stdout p)) = Some path"
    by (auto simp: ram_env_def ram_spawn_def attach_command_def Let_def)
next
  fix s x os dev path mountOptions p s' os'
  assume disk: "campaign_disk (en_cwd ram_env) options cas s" and x: "CHR ''/'' \<notin> set x"
    and dev: "ram_device os dev = Some path"
    and spawn: "en_spawn ram_env [] (mount_command mountOptions dev (mount_dir x)) (s, os) = (p, s', os')"
  let ?T = "mount_root @ [''m-'' @ x]"
  have loop: "ram_loop os = Some path" using dev by (simp split: if_splits)
  have s': "s' = fill_dir ?T (ram_image os path) s" "ram_mount os' (mount_dir x) = Some path"
    using spawn mount_dir_point [OF x] loop
    by (auto simp: ram_env_def ram_spawn_def mount_command_def Let_def mount_dir_resolve [OF x])
  have "fs_ok s" using disk by (simp add: campaign_disk_def)
  from fill_effect [OF this, of ?T "ram_image os path"]
  have tree: "tree s' (mount_root @ [''m-'' @ x, n]) = map_option F (ram_contents os path n)" for n
    by (simp add: s'(1) below_def butlast_append)
  have "dir_files x s' n = ram_contents os path n" for n
    using tree [of n] by (cases "ram_contents os path n") (simp_all add: files_def)
  then show "ram_mount os' (mount_dir x) = Some path \<and> dir_files x s' = ram_contents os path"
    using s'(2) by blast
next
  fix s x os p s' os'
  assume "en_spawn ram_env [] [''sudo'', ''chmod'', ''0777'', mount_dir x] (s, os) = (p, s', os')"
  then show "ram_mount os' = ram_mount os \<and> dir_files x s' = dir_files x s"
    by (auto simp: ram_env_def ram_spawn_def Let_def)
next
  fix s x os path p s' os'
  assume x: "CHR ''/'' \<notin> set x" and mount: "ram_mount os (mount_dir x) = Some path"
    and "en_spawn ram_env [] (umount_command (mount_dir x)) (s, os) = (p, s', os')"
  then have "ram_image os' path = list_dir (mount_root @ [''m-'' @ x]) s"
    using mount_dir_point [OF x]
    by (auto simp: ram_env_def ram_spawn_def umount_command_def Let_def mount_dir_resolve [OF x])
  then show "ram_contents os' path = dir_files x s" by (simp add: fun_eq_iff list_effect)
next
  fix s dev os p s' os'
  assume "en_spawn ram_env [] (detach_command dev) (s, os) = (p, s', os')"
  then show "ram_contents os' = ram_contents os"
    by (auto simp: ram_env_def ram_spawn_def detach_command_def Let_def)
qed

section \<open>A disk with a careful trace\<close>

text \<open>Texts the trace reader takes byte for byte.\<close>

definition ascii :: "string \<Rightarrow> bool" where
  "ascii s \<longleftrightarrow> (\<forall>c\<in>set s. char_code c < 128)"

lemma ascii_simps [simp]:
  "ascii []" "ascii (c # s) \<longleftrightarrow> char_code c < 128 \<and> ascii s" "ascii (s @ t) \<longleftrightarrow> ascii s \<and> ascii t"
  by (auto simp: ascii_def)

lemma ascii_join: "ascii sep \<Longrightarrow> \<forall>s\<in>set ss. ascii s \<Longrightarrow> ascii (join sep ss)"
  by (induction sep ss rule: join.induct) auto

lemma ascii_number: "ascii (nat_string n)" "ascii (int_string i)"
proof -
  show nat: "ascii (nat_string n)" for n
    using nat_string_digits [of n] by (force simp: ascii_def is_digit_def Let_def)
  have "char_code (CHR ''-'') < 128" by code_simp
  then show "ascii (int_string i)" by (simp add: int_string_def nat)
qed

lemma ascii_hex: "ascii (sha256 m)"
  using sha256_hex [of _ m] by (force simp: ascii_def is_hex_def is_digit_def Let_def)

definition ascii_field :: "string \<times> field_value \<Rightarrow> bool" where
  "ascii_field kv \<longleftrightarrow> ascii (fst kv) \<and> (case snd kv of FText s \<Rightarrow> ascii s | _ \<Rightarrow> True)"

lemma ascii_line:
  assumes "\<forall>kv\<in>set kvs. ascii_field kv"
  shows "ascii (record_line kvs)"
proof -
  have marks: "char_code quote < 128 \<and> ascii '':'' \<and> ascii '','' \<and> ascii ''{'' \<and> ascii ''}'' \<and> ascii ''true'' \<and> ascii ''false''"
    unfolding ascii_def by code_simp
  then have "ascii (field_text kv)" if "ascii_field kv" for kv
    using that ascii_number by (auto simp: field_text_def ascii_field_def split: field_value.splits)
  with assms have "ascii (join '','' (map field_text kvs))"
    using marks by (intro ascii_join) auto
  then show ?thesis using marks by (simp add: record_line_def)
qed

lemma ascii_trace:
  assumes "\<forall>r\<in>set rs. \<forall>kv\<in>set (record_fields r). ascii_field kv"
  shows "ascii (trace_text rs)"
proof -
  have "char_code NL < 128" by code_simp
  then show ?thesis using assms ascii_line by (induction rs) (auto simp: trace_text_def)
qed

text \<open>
  One operation: the driver says it begins, writes \<open>/d/log\<close>, syncs and says that the write is what \<open>key\<close> maps
  to; a second file is written afterwards.
\<close>

definition told :: "string \<Rightarrow> driver_operation" where
  "told key = \<lparr>dr_thread = 1, dr_op = 1, dr_key = key, dr_digest = sha256 [0, 0, 1, 2, 3], dr_began = 0, dr_acked = Some (4, True)\<rparr>"

definition told_records :: "string \<Rightarrow> log_record list" where
  "told_records key = HeaderRec 7 # map MarkerRec (driver_markers (told key)) @ map (EventRec 0 0) (tr_events synced_trace)"

definition plain_key :: "string \<Rightarrow> bool" where
  "plain_key key \<longleftrightarrow> clean_word key \<and> clean_text key \<and> ascii key"

lemma plain_keys: "plain_key ''log''" "plain_key ''gone''"
  unfolding plain_key_def clean_word_def ascii_def by code_simp+

lemma clean_append: "clean_text (s @ t) \<longleftrightarrow> clean_text s \<and> clean_text t"
  by (auto simp: clean_text_def)

lemma digest_clean: "clean_word (sha256 m)" "clean_text (sha256 m)"
proof -
  have "\<not> is_space c \<and> 32 \<le> char_code c" if "is_hex c" for c
    using that by (auto simp: is_hex_def is_digit_def is_space_def Let_def)
  moreover have "\<not> is_hex quote" "\<not> is_hex backslash" by code_simp+
  ultimately show "clean_word (sha256 m)" "clean_text (sha256 m)"
    using sha256_hex [of _ m] by (auto simp: clean_word_def clean_text_def)
qed

lemma told_markers: "mk_text (begin_marker (told key)) = ''op=1 phase=begin kind=put key='' @ key"
  "mk_text (ack_marker (told key) 4 True)
     = ''op=1 phase=ack kind=put key='' @ key @ '' digest='' @ sha256 [0, 0, 1, 2, 3] @ '' durable=1''"
proof -
  have one: "nat_string 1 = ''1''" by code_simp
  show "mk_text (begin_marker (told key)) = ''op=1 phase=begin kind=put key='' @ key"
    "mk_text (ack_marker (told key) 4 True)
     = ''op=1 phase=ack kind=put key='' @ key @ '' digest='' @ sha256 [0, 0, 1, 2, 3] @ '' durable=1''"
    by (simp_all add: begin_marker_def ack_marker_def told_def marker_text_def one [simplified])
qed

lemma told_texts:
  assumes "plain_key key"
  shows "clean_text (mk_text (begin_marker (told key)))" "clean_text (mk_text (ack_marker (told key) 4 True))"
    "ascii (mk_text (begin_marker (told key)))" "ascii (mk_text (ack_marker (told key) 4 True))"
proof -
  have "clean_text ''op=1 phase=begin kind=put key='' \<and> clean_text ''op=1 phase=ack kind=put key='' \<and> clean_text '' digest=''
      \<and> clean_text '' durable=1''" by code_simp
  then show "clean_text (mk_text (begin_marker (told key)))" "clean_text (mk_text (ack_marker (told key) 4 True))"
    unfolding told_markers clean_append using digest_clean(2) assms unfolding plain_key_def by blast+
  have "ascii ''op=1 phase=begin kind=put key='' \<and> ascii ''op=1 phase=ack kind=put key='' \<and> ascii '' digest=''
      \<and> ascii '' durable=1''" unfolding ascii_def by code_simp
  then show "ascii (mk_text (begin_marker (told key)))" "ascii (mk_text (ack_marker (told key) 4 True))"
    unfolding told_markers ascii_simps(3) using ascii_hex assms unfolding plain_key_def by blast+
qed

lemma told_records_eq: "told_records key =
    [HeaderRec 7, MarkerRec (begin_marker (told key)), MarkerRec (ack_marker (told key) 4 True),
     EventRec 0 0 ((op_event CPwrite ''/d/log'' 1 2 3 3)\<lparr>ev_digest := ''h''\<rparr>),
     EventRec 0 0 (op_event CFsync ''/d/log'' 3 (-1) 0 0),
     EventRec 0 0 ((op_event CPwrite ''/d/aux'' 5 0 3 3)\<lparr>ev_digest := ''h''\<rparr>)]"
  by (simp add: told_records_def driver_markers_def synced_trace_def trace_of_def, simp add: told_def)

lemma told_ascii:
  assumes "plain_key key"
  shows "\<forall>c\<in>set (trace_text (told_records key)). char_code c < 128"
proof -
  have "\<forall>w\<in>{''rec'', ''v'', ''pid'', ''i'', ''j'', ''call'', ''fd'', ''tid'', ''path'', ''path2'', ''off'', ''len'',
     ''ret'', ''err'', ''flags'', ''t'', ''dig'', ''text'', ''header'', ''event'', ''marker'',
     ''/d/log'', ''/d/aux'', ''h'', [], call_string CPwrite, call_string CFsync}. ascii w"
    unfolding ascii_def by code_simp
  then have "\<forall>r\<in>set (told_records key). \<forall>kv\<in>set (record_fields r). ascii_field kv"
    by (simp del: ascii_simps(2) add: told_records_eq record_fields_def ascii_field_def op_event_def told_texts [OF assms])
  from ascii_trace [OF this] show ?thesis by (simp add: ascii_def)
qed

text \<open>What the reader makes of it.\<close>

definition told_trace :: "string \<Rightarrow> trace" where
  "told_trace key = \<lparr>tr_header = \<lparr>hd_version = TRACE_VERSION, hd_pid = 7\<rparr>, tr_events = tr_events synced_trace,
     tr_markers = driver_markers (told key)\<rparr>"

lemma told_parse:
  assumes "plain_key key"
  shows "result_bind (utf8_text (text_bytes (trace_text (told_records key)))) parseTrace = Inr (told_trace key)"
proof -
  have "clean_text ''/d/log'' \<and> clean_text ''/d/aux'' \<and> clean_text ''h'' \<and> clean_text []" by code_simp
  then have "\<forall>r\<in>set (told_records key). clean_record r"
    using told_texts [OF assms]
    by (simp add: told_records_eq clean_record_def exact_def op_event_def, simp add: begin_marker_def ack_marker_def told_def)
  from read_records [OF this] utf8_text_bytes [OF told_ascii [OF assms]] show ?thesis
    by (simp add: told_records_eq first_pid_def map_filter_simps events_of_def markers_of_def told_trace_def
        synced_trace_def trace_of_def driver_markers_def op_event_def, simp add: told_def)
qed

lemma told_log:
  assumes "plain_key key"
  shows "parseAckLog (told_trace key) = [driver_record (told key)]"
proof -
  have "clean_operation (told key)"
    using digest_clean(1) assms by (simp add: clean_operation_def told_def plain_key_def)
  then have "foldl ack_step map_empty (driver_markers (told key))
      = [(of_nat (dr_op (told key)), driver_record (told key))]"
    using driver_loop_one [of "told key" "[]"] by (simp add: map_empty_def)
  then show ?thesis by (simp add: parseAckLog_def told_trace_def map_values_def)
qed

lemma told_stamps: "ev_index (tr_events (told_trace key) ! 0) = 1" "ev_index (tr_events (told_trace key) ! 1) = 3"
  "ev_index (tr_events (told_trace key) ! 2) = 5" "length (tr_events (told_trace key)) = 3"
  by (simp_all add: told_trace_def synced_trace_def trace_of_def op_event_def)

lemma told_promise:
  assumes "plain_key key"
  shows "promisedBefore (parseAckLog (told_trace key)) stamp = (if stamp \<le> 4 then [] else [driver_record (told key)])"
  by (simp add: told_log [OF assms] promisedBefore_def driver_record_def told_def)

text \<open>The disk: bounds, the trace and the payload of its writes.\<close>

definition ram_campaign :: "ram campaign_options" where
  "ram_campaign = \<lparr>co_tracePath = ''/t'', co_casDir = ''/cas'', co_rootDir = ''/d'', co_imageDir = ''/img'',
     co_dbName = ''db'', co_model = xfs, co_filesystem = Xfs, co_mountOptions = None, co_seed = 1,
     co_recover = (\<lambda>dir. on_fs (recoverFileKv ''/'' dir))\<rparr>"

definition ram_files :: "string \<Rightarrow> string \<times> byte list \<Rightarrow> string \<times> byte list \<Rightarrow> ram world" where
  "ram_files text one two = \<lparr>wd_fs = \<lparr>fs_nodes = [([''b''], File 0), ([''t''], File 1), ([''cas''], Dir),
       ([''cas'', fst one], File 2), ([''cas'', fst two], File 3)],
     fs_inodes = [(0, text_bytes (record_line small_bounds)), (1, text_bytes text), (2, snd one), (3, snd two)],
     fs_next = 4\<rparr>, wd_os = \<lparr>ram_image = (\<lambda>_. []), ram_loop = None, ram_mount = Map.empty\<rparr>, wd_log = []\<rparr>"

definition two_payloads :: "string \<times> byte list \<Rightarrow> string \<times> byte list \<Rightarrow> string \<Rightarrow> byte list option" where
  "two_payloads one two digest =
     (if digest = fst one then Some (snd one) else if digest = fst two then Some (snd two) else None)"

definition ram_world :: "string \<Rightarrow> ram world" where
  "ram_world key = ram_files (trace_text (told_records key)) (''h'', [1, 2, 3]) (''h'', [1, 2, 3])"

lemma ram_lookup: "fs_lookup (wd_fs (ram_files text one two)) p = (if p = [] \<or> p = [''cas''] then Some Dir
    else if p = [''b''] then Some (File 0) else if p = [''t''] then Some (File 1)
    else if p = [''cas'', fst one] then Some (File 2) else if p = [''cas'', fst two] then Some (File 3) else None)"
  by (simp add: fs_lookup_def ram_files_def map_get_def)

lemma ram_content: "inode_content (wd_fs (ram_files text one two)) 0 = text_bytes (record_line small_bounds)"
  "inode_content (wd_fs (ram_files text one two)) (Suc 0) = text_bytes text"
  "inode_content (wd_fs (ram_files text one two)) 2 = snd one" "inode_content (wd_fs (ram_files text one two)) 3 = snd two"
  by (simp_all add: inode_content_def ram_files_def map_get_def)

lemma told_cas: "sample_cas = two_payloads (''h'', [1, 2, 3]) (''h'', [1, 2, 3])"
  by (auto simp: fun_eq_iff sample_cas_def two_payloads_def)

lemma ram_paths: "resolve ''/'' (co_imageDir ram_campaign) = [''img'']"
  "payload_path ''/'' ram_campaign ''h'' = [''cas'', ''h'']" "resolve ''/'' (co_tracePath ram_campaign) = [''t'']"
  "resolve ''/'' (co_rootDir ram_campaign) = [''d'']" "starts_char (CHR ''/'') (co_imageDir ram_campaign)"
  "relative ''/'' (co_rootDir ram_campaign) ''/d/log'' = [''log'']"
  "relative ''/'' (co_rootDir ram_campaign) ''/d/aux'' = [''aux'']"
  "relative ''/'' (co_rootDir ram_campaign) [] = [''..'']"
  "resolve ''/'' ''/d/log'' = [''d'', ''log'']" "resolve ''/'' ''/d/aux'' = [''d'', ''aux'']"
  by code_simp+

lemma ram_payload: "plain_segment d \<Longrightarrow> payload_path ''/'' ram_campaign d = [''cas'', d]"
proof -
  have "resolve ''/'' (co_casDir ram_campaign) = [''cas'']" by code_simp
  moreover assume "plain_segment d"
  then have "norm_from [''cas''] (segments d) = [''cas'', d]"
    by (simp add: plain_segment_def segments_def split_on_no_sep norm_from_def norm_step_def)
  ultimately show ?thesis by (simp add: payload_path_def)
qed

lemma ram_files_disk:
  assumes "plain_segment (fst one)" "plain_segment (fst two)"
  shows "campaign_disk ''/'' ram_campaign (two_payloads one two) (wd_fs (ram_files text one two))"
proof -
  have "fs_next (wd_fs (ram_files text one two)) = 4" by (simp add: ram_files_def)
  then have "fs_ok (wd_fs (ram_files text one two))"
    by (auto simp: fs_ok_def ram_lookup split: if_splits)
  then show ?thesis
    using assms
    by (auto simp: campaign_disk_def ram_paths ram_payload image_file_def mount_root_def tree_def ram_lookup ram_content
        two_payloads_def under_dirs_def ancestors_def less_Suc_eq prefix_Cons split: if_splits)
qed

lemma ram_files_layout:
  assumes "plain_segment (fst one)" "plain_segment (fst two)"
  shows "campaign_layout ''/'' ram_campaign (two_payloads one two)"
  using assms
  by (auto simp: campaign_layout_def ram_paths ram_payload image_file_def mount_root_def two_payloads_def split: if_splits)

lemma ram_files_reads:
  "\<exists>lb. fst (loadBounds [''b''] (wd_fs (ram_files text one two))) = Inr lb \<and> lb_maxUnpersistedWindow lb = 8"
  "fst (read_file (resolve ''/'' (co_tracePath ram_campaign)) (wd_fs (ram_files text one two))) = Inr (text_bytes text)"
proof -
  obtain lb where "parse_bounds (record_line small_bounds) = Inr lb" "lb_maxUnpersistedWindow lb = 8" using small_parse by blast
  then show "\<exists>lb. fst (loadBounds [''b''] (wd_fs (ram_files text one two))) = Inr lb \<and> lb_maxUnpersistedWindow lb = 8"
    using utf8_text_bytes [of "record_line small_bounds"] small_line
    by (simp add: loadBounds_def io_bind_def read_file_def with_node_def walk_error_def ancestors_def
        ram_lookup ram_content)
  show "fst (read_file (resolve ''/'' (co_tracePath ram_campaign)) (wd_fs (ram_files text one two))) = Inr (text_bytes text)"
    by (simp add: ram_paths read_file_def with_node_def walk_error_def ancestors_def ram_lookup ram_content)
qed

lemma told_payload: "plain_segment (fst (''h'', [1 :: byte, 2, 3]))"
  by (simp add: plain_segment_def)

lemma ram_disk: "campaign_disk ''/'' ram_campaign sample_cas (wd_fs (ram_world key))"
  unfolding told_cas ram_world_def by (rule ram_files_disk [OF told_payload told_payload])

lemma ram_layout: "campaign_layout ''/'' ram_campaign sample_cas"
  unfolding told_cas by (rule ram_files_layout [OF told_payload told_payload])

lemmas ram_reads = ram_files_reads [of "trace_text (told_records key)" "(''h'', [1, 2, 3])" "(''h'', [1, 2, 3])",
    folded ram_world_def] for key

interpretation ram: block_machine ram_env ram_campaign sample_cas ram_contents ram_device ram_mount
  by (rule ram_machine [OF ram_layout])

lemma ram_cwd: "en_cwd ram_env = ''/''"
  by (simp add: ram_env_def)

lemma ram_store: "co_recover ram_campaign = (\<lambda>dir. on_fs (recoverFileKv ''/'' dir))"
  by (simp add: ram_campaign_def)

end
