(* ===== verification/Verdict.thy ===== *)
theory Verdict
  imports Ram
begin

text \<open>
  What a campaign computes. Over a block layer that behaves as documented, images, mounts, directories and
  descriptors drop out: the findings of a campaign over the file store are a function of the trace, the
  bounds and the payloads alone, and a campaign is silent exactly if every tested state keeps every
  promise.
\<close>

section \<open>One state on the machine\<close>

text \<open>
  A state is tested as its two mounts go: the first leaves the image with content that is \<open>good\<close>, the second
  turns such content into a recovery, which the campaign tallies.
\<close>

lemma machine_state:
  assumes machine: "block_machine env options cas contents device mounted_on"
    and layout: "campaign_layout (en_cwd env) options cas"
    and fills: "\<And>x s. CHR ''/'' \<notin> set x \<Longrightarrow> campaign_disk (en_cwd env) options cas s \<Longrightarrow>
      dir_ready (mount_root @ [''m-'' @ x]) s \<Longrightarrow> dir_files x s = (\<lambda>_. None) \<Longrightarrow>
      \<exists>y t. replaySelection (en_cwd env) trace (target_options options (mount_dir x)) (selection_of state) s = (Inr y, t)
        \<and> campaign_disk (en_cwd env) options cas t \<and> good (dir_files x t)"
    and recovers: "recovers_to env options cas mounted_on good verdict"
    and tally: "\<And>r. verdict r \<Longrightarrow>
      tally_state trace ackLog (image_path (co_imageDir options) index) state r findings = findings'"
  shows "ends (disk_inv env options cas) (campaign_state env options trace ackLog (index, state) (findings, n))
     (\<lambda>acc w. acc = (findings', n + 1) \<and> disk_inv env options cas w)"
proof -
  let ?cwd = "en_cwd env" and ?J = "disk_inv env options cas" and ?path = "image_path (co_imageDir options) index"
  let ?spec = "\<lparr>is_imagePath = ?path, is_filesystem = co_filesystem options, is_sizeBytes = IMAGE_BYTES\<rparr>"
  have created: "ends ?J (createImage env ?spec) (\<lambda>_ w. ?J w \<and> contents (wd_os w) ?path = (\<lambda>_. None))"
    using block_machine.fresh_image [OF machine layout, of ?spec index] by simp
  have filled: "ends (\<lambda>w. ?J w \<and> contents (wd_os w) ?path = (\<lambda>_. None))
      (withMount env ?path (\<lambda>dir. on_fs (replaySelection ?cwd trace (target_options options dir) (selection_of state)))
         (co_mountOptions options))
      (\<lambda>_ w. ?J w \<and> good (contents (wd_os w) ?path))"
    by (rule block_machine.mounted_program [OF machine layout, where R = "\<lambda>_. good"])
      (rule block_machine.mounted_files [OF machine], rule fills)
  have recovered: "ends (\<lambda>w. ?J w \<and> good (contents (wd_os w) ?path))
      (withMount env ?path (co_recover options) (co_mountOptions options)) (\<lambda>r w. ?J w \<and> verdict r)"
    by (rule ends_cases [where P = good and A = ?J and f = "\<lambda>w. contents (wd_os w) ?path"],
        rule block_machine.mounted_program [OF machine layout, where R = "\<lambda>r _. verdict r"])
      (use recovers in \<open>unfold recovers_to_def, blast\<close>)
  have removed: "ends (\<lambda>w. ?J w \<and> verdict r) (if keep then io_return () else on_fs (rm_force (resolve ?cwd ?path)))
      (\<lambda>_ w. ?J w \<and> verdict r)" for keep r
  proof (cases keep)
    case False
    have "ends (\<lambda>w. ?J w \<and> (\<lambda>_. verdict r) (wd_os w)) (on_fs (rm_force (image_file ?cwd options index)))
        (\<lambda>_ w. ?J w \<and> (\<lambda>_. verdict r) (wd_os w))"
      by (rule ends_on_fs_frame) (rule rm_force_ends [OF layout])
    then show ?thesis using False by (simp add: image_path_resolve [OF layout])
  qed (simp add: ends_return)
  have materialised: "ends ?J (materializeState env trace state
        \<lparr>mo_spec = ?spec, mo_mountOptions = co_mountOptions options, mo_casDir = co_casDir options,
         mo_rootDir = co_rootDir options\<rparr>)
      (\<lambda>_ w. ?J w \<and> good (contents (wd_os w) ?path))"
    using ends_seq [OF created filled] by (simp add: materializeState_def target_options_def selection_of_def)
  show ?thesis
    unfolding campaign_state_def Let_def prod.case
    by (rule ends_seq [OF materialised ends_bind [OF recovered ends_seq [OF removed ends_return]]]) (simp add: tally)
qed

text \<open>A campaign whose states end in known tallies ends in the fold of the tallies.\<close>

lemma machine_campaign:
  assumes disk: "campaign_disk (en_cwd env) options cas (wd_fs w)"
    and bounds: "fst (loadBounds boundsPath (wd_fs w)) = Inr bnds"
    and trace: "fst (read_file (resolve (en_cwd env) (co_tracePath options)) (wd_fs w)) = Inr bs"
      "result_bind (utf8_text bs) parseTrace = Inr trace"
    and step: "\<And>all index state findings n. enumerateCrashStates trace
        \<lparr>eo_model = co_model options,
         eo_bounds = \<lparr>tornWrites = lb_tornWrites bnds, maxUnpersistedWindow = lb_maxUnpersistedWindow bnds\<rparr>,
         eo_crashPoints = Some (campaign_points trace bnds (co_seed options))\<rparr> = Inr all \<Longrightarrow>
      state \<in> set all \<Longrightarrow>
      ends (disk_inv env options cas) (campaign_state env options trace (parseAckLog trace) (index, state) (findings, n))
       (\<lambda>acc w. acc = (judge index state findings, n + 1) \<and> disk_inv env options cas w)"
  shows "\<exists>states w'. campaign_states trace (co_model options) bnds (co_seed options) = Inr states
    \<and> runCampaign env boundsPath options w =
       (Inr \<lparr>cr_crashPointsTested = length (campaign_points trace bnds (co_seed options)),
             cr_statesTested = length states,
             cr_findings = map_values (foldl (\<lambda>findings (index, state). judge index state findings) map_empty
               (List.enumerate 0 states))\<rparr>, w')"
proof -
  let ?eo = "\<lparr>eo_model = co_model options,
      eo_bounds = \<lparr>tornWrites = lb_tornWrites bnds, maxUnpersistedWindow = lb_maxUnpersistedWindow bnds\<rparr>,
      eo_crashPoints = Some (campaign_points trace bnds (co_seed options))\<rparr>"
  obtain all states where all: "enumerateCrashStates trace ?eo = Inr all"
    and states: "campaign_states trace (co_model options) bnds (co_seed options) = Inr states" "set states \<subseteq> set all"
    using campaign_states_total [of trace "co_model options" bnds "co_seed options"] set_sampleStates
    by (cases "enumerateCrashStates trace ?eo") (auto simp: campaign_states_def)
  let ?loop = "\<lambda>(findings, n :: nat) (index, state). (judge index state findings, n + 1)"
  have "ends (disk_inv env options cas)
      (io_fold (campaign_state env options trace (parseAckLog trace)) (map_empty, 0) (List.enumerate 0 states))
      (\<lambda>acc w. acc = foldl ?loop (map_empty, 0) (List.enumerate 0 states) \<and> disk_inv env options cas w)"
  proof (rule ends_fold_value)
    fix item and acc :: "(string, finding) js_map \<times> nat"
    assume "item \<in> set (List.enumerate 0 states)"
    then have "snd item \<in> set states"
      using nth_mem by (fastforce simp: in_set_enumerate_eq)
    then have "snd item \<in> set all" using states(2) by blast
    then show "ends (disk_inv env options cas) (campaign_state env options trace (parseAckLog trace) item acc)
        (\<lambda>acc' w. acc' = ?loop acc item \<and> disk_inv env options cas w)"
      using step [OF all] by (cases item; cases acc) simp
  qed
  then obtain w' where loop: "io_fold (campaign_state env options trace (parseAckLog trace)) (map_empty, 0)
      (List.enumerate 0 states) w = (Inr (foldl ?loop (map_empty, 0) (List.enumerate 0 states)), w')"
    using endsD [where s = w] disk by fastforce
  have "fst (foldl ?loop (findings, n) items) = foldl (\<lambda>findings (index, state). judge index state findings) findings items"
    for findings n items by (induction items arbitrary: findings n) auto
  moreover obtain m and n :: nat where mn: "foldl ?loop (map_empty, 0) (List.enumerate 0 states) = (m, n)" by (metis prod.exhaust)
  ultimately have "m = foldl (\<lambda>findings (index, state). judge index state findings) map_empty (List.enumerate 0 states)"
    by (metis fst_conv)
  with runCampaign_loop [OF bounds trace states(1) loop [unfolded mn]] states(1) show ?thesis by blast
qed

section \<open>The content of a crash state\<close>

text \<open>
  The files of a state, by name: the store operations of the selected events from no files at all, each
  event at its path below the traced directory.
\<close>

definition traced_places :: "string \<Rightarrow> string \<Rightarrow> trace_event \<Rightarrow> segs \<times> segs" where
  "traced_places cwd rootDir event = (relative cwd rootDir (ev_path event), relative cwd rootDir (ev_path2 event))"

definition state_content ::
    "string \<Rightarrow> string \<Rightarrow> (string \<Rightarrow> byte list option) \<Rightarrow> trace \<Rightarrow> crash_state \<Rightarrow> string \<Rightarrow> byte list option" where
  "state_content cwd rootDir cas trace state name =
     foldl (\<lambda>st i. store_step (traced_places cwd rootDir) cas (tr_events trace ! i)
         (map_get (torn_bytes (selection_of state)) i) st)
       (\<lambda>_. None) (filter (selected (selection_of state)) [0..<length (tr_events trace)]) [name]"

text \<open>What recovery makes of it: the visible files the trace names, each with its digest.\<close>

definition traced_names :: "string \<Rightarrow> string \<Rightarrow> trace \<Rightarrow> string list" where
  "traced_names cwd rootDir trace =
     remdups (concat (map (\<lambda>event. relative cwd rootDir (ev_path event) @ relative cwd rootDir (ev_path2 event))
       (tr_events trace)))"

definition state_recovery ::
    "string \<Rightarrow> string \<Rightarrow> (string \<Rightarrow> byte list option) \<Rightarrow> trace \<Rightarrow> crash_state \<Rightarrow> recovery_result" where
  "state_recovery cwd rootDir cas trace state =
     Opened True
       (List.map_filter (\<lambda>name. if hidden_name name then None
            else map_option (\<lambda>bs. (name, sha256 bs)) (state_content cwd rootDir cas trace state name))
         (traced_names cwd rootDir trace))
       None"

lemma relative_inside:
  assumes "resolve cwd path = resolve cwd dir @ r"
  shows "relative cwd dir path = r"
  using assms by (simp add: relative_def Let_def)

text \<open>The operations of the workload are at one name each.\<close>

lemma traced_place:
  assumes "campaign_workload cwd options cas trace" "event \<in> set (tr_events trace)" "ev_call event \<in> MUTATING"
    and x: "CHR ''/'' \<notin> set x"
  obtains n where "plain_segment n" "n \<noteq> ''lost+found''" "relative cwd (co_rootDir options) (ev_path event) = [n]"
    "rebase cwd (ev_path event) (target_options options (mount_dir x)) = mount_root @ [''m-'' @ x, n]"
    "ev_call event = CRename \<Longrightarrow> \<exists>n2. plain_segment n2 \<and> n2 \<noteq> ''lost+found''
       \<and> relative cwd (co_rootDir options) (ev_path2 event) = [n2]
       \<and> rebase cwd (ev_path2 event) (target_options options (mount_dir x)) = mount_root @ [''m-'' @ x, n2]"
proof -
  have place: "rebase cwd path (target_options options (mount_dir x)) = mount_root @ [''m-'' @ x, n]"
    if "plain_segment n" "relative cwd (co_rootDir options) path = [n]" for path n
  proof -
    have "plain [n]" using that(1) by (simp add: plain_def)
    then show ?thesis
      using that(2) by (simp add: rebase_def target_options_def mount_dir_resolve [OF x] norm_from_plain)
  qed
  have traced: "traced_file cwd (co_rootDir options) (ev_path event)"
    "ev_call event = CRename \<longrightarrow> traced_file cwd (co_rootDir options) (ev_path2 event)"
    using assms(1-3) unfolding campaign_workload_def by blast+
  then obtain n where n: "plain_segment n" "n \<noteq> ''lost+found''" "relative cwd (co_rootDir options) (ev_path event) = [n]"
    unfolding traced_file_def by blast
  have "\<exists>n2. plain_segment n2 \<and> n2 \<noteq> ''lost+found''
       \<and> relative cwd (co_rootDir options) (ev_path2 event) = [n2]
       \<and> rebase cwd (ev_path2 event) (target_options options (mount_dir x)) = mount_root @ [''m-'' @ x, n2]"
    if "ev_call event = CRename"
    using traced(2) that place unfolding traced_file_def by blast
  with n place show ?thesis by (intro that) blast+
qed

lemma store_step_names:
  assumes work: "campaign_workload cwd options cas trace" "event \<in> set (tr_events trace)" and x: "CHR ''/'' \<notin> set x"
    and same: "\<forall>n. st (mount_root @ [''m-'' @ x, n]) = st' [n]"
  shows "\<forall>n. store_step (places cwd (target_options options (mount_dir x))) cas event bytes st (mount_root @ [''m-'' @ x, n])
    = store_step (traced_places cwd (co_rootDir options)) cas event bytes st' [n]"
proof (cases "ev_call event \<in> MUTATING")
  case True
  then obtain n where n: "relative cwd (co_rootDir options) (ev_path event) = [n]"
    "rebase cwd (ev_path event) (target_options options (mount_dir x)) = mount_root @ [''m-'' @ x, n]"
    "ev_call event = CRename \<Longrightarrow> \<exists>n2. relative cwd (co_rootDir options) (ev_path2 event) = [n2]
       \<and> rebase cwd (ev_path2 event) (target_options options (mount_dir x)) = mount_root @ [''m-'' @ x, n2]"
    using traced_place [OF work _ x] by metis
  have old: "old_bytes st (mount_root @ [''m-'' @ x, n]) = old_bytes st' [n]" for n
    using same by (simp add: old_bytes_def)
  show ?thesis
    using same n old by (auto simp: store_step_def places_def traced_places_def Let_def)
next
  case False
  then have "store_step place cas event bytes st = st" for place and st :: store
    by (auto simp: store_step_def MUTATING_def is_write_def NEEDS_EXISTING_FILE_def split: prod.splits)
  then show ?thesis using same by simp
qed

text \<open>A replay into a mounted empty directory leaves exactly this content.\<close>

lemma replay_content:
  assumes layout: "campaign_layout cwd options cas" and work: "campaign_workload cwd options cas trace"
    and x: "CHR ''/'' \<notin> set x" and disk: "campaign_disk cwd options cas s"
    and ready: "dir_ready (mount_root @ [''m-'' @ x]) s" and empty: "dir_files x s = (\<lambda>_. None)"
  shows "\<exists>y t. replaySelection cwd trace (target_options options (mount_dir x)) (selection_of state) s = (Inr y, t)
    \<and> campaign_disk cwd options cas t \<and> dir_files x t = state_content cwd (co_rootDir options) cas trace state"
proof -
  let ?ro = "target_options options (mount_dir x)" and ?T = "mount_root @ [''m-'' @ x]"
  have T: "resolve cwd (ro_targetDir ?ro) = ?T"
    by (simp add: target_options_def mount_dir_resolve [OF x])
  have "\<forall>i<length (tr_events trace). selected (selection_of state) i \<longrightarrow> flat_event cwd ?ro cas (tr_events trace ! i)"
    using workload_flat [OF work x] by simp
  from replay_store [OF mounted_replay_ready [OF disk ready layout x] this]
  obtain t where t: "replaySelection cwd trace ?ro (selection_of state) s = (Inr (), t)" "replay_inv cwd ?ro cas t"
    "files t = store_after cwd ?ro cas (tr_events trace) (selection_of state) (files s)"
    "\<forall>p. \<not> in_dir ?T p \<and> \<not> prefix p ?T \<longrightarrow> tree t p = tree s p"
    unfolding T by blast
  have "dir_ready ?T t" using t(2) unfolding replay_inv_def T by blast
  then have disk': "campaign_disk cwd options cas t" using replayed_disk [OF disk layout _ t(4)] by blast
  have "\<forall>n. foldl (\<lambda>st i. store_step (places cwd ?ro) cas (tr_events trace ! i) (tornb i) st) st is (mount_root @ [''m-'' @ x, n])
      = foldl (\<lambda>st i. store_step (traced_places cwd (co_rootDir options)) cas (tr_events trace ! i) (tornb i) st) st' is [n]"
    if "\<forall>n. st (mount_root @ [''m-'' @ x, n]) = st' [n]" "\<forall>i\<in>set is. i < length (tr_events trace)" for st st' "is" tornb
    using that
  proof (induction "is" arbitrary: st st')
    case (Cons i "is")
    then show ?case using store_step_names [OF work _ x Cons.prems(1)] by simp
  qed simp
  then have "dir_files x t n = state_content cwd (co_rootDir options) cas trace state n" for n
    unfolding t(3) store_after_def state_content_def using fun_cong [OF empty] by simp
  with t(1) disk' show ?thesis by blast
qed

text \<open>Its files come from the selected operations, and have names the trace uses.\<close>

lemma store_step_domain:
  assumes "store_step place cas event bytes st p \<noteq> None" "st p = None"
  shows "ev_call event \<in> MUTATING \<and> (p = fst (place event) \<or> ev_call event = CRename \<and> p = snd (place event))"
  using assms
  by (cases "place event")
    (auto simp: store_step_def MUTATING_def is_write_def NEEDS_EXISTING_FILE_def split: if_splits)

definition touches :: "string \<Rightarrow> string \<Rightarrow> string \<Rightarrow> trace_event \<Rightarrow> bool" where
  "touches cwd rootDir name event \<longleftrightarrow> ev_call event \<in> MUTATING
     \<and> (relative cwd rootDir (ev_path event) = [name] \<or> ev_call event = CRename \<and> relative cwd rootDir (ev_path2 event) = [name])"

lemma content_origin:
  assumes "state_content cwd rootDir cas trace state name \<noteq> None"
  shows "\<exists>i<length (tr_events trace). selected (selection_of state) i \<and> touches cwd rootDir name (tr_events trace ! i)"
proof -
  have "\<exists>i\<in>set is. touches cwd rootDir name (tr_events trace ! i)"
    if "foldl (\<lambda>st i. store_step (traced_places cwd rootDir) cas (tr_events trace ! i) (tornb i) st) st is [name] \<noteq> None"
      "st [name] = None" for st "is" tornb
    using that
  proof (induction "is" arbitrary: st)
    case (Cons i "is")
    let ?st = "store_step (traced_places cwd rootDir) cas (tr_events trace ! i) (tornb i) st"
    show ?case
    proof (cases "?st [name] = None")
      case True
      then show ?thesis using Cons.IH [of ?st] Cons.prems(1) by auto
    next
      case False
      from store_step_domain [OF this Cons.prems(2)] show ?thesis
        by (auto simp: touches_def traced_places_def)
    qed
  qed simp
  from this [OF assms [unfolded state_content_def]] show ?thesis by auto
qed

lemma content_names:
  assumes work: "campaign_workload cwd options cas trace"
    and content: "state_content cwd (co_rootDir options) cas trace state name \<noteq> None"
  shows "plain_segment name" "name \<in> set (traced_names cwd (co_rootDir options) trace)"
proof -
  obtain event where event: "event \<in> set (tr_events trace)" "touches cwd (co_rootDir options) name event"
    using content_origin [OF content] nth_mem by blast
  have "CHR ''/'' \<notin> set []" by simp
  from traced_place [OF work event(1) _ this] event(2)
  obtain n where n: "plain_segment n" "relative cwd (co_rootDir options) (ev_path event) = [n]"
    "ev_call event = CRename \<Longrightarrow> \<exists>n2. plain_segment n2 \<and> relative cwd (co_rootDir options) (ev_path2 event) = [n2]"
    unfolding touches_def by metis
  with event(2) show "plain_segment name" by (auto simp: touches_def)
  show "name \<in> set (traced_names cwd (co_rootDir options) trace)"
    using event unfolding traced_names_def touches_def
    by (auto intro!: bexI [of _ event])
qed

lemma map_get_names:
  "map_get (List.map_filter (\<lambda>name. map_option (Pair name) (f name)) names) k = (if k \<in> set names then f k else None)"
  by (induction names) (auto simp: map_get_def map_filter_simps split: option.splits)

lemma state_recovery_get:
  assumes work: "campaign_workload cwd options cas trace"
    and "state_recovery cwd (co_rootDir options) cas trace state = Opened ok vals detail"
  shows "ok" "map_get vals name =
    (if hidden_name name then None else map_option sha256 (state_content cwd (co_rootDir options) cas trace state name))"
proof -
  let ?c = "state_content cwd (co_rootDir options) cas trace state"
  have "(\<lambda>name. if hidden_name name then None else map_option (\<lambda>bs. (name, sha256 bs)) (?c name))
      = (\<lambda>name. map_option (Pair name) (if hidden_name name then None else map_option sha256 (?c name)))"
    by (auto simp: option.map_comp comp_def)
  then have vals: "ok" "vals = List.map_filter (\<lambda>name. map_option (Pair name)
      (if hidden_name name then None else map_option sha256 (?c name))) (traced_names cwd (co_rootDir options) trace)"
    using assms(2) by (simp_all add: state_recovery_def)
  then show "ok" by blast
  show "map_get vals name = (if hidden_name name then None else map_option sha256 (?c name))"
    using content_names(2) [OF work, of state name] by (cases "?c name") (auto simp: vals(2) map_get_names)
qed

text \<open>The oracle sees of a recovery only what it reads under the keys.\<close>

lemma checkOracle_reads:
  assumes "\<forall>k. map_get vals k = map_get vals' k"
  shows "checkOracle \<lparr>oi_crashStamp = stamp, oi_ackLog = ackLog, oi_recovery = Opened ok vals detail\<rparr>
    = checkOracle \<lparr>oi_crashStamp = stamp, oi_ackLog = ackLog, oi_recovery = Opened ok vals' detail\<rparr>"
proof -
  have "map_get vals = map_get vals'" by (rule ext) (use assms in blast)
  then show ?thesis unfolding checkOracle_def oracle_input.simps recovery_result.case by (rule arg_cong)
qed

text \<open>Two recoveries the oracle cannot tell apart.\<close>

definition seen_alike :: "recovery_result \<Rightarrow> recovery_result \<Rightarrow> bool" where
  "seen_alike r r' \<longleftrightarrow> (\<forall>stamp ackLog. checkOracle \<lparr>oi_crashStamp = stamp, oi_ackLog = ackLog, oi_recovery = r\<rparr>
     = checkOracle \<lparr>oi_crashStamp = stamp, oi_ackLog = ackLog, oi_recovery = r'\<rparr>)"

text \<open>The recovery of the file store.\<close>

lemma recovery_content:
  assumes work: "campaign_workload cwd options cas trace" and x: "CHR ''/'' \<notin> set x"
    and ready: "dir_ready (mount_root @ [''m-'' @ x]) s"
    and content: "dir_files x s = state_content cwd (co_rootDir options) cas trace state"
  shows "\<exists>r. recoverFileKv cwd (mount_dir x) s = (Inr r, s)
    \<and> seen_alike r (state_recovery cwd (co_rootDir options) cas trace state)"
proof -
  let ?c = "state_content cwd (co_rootDir options) cas trace state"
  have T: "resolve cwd (mount_dir x) = mount_root @ [''m-'' @ x]" by (rule mount_dir_resolve [OF x])
  have files: "files s (resolve cwd (mount_dir x) @ [n]) = ?c n" for n
    using fun_cong [OF content, of n] by (simp add: T)
  have "starts_char (CHR ''/'') (mount_dir x)" by (simp add: mount_dir_def MOUNT_ROOT_def starts_char_def)
  then obtain vals where vals: "recoverFileKv cwd (mount_dir x) s = (Inr (Opened True vals None), s)"
    "\<forall>name. map_get vals name = seen_value (files s) (resolve cwd (mount_dir x)) name"
    using recover_files [OF ready [folded T]] content_names(1) [OF work] files by metis
  obtain vals' where r: "state_recovery cwd (co_rootDir options) cas trace state = Opened True vals' None"
    by (simp add: state_recovery_def)
  have "map_get vals k = map_get vals' k" for k
    using vals(2) state_recovery_get(2) [OF work r] by (simp add: seen_value_def files)
  then show ?thesis using vals(1) checkOracle_reads [of vals vals'] unfolding r seen_alike_def by blast
qed

lemma store_recovers:
  assumes machine: "block_machine env options cas contents device mounted_on"
    and store: "co_recover options = (\<lambda>dir. on_fs (recoverFileKv (en_cwd env) dir))"
    and work: "campaign_workload (en_cwd env) options cas trace"
  shows "recovers_to env options cas mounted_on
     (\<lambda>content. content = state_content (en_cwd env) (co_rootDir options) cas trace state)
     (\<lambda>r. seen_alike r (state_recovery (en_cwd env) (co_rootDir options) cas trace state))"
  by (rule block_machine.file_recovery [OF machine store]) (use recovery_content [OF work] in blast)

section \<open>The campaign\<close>

text \<open>For every recovery that is a function of the files it is shown, up to what the oracle sees.\<close>

lemma campaign_verdict:
  assumes machine: "block_machine env options cas contents device mounted_on"
    and layout: "campaign_layout (en_cwd env) options cas"
    and disk: "campaign_disk (en_cwd env) options cas (wd_fs w)"
    and recovers: "\<And>state. recovers_to env options cas mounted_on
      (\<lambda>content. content = state_content (en_cwd env) (co_rootDir options) cas trace state) (\<lambda>r. seen_alike r (judged state))"
    and bounds: "fst (loadBounds boundsPath (wd_fs w)) = Inr bnds"
    and trace: "fst (read_file (resolve (en_cwd env) (co_tracePath options)) (wd_fs w)) = Inr bs"
      "result_bind (utf8_text bs) parseTrace = Inr trace"
    and work: "campaign_workload (en_cwd env) options cas trace"
  shows "\<exists>states w'. campaign_states trace (co_model options) bnds (co_seed options) = Inr states
    \<and> runCampaign env boundsPath options w =
       (Inr \<lparr>cr_crashPointsTested = length (campaign_points trace bnds (co_seed options)),
             cr_statesTested = length states,
             cr_findings = map_values (findings_of trace (parseAckLog trace) (co_imageDir options)
               (map (\<lambda>(index, state). (index, state, judged state)) (List.enumerate 0 states)))\<rparr>, w')"
proof -
  let ?log = "parseAckLog trace"
  let ?judge = "\<lambda>index state findings. tally_state trace ?log (image_path (co_imageDir options) index) state (judged state) findings"
  have step: "ends (disk_inv env options cas) (campaign_state env options trace ?log (index, state) (findings, n))
      (\<lambda>acc w. acc = (?judge index state findings, n + 1) \<and> disk_inv env options cas w)" for index state findings n
  proof (rule machine_state [OF machine layout _ recovers [of state]])
    show "tally_state trace ?log (image_path (co_imageDir options) index) state r findings = ?judge index state findings"
      if "seen_alike r (judged state)" for r
      unfolding tally_state_def Let_def using that unfolding seen_alike_def by metis
  qed (rule replay_content [OF layout work])
  have "foldl (\<lambda>findings (index, state). ?judge index state findings) m items
      = foldl (\<lambda>findings (index, state, recovery).
          tally_state trace ?log (image_path (co_imageDir options) index) state recovery findings) m
          (map (\<lambda>(index, state). (index, state, judged state)) items)" for m items
    by (induction items arbitrary: m) auto
  then show ?thesis
    using machine_campaign [OF disk bounds trace step] by (simp only: findings_of_def)
qed

lemma silent_findings:
  "map_values (findings_of trace ackLog imageDir runs) = [] \<longleftrightarrow>
     (\<forall>(index, state, recovery)\<in>set runs. state_violations trace ackLog state recovery = [])"
proof -
  have "map_values (findings_of trace ackLog imageDir runs) = [] \<longleftrightarrow>
      map si_signature (sightings trace ackLog runs) = []"
    using findings_signatures [of trace ackLog imageDir runs]
    by (metis list.map_disc_iff set_empty set_set_of_list)
  then show ?thesis by (auto simp: sightings_def state_sightings_def)
qed

lemma silent_state:
  assumes work: "campaign_workload cwd options cas trace"
  shows "state_violations trace ackLog state (state_recovery cwd (co_rootDir options) cas trace state) = [] \<longleftrightarrow>
    holds_promises (state_content cwd (co_rootDir options) cas trace state)
      (promisedBefore ackLog (crash_stamp trace state))"
proof -
  let ?promised = "promisedBefore ackLog (crash_stamp trace state)"
  obtain vals where r: "state_recovery cwd (co_rootDir options) cas trace state = Opened True vals None"
    by (simp add: state_recovery_def)
  have "state_violations trace ackLog state (Opened True vals None) = [] \<longleftrightarrow>
      (\<forall>operation\<in>set ?promised. map_get vals (ao_key operation) = Some (ao_digest operation))"
    by (cases "?promised = []")
      (auto simp: state_violations_def checkOracle_nothing_promised checkOracle_opened filter_empty_conv honoured_def)
  then show ?thesis
    unfolding r holds_promises_def state_recovery_get(2) [OF work r] by (auto split: if_splits)
qed

section \<open>A campaign in memory\<close>

lemma told_work: "campaign_workload ''/'' ram_campaign sample_cas (told_trace key)"
  using ram_paths
  by (auto simp: campaign_workload_def told_trace_def synced_trace_def trace_of_def op_event_def
      traced_file_def sample_cas_def plain_segment_def is_write_def MUTATING_def)

text \<open>At the crash point after the second write there is something to test.\<close>

lemma told_tested:
  assumes "campaign_states (told_trace key) xfs bnds seed = Inr states" "lb_maxUnpersistedWindow bnds = 8"
  shows "\<exists>state\<in>set states. cs_crashPoint state = 2"
proof -
  let ?eo = "\<lparr>eo_model = xfs,
      eo_bounds = \<lparr>tornWrites = lb_tornWrites bnds, maxUnpersistedWindow = lb_maxUnpersistedWindow bnds\<rparr>,
      eo_crashPoints = Some (campaign_points (told_trace key) bnds seed)\<rparr>"
  let ?ps = "point_states (tr_events (told_trace key)) xfs \<lparr>tornWrites = lb_tornWrites bnds, maxUnpersistedWindow = 8\<rparr> 2"
  obtain all where all: "enumerateCrashStates (told_trace key) ?eo = Inr all"
    "states = sampleStates all \<lparr>sa_maxPerCrashPoint = lb_maxStatesPerCrashPoint bnds, sa_seed = seed\<rparr>"
    using assms(1) by (cases "enumerateCrashStates (told_trace key) ?eo") (auto simp: campaign_states_def)
  have events: "tr_events (told_trace key) = tr_events synced_trace" by (simp add: told_trace_def)
  have evaluated: "map cs_crashPoint (point_states (tr_events synced_trace) xfs
      \<lparr>tornWrites = True, maxUnpersistedWindow = 8\<rparr> 2) = [2, 2]"
    "map cs_crashPoint (point_states (tr_events synced_trace) xfs
      \<lparr>tornWrites = False, maxUnpersistedWindow = 8\<rparr> 2) = [2, 2]"
    by code_simp+
  have "set (map cs_crashPoint ?ps) = {2}"
    by (cases "lb_tornWrites bnds") (simp_all only: events evaluated list.set insert_absorb2)
  then obtain s where s: "s \<in> set ?ps" "cs_crashPoint s = 2"
    by (metis (mono_tags, lifting) imageE insertI1 set_map)
  have "persistence_adjacent (tr_events (told_trace key)) 2"
    by (simp add: persistence_adjacent_def told_trace_def synced_trace_def trace_of_def op_event_def PERSISTENCE_def)
  then have "2 \<in> set (campaign_points (told_trace key) bnds seed)"
    by (simp add: campaign_points_def in_selectCrashPoints told_stamps)
  then have "s \<in> set all"
    using s by (simp add: in_enumerate [OF all(1)] crash_points_of_def assms(2))
  then have "2 \<in> set (points_of all)" using s(2) by (force simp: points_of_def)
  then have "2 \<in> set (points_of states)" unfolding all(2) points_of_sample .
  then show ?thesis by (force simp: points_of_def)
qed

section \<open>Properties\<close>

text \<open>C7: what a campaign computes. Take a block layer that behaves as documented, a campaign over the file
  store, bounds and a trace that can be read, and a workload on files of the traced directory with its
  payloads stored. Then the campaign returns, and its findings are those of a pure function: for every
  sampled state in order, the content of the state is the selected operations applied to no files, its
  recovery is the digests of the visible files, and the oracle judges that.\<close>

theorem campaign_computes_verdict:
  assumes machine: "block_machine env options cas contents device mounted_on"
    and layout: "campaign_layout (en_cwd env) options cas"
    and disk: "campaign_disk (en_cwd env) options cas (wd_fs w)"
    and store: "co_recover options = (\<lambda>dir. on_fs (recoverFileKv (en_cwd env) dir))"
    and bounds: "fst (loadBounds boundsPath (wd_fs w)) = Inr bnds"
    and trace: "fst (read_file (resolve (en_cwd env) (co_tracePath options)) (wd_fs w)) = Inr bs"
      "result_bind (utf8_text bs) parseTrace = Inr trace"
    and work: "campaign_workload (en_cwd env) options cas trace"
  shows "\<exists>states w'. campaign_states trace (co_model options) bnds (co_seed options) = Inr states
    \<and> runCampaign env boundsPath options w =
       (Inr \<lparr>cr_crashPointsTested = length (campaign_points trace bnds (co_seed options)),
             cr_statesTested = length states,
             cr_findings = map_values (findings_of trace (parseAckLog trace) (co_imageDir options)
               (map (\<lambda>(index, state). (index, state, state_recovery (en_cwd env) (co_rootDir options) cas trace state))
                 (List.enumerate 0 states)))\<rparr>, w')"
  by (rule campaign_verdict [OF machine layout disk store_recovers [OF machine store work] bounds trace work])

text \<open>An application that acknowledges a key it never wrote.\<close>

lemma gone_missing: "state_content ''/'' (co_rootDir ram_campaign) sample_cas (told_trace key) state ''gone'' = None"
proof -
  have "''gone'' \<notin> set (traced_names ''/'' (co_rootDir ram_campaign) (told_trace key))"
    by (simp add: traced_names_def told_trace_def synced_trace_def trace_of_def op_event_def ram_paths)
  then show ?thesis using content_names(2) [OF told_work] by blast
qed

lemma campaign_computes_verdict_witness:
  "\<exists>result w'. runCampaign ram_env [''b''] ram_campaign (ram_world ''gone'') = (Inr result, w') \<and> 0 < cr_statesTested result"
proof -
  obtain lb where lb: "fst (loadBounds [''b''] (wd_fs (ram_world ''gone''))) = Inr lb" "lb_maxUnpersistedWindow lb = 8"
    using ram_reads(1) by blast
  from campaign_computes_verdict [OF ram.block_machine_axioms, unfolded ram_cwd,
      OF ram_layout ram_disk ram_store lb(1) ram_reads(2) told_parse [OF plain_keys(2)] told_work]
  obtain states result w' where run: "campaign_states (told_trace ''gone'') (co_model ram_campaign) lb (co_seed ram_campaign) = Inr states"
    "runCampaign ram_env [''b''] ram_campaign (ram_world ''gone'') = (Inr result, w')" "cr_statesTested result = length states"
    by (elim exE conjE) (simp only: campaign_result.simps)
  then have "states \<noteq> []" using told_tested [of "''gone''" lb] lb(2) by (force simp: ram_campaign_def)
  with run show ?thesis by simp
qed

text \<open>C2: a campaign is silent exactly if nothing is wrong. Under the same conditions a campaign returns, and
  it reports no finding if and only if, in every sampled crash state, every operation acknowledged as
  durable before the crash has its file with the acknowledged content.\<close>

theorem campaign_silent_iff:
  assumes machine: "block_machine env options cas contents device mounted_on"
    and layout: "campaign_layout (en_cwd env) options cas"
    and disk: "campaign_disk (en_cwd env) options cas (wd_fs w)"
    and store: "co_recover options = (\<lambda>dir. on_fs (recoverFileKv (en_cwd env) dir))"
    and bounds: "fst (loadBounds boundsPath (wd_fs w)) = Inr bnds"
    and trace: "fst (read_file (resolve (en_cwd env) (co_tracePath options)) (wd_fs w)) = Inr bs"
      "result_bind (utf8_text bs) parseTrace = Inr trace"
    and work: "campaign_workload (en_cwd env) options cas trace"
  shows "\<exists>states result w'. campaign_states trace (co_model options) bnds (co_seed options) = Inr states
    \<and> runCampaign env boundsPath options w = (Inr result, w')
    \<and> (cr_findings result = [] \<longleftrightarrow>
        (\<forall>state\<in>set states. holds_promises (state_content (en_cwd env) (co_rootDir options) cas trace state)
           (promisedBefore (parseAckLog trace) (crash_stamp trace state))))"
proof -
  let ?r = "state_recovery (en_cwd env) (co_rootDir options) cas trace"
  obtain states w' where run: "campaign_states trace (co_model options) bnds (co_seed options) = Inr states"
    "runCampaign env boundsPath options w =
       (Inr \<lparr>cr_crashPointsTested = length (campaign_points trace bnds (co_seed options)),
             cr_statesTested = length states,
             cr_findings = map_values (findings_of trace (parseAckLog trace) (co_imageDir options)
               (map (\<lambda>(index, state). (index, state, ?r state)) (List.enumerate 0 states)))\<rparr>, w')"
    using campaign_verdict [OF machine layout disk store_recovers [OF machine store work] bounds trace work] by blast
  have states: "set states = snd ` set (List.enumerate 0 states)"
    by (metis map_snd_enumerate set_map)
  have "map_values (findings_of trace (parseAckLog trace) (co_imageDir options)
      (map (\<lambda>(index, state). (index, state, ?r state)) (List.enumerate 0 states))) = []
    \<longleftrightarrow> (\<forall>state\<in>set states. state_violations trace (parseAckLog trace) state (?r state) = [])"
    unfolding silent_findings states by force
  with run show ?thesis by (simp add: silent_state [OF work])
qed

lemma campaign_silent_iff_witness:
  "\<exists>result w'. runCampaign ram_env [''b''] ram_campaign (ram_world ''gone'') = (Inr result, w') \<and> cr_findings result \<noteq> []"
proof -
  obtain lb where lb: "fst (loadBounds [''b''] (wd_fs (ram_world ''gone''))) = Inr lb" "lb_maxUnpersistedWindow lb = 8"
    using ram_reads(1) by blast
  obtain states result w' where run: "campaign_states (told_trace ''gone'') (co_model ram_campaign) lb (co_seed ram_campaign) = Inr states"
    "runCampaign ram_env [''b''] ram_campaign (ram_world ''gone'') = (Inr result, w')"
    "cr_findings result = [] \<longleftrightarrow> (\<forall>state\<in>set states.
        holds_promises (state_content ''/'' (co_rootDir ram_campaign) sample_cas (told_trace ''gone'') state)
          (promisedBefore (parseAckLog (told_trace ''gone'')) (crash_stamp (told_trace ''gone'') state)))"
    using campaign_silent_iff [OF ram.block_machine_axioms, unfolded ram_cwd,
      OF ram_layout ram_disk ram_store lb(1) ram_reads(2) told_parse [OF plain_keys(2)] told_work] by blast
  obtain state where state: "state \<in> set states" "cs_crashPoint state = 2"
    using told_tested run(1) lb(2) by (force simp: ram_campaign_def)
  then have "promisedBefore (parseAckLog (told_trace ''gone'')) (crash_stamp (told_trace ''gone'') state)
      = [driver_record (told ''gone'')]"
    by (simp add: told_promise [OF plain_keys(2)] crash_stamp_def told_stamps)
  moreover have "ao_key (driver_record (told ''gone'')) = ''gone''" by (simp add: driver_record_def told_def)
  ultimately show ?thesis
    using run state(1) gone_missing by (fastforce simp: holds_promises_def)
qed

text \<open>C15: what a campaign does and reports. A campaign returns exactly if its bounds file and its trace file
  can be read and its sampled states can be tested one after the other: each is materialised into the
  image of its index, recovered by the target in the mount of that image, and the image is kept if and
  only if the recovery shows a signature that no earlier state has shown. It then leaves the machine as
  those tests do, and reports the number of selected crash points, the number of sampled states, and the
  deduplicated findings of exactly these recoveries.\<close>

theorem campaign_reports:
  "runCampaign env boundsPath options w = (Inr result, w') \<longleftrightarrow>
   (\<exists>bnds bs trace states recoveries.
      fst (loadBounds boundsPath (wd_fs w)) = Inr bnds
      \<and> fst (read_file (resolve (en_cwd env) (co_tracePath options)) (wd_fs w)) = Inr bs
      \<and> result_bind (utf8_text bs) parseTrace = Inr trace
      \<and> campaign_states trace (co_model options) bnds (co_seed options) = Inr states
      \<and> tests env options trace [] (List.enumerate 0 states) recoveries w w'
      \<and> result = \<lparr>cr_crashPointsTested = length (campaign_points trace bnds (co_seed options)),
          cr_statesTested = length states,
          cr_findings = map_values (findings_of trace (parseAckLog trace) (co_imageDir options)
            (map2 (\<lambda>(index, state) recovery. (index, state, recovery)) (List.enumerate 0 states) recoveries))\<rparr>)"
  by (rule campaign_run_iff)

text \<open>On the machine in memory, where a state is materialised, recovered and found wanting.\<close>

lemma campaign_reports_witness:
  "\<exists>states recoveries result w'.
     runCampaign ram_env [''b''] ram_campaign (ram_world ''gone'') = (Inr result, w')
     \<and> tests ram_env ram_campaign (told_trace ''gone'') [] (List.enumerate 0 states) recoveries (ram_world ''gone'') w'
     \<and> recoveries \<noteq> []"
proof -
  obtain lb where lb: "fst (loadBounds [''b''] (wd_fs (ram_world ''gone''))) = Inr lb" "lb_maxUnpersistedWindow lb = 8"
    using ram_reads(1) by blast
  from campaign_verdict [OF ram.block_machine_axioms, unfolded ram_cwd, OF ram_layout ram_disk
      store_recovers [OF ram.block_machine_axioms, unfolded ram_cwd, OF ram_store told_work] lb(1)
      ram_reads(2) told_parse [OF plain_keys(2)] told_work]
  obtain result w' where run: "runCampaign ram_env [''b''] ram_campaign (ram_world ''gone'') = (Inr result, w')"
    by blast
  then obtain bnds bs trace states recoveries where r:
    "fst (loadBounds [''b''] (wd_fs (ram_world ''gone''))) = Inr bnds"
    "fst (read_file (resolve ''/'' (co_tracePath ram_campaign)) (wd_fs (ram_world ''gone''))) = Inr bs"
    "result_bind (utf8_text bs) parseTrace = Inr trace"
    "campaign_states trace (co_model ram_campaign) bnds (co_seed ram_campaign) = Inr states"
    "tests ram_env ram_campaign trace [] (List.enumerate 0 states) recoveries (ram_world ''gone'') w'"
    unfolding campaign_reports ram_cwd by blast
  have trace: "trace = told_trace ''gone''"
    using r(2,3) ram_reads(2) told_parse [OF plain_keys(2)] by simp
  moreover have "bnds = lb" using r(1) lb(1) by simp
  ultimately have "states \<noteq> []"
    using told_tested [of "''gone''" lb] lb(2) r(4) by (force simp: ram_campaign_def)
  then have "recoveries \<noteq> []"
    using tests_length [OF r(5)] by auto
  then show ?thesis using run r(5) trace by blast
qed

end
