(* ===== verification/Query.thy ===== *)
theory Query
  imports Verdict
begin

text \<open>
  Campaigns over the targets that recover through a query tool, redb and SQLite. The tool is outside the
  repository; what the campaign relies on is that its report depends on the files of the directory it is
  pointed at, and that it leaves the mount alone. It may fail, and it may change the database it opens.
\<close>

locale query_machine = block_machine +
  fixes tool name :: string and report :: "(string \<Rightarrow> byte list option) \<Rightarrow> process"
  assumes database_name: "plain_segment name \<and> name \<noteq> ''lost+found''"
    and tool_reports: "campaign_disk (en_cwd env) options cas s \<Longrightarrow> CHR ''/'' \<notin> set x \<Longrightarrow>
      mounted_on os (mount_dir x) = Some path \<Longrightarrow> dir_files x s name \<noteq> None \<Longrightarrow>
      en_spawn env [] [tool, path_join (mount_dir x) name] (s, os) = (p, s', os') \<Longrightarrow>
      mounted_on os' = mounted_on os \<and> pr_exit p = pr_exit (report (dir_files x s))
      \<and> pr_stdout p = pr_stdout (report (dir_files x s)) \<and> pr_stderr p = pr_stderr (report (dir_files x s))"

text \<open>What a query of given files yields.\<close>

definition query_recovery ::
    "string \<Rightarrow> string \<Rightarrow> ((string \<Rightarrow> byte list option) \<Rightarrow> process) \<Rightarrow> (string \<Rightarrow> byte list option) \<Rightarrow> recovery_result" where
  "query_recovery absentDetail name report content =
     (if content name = None then Opened True map_empty (Some absentDetail) else query_result (report content))"

text \<open>Whether the database is there.\<close>

lemma exists_effect:
  assumes x: "CHR ''/'' \<notin> set x" and ready: "dir_ready (mount_root @ [''m-'' @ x]) s"
    and name: "plain_segment name" "name \<noteq> ''lost+found''"
  shows "existsSync (resolve cwd (path_join (mount_dir x) name)) s = (Inr (dir_files x s name \<noteq> None), s)"
proof -
  let ?T = "mount_root @ [''m-'' @ x]"
  have "starts_char (CHR ''/'') (mount_dir x)" by (simp add: mount_dir_def MOUNT_ROOT_def starts_char_def)
  then have path: "resolve cwd (path_join (mount_dir x) name) = ?T @ [name]"
    using resolve_join name(1) by (simp add: mount_dir_resolve [OF x])
  have "walk_error s (?T @ [name]) = None" by (rule walk_ok [OF dir_ready_below [OF ready]])
  moreover have "tree s (?T @ [name]) \<noteq> Some D" using ready name(2) by (simp add: dir_ready_def in_dir_def)
  then have "fs_lookup s (?T @ [name]) \<noteq> None \<longleftrightarrow> files s (?T @ [name]) \<noteq> None"
    by (auto simp: files_def tree_None [symmetric] split: option.splits entry.splits)
  ultimately show ?thesis by (simp add: existsSync_def path)
qed

context query_machine
begin

lemma query_recovers:
  assumes recover: "co_recover options = (\<lambda>dir. queryTarget env tool (path_join dir name) detail)"
  shows "recovers_to env options cas mounted_on (\<lambda>c. c = content) (\<lambda>r. r = query_recovery detail name report content)"
  unfolding recovers_to_def ends_def recover
proof (intro allI impI)
  fix x path c and w :: "'a world"
  assume x: "CHR ''/'' \<notin> set x" and c: "c = content"
    and "mounted_at env options cas (''m-'' @ x) w \<and> mounted_on (wd_os w) (mount_dir x) = Some path \<and> dir_files x (wd_fs w) = c"
  then have at: "disk_inv env options cas w" "dir_ready (mount_root @ [''m-'' @ x]) (wd_fs w)"
    "mounted_on (wd_os w) (mount_dir x) = Some path" "dir_files x (wd_fs w) = content"
    by (simp_all add: mounted_at_def)
  have there: "dir_files x (wd_fs w) name = content name" using fun_cong [OF at(4), of name] .
  let ?command = "[tool, path_join (mount_dir x) name]"
  have "existsSync (resolve (en_cwd env) (path_join (mount_dir x) name)) (wd_fs w) = (Inr (dir_files x (wd_fs w) name \<noteq> None), wd_fs w)"
    by (rule exists_effect [OF x at(2)]) (use database_name in blast)+
  then have exists: "on_fs (existsSync (resolve (en_cwd env) (path_join (mount_dir x) name))) w = (Inr (content name \<noteq> None), w)"
    unfolding there by (simp add: on_fs_def)
  show "\<exists>r w'. queryTarget env tool (path_join (mount_dir x) name) detail w = (Inr r, w')
      \<and> disk_inv env options cas w' \<and> mounted_on (wd_os w') (mount_dir x) = Some path
      \<and> r = query_recovery detail name report content"
  proof (cases "content name = None")
    case True
    then show ?thesis
      using exists at(1,3) by (simp add: queryTarget_def io_bind_def io_return_def query_recovery_def)
  next
    case False
    obtain p s os where p: "en_spawn env [] ?command (wd_fs w, wd_os w) = (p, s, os)" by (metis prod_cases3)
    have disk: "campaign_disk (en_cwd env) options cas s"
      using working at(1) p unfolding working_machine_def by blast
    have "mounted_on os = mounted_on (wd_os w) \<and> pr_exit p = pr_exit (report content)
        \<and> pr_stdout p = pr_stdout (report content) \<and> pr_stderr p = pr_stderr (report content)"
      using tool_reports [OF at(1) x at(3) _ p] False unfolding there at(4) by blast
    then have "query_result p = query_result (report content)" "mounted_on os (mount_dir x) = Some path"
      using at(3) by (simp_all add: query_result_def Let_def)
    then show ?thesis
      using exists False disk p
      by (auto simp: queryTarget_def io_bind_def io_return_def spawnSync_def spawn_with_def query_recovery_def)
  qed
qed

end

text \<open>C8: the campaign over a target with a query tool, the configuration of the driver. Take a block layer
  and a query tool that behave as documented, bounds and a trace that can be read, and a workload on
  files of the traced directory with its payloads stored. Then the campaign returns, tests every sampled
  state, and its findings are a pure function: the tool's report on the content of each state, or the
  empty database where the state has no database file, judged by the oracle.\<close>

theorem campaign_query_verdict:
  assumes machine: "query_machine env options cas contents device mounted_on tool name report"
    and layout: "campaign_layout (en_cwd env) options cas"
    and disk: "campaign_disk (en_cwd env) options cas (wd_fs w)"
    and recover: "co_recover options = (\<lambda>dir. queryTarget env tool (path_join dir name) detail)"
    and bounds: "fst (loadBounds boundsPath (wd_fs w)) = Inr bnds"
    and trace: "fst (read_file (resolve (en_cwd env) (co_tracePath options)) (wd_fs w)) = Inr bs"
      "result_bind (utf8_text bs) parseTrace = Inr trace"
    and work: "campaign_workload (en_cwd env) options cas trace"
  shows "\<exists>states w'. campaign_states trace (co_model options) bnds (co_seed options) = Inr states
    \<and> runCampaign env boundsPath options w =
       (Inr \<lparr>cr_crashPointsTested = length (campaign_points trace bnds (co_seed options)),
             cr_statesTested = length states,
             cr_findings = map_values (findings_of trace (parseAckLog trace) (co_imageDir options)
               (map (\<lambda>(index, state). (index, state, query_recovery detail name report
                   (state_content (en_cwd env) (co_rootDir options) cas trace state)))
                 (List.enumerate 0 states)))\<rparr>, w')"
proof (rule campaign_verdict [OF query_machine.axioms(1) [OF machine] layout disk _ bounds trace work])
  show "recovers_to env options cas mounted_on
      (\<lambda>content. content = state_content (en_cwd env) (co_rootDir options) cas trace state)
      (\<lambda>r. seen_alike r (query_recovery detail name report (state_content (en_cwd env) (co_rootDir options) cas trace state)))"
    for state
    using query_machine.query_recovers [OF machine recover] unfolding recovers_to_def ends_def seen_alike_def by metis
qed

text \<open>The query tool of the machine in memory, on the database \<open>/d/log\<close>.\<close>

definition ram_query_campaign :: "ram campaign_options" where
  "ram_query_campaign = ram_campaign\<lparr>co_recover := (\<lambda>dir. recoverRedb ram_env (path_join dir ''log''))\<rparr>"

lemma query_campaign:
  "campaign_layout ''/'' ram_query_campaign = campaign_layout ''/'' ram_campaign"
  "campaign_disk ''/'' ram_query_campaign = campaign_disk ''/'' ram_campaign"
  "campaign_workload ''/'' ram_query_campaign = campaign_workload ''/'' ram_campaign"
  by (intro ext; simp add: campaign_layout_def campaign_disk_def campaign_workload_def image_file_def payload_path_def
      ram_query_campaign_def)+

interpretation ram_query: query_machine ram_env ram_query_campaign sample_cas ram_contents ram_device ram_mount
  "redbBinary ''redb-query''" "''log''" "\<lambda>content. ram_report (content ''log'')"
proof (intro query_machine.intro query_machine_axioms.intro)
  show "block_machine ram_env ram_query_campaign sample_cas ram_contents ram_device ram_mount"
    by (rule ram_machine) (simp add: query_campaign ram_layout)
  show "plain_segment ''log'' \<and> ''log'' \<noteq> ''lost+found''" by (simp add: plain_segment_def)
next
  fix s x os path p s' os'
  assume x: "CHR ''/'' \<notin> set x"
    and spawn: "en_spawn ram_env [] [redbBinary ''redb-query'', path_join (mount_dir x) ''log''] (s, os) = (p, s', os')"
  have "starts_char (CHR ''/'') (mount_dir x)" by (simp add: mount_dir_def MOUNT_ROOT_def starts_char_def)
  then have "resolve ''/'' (path_join (mount_dir x) ''log'') = mount_root @ [''m-'' @ x, ''log'']"
    using resolve_join [of "mount_dir x" "''log''" "''/''"] by (simp add: mount_dir_resolve [OF x] plain_segment_def)
  then show "ram_mount os' = ram_mount os
      \<and> pr_exit p = pr_exit (ram_report (dir_files x s ''log''))
      \<and> pr_stdout p = pr_stdout (ram_report (dir_files x s ''log''))
      \<and> pr_stderr p = pr_stderr (ram_report (dir_files x s ''log''))"
    using spawn by (auto simp: ram_env_def ram_spawn_def Let_def redbBinary_query)
qed

lemma campaign_query_verdict_witness:
  "\<exists>result w'. runCampaign ram_env [''b''] ram_query_campaign (ram_world ''log'') = (Inr result, w')
     \<and> 0 < cr_statesTested result"
proof -
  obtain lb where lb: "fst (loadBounds [''b''] (wd_fs (ram_world ''log''))) = Inr lb" "lb_maxUnpersistedWindow lb = 8"
    using ram_reads(1) by blast
  have recover: "co_recover ram_query_campaign = (\<lambda>dir. queryTarget ram_env (redbBinary ''redb-query'') (path_join dir ''log'')
      ''database file absent at this crash point'')"
    by (simp add: ram_query_campaign_def recoverRedb_def)
  have same: "co_tracePath ram_query_campaign = co_tracePath ram_campaign" "co_model ram_query_campaign = xfs"
    by (simp_all add: ram_query_campaign_def ram_campaign_def)
  from campaign_query_verdict [OF ram_query.query_machine_axioms, unfolded ram_cwd query_campaign same,
      OF ram_layout ram_disk recover lb(1) ram_reads(2) told_parse [OF plain_keys(1)] told_work]
  obtain states result w' where run: "campaign_states (told_trace ''log'') xfs lb (co_seed ram_query_campaign) = Inr states"
    "runCampaign ram_env [''b''] ram_query_campaign (ram_world ''log'') = (Inr result, w')" "cr_statesTested result = length states"
    by (elim exE conjE) (simp only: campaign_result.simps)
  then have "states \<noteq> []" using told_tested [of "''log''" lb] lb(2) by force
  with run show ?thesis by simp
qed

end
