(* ===== verification/Careful.thy ===== *)
theory Careful
  imports Verdict
begin

text \<open>
  The whole pipeline on an application that keeps its promises: over a block layer that behaves as
  documented, a campaign over the file store returns, and reports nothing.
\<close>

section \<open>Promises, without the mount point\<close>

text \<open>
  Operations on files of the traced directory, no renames, one spelling per path, and every recorded path
  inside the traced directory.
\<close>

definition careful_workload :: "string \<Rightarrow> 'o campaign_options \<Rightarrow> (string \<Rightarrow> byte list option) \<Rightarrow> trace \<Rightarrow> bool" where
  "careful_workload cwd options cas trace \<longleftrightarrow>
     campaign_workload cwd options cas trace
     \<and> (\<forall>event\<in>set (tr_events trace). ev_call event \<noteq> CRename
        \<and> prefix (resolve cwd (co_rootDir options)) (resolve cwd (ev_path event))
        \<and> (\<forall>other\<in>set (tr_events trace). resolve cwd (ev_path event) = resolve cwd (ev_path other)
             \<longrightarrow> ev_path event = ev_path other))"

text \<open>A promise that was kept: the file was synced with the acknowledged content and not touched again.\<close>

definition synced_promise ::
    "string \<Rightarrow> 'o campaign_options \<Rightarrow> (string \<Rightarrow> byte list option) \<Rightarrow> trace_event list \<Rightarrow> nat \<Rightarrow> acked_operation \<Rightarrow> bool" where
  "synced_promise cwd options cas events cp operation \<longleftrightarrow> \<not> hidden_name (ao_key operation)
     \<and> (\<exists>i\<le>cp. ev_call (events ! i) \<in> PERSISTENCE \<and> 0 \<le> ev_returnValue (events ! i)
          \<and> resolve cwd (ev_path (events ! i)) = resolve cwd (co_rootDir options) @ [ao_key operation]
          \<and> (\<forall>j. i < j \<and> j \<le> cp \<and> ev_call (events ! j) \<in> MUTATING \<longrightarrow> ev_path (events ! j) \<noteq> ev_path (events ! i))
          \<and> map_option sha256 (content_after cas
               (filter (\<lambda>event. ev_call event \<in> MUTATING \<and> ev_path event = ev_path (events ! i)) (take i events)) None)
            = Some (ao_digest operation))"

lemma rebase_inside:
  assumes "resolve cwd path = resolve cwd (co_rootDir options) @ r"
  shows "rebase cwd path (target_options options dir) = resolve cwd dir @ r"
proof -
  have "plain (resolve cwd path)" by (rule plain_resolve)
  then have "plain r" by (simp add: assms plain_def)
  then show ?thesis
    by (simp add: rebase_def target_options_def relative_inside [OF assms] norm_from_plain)
qed

lemma careful_simple:
  assumes "careful_workload cwd options cas trace" "CHR ''/'' \<notin> set x"
  shows "simple_workload cwd (target_options options (mount_dir x)) cas (tr_events trace)"
proof -
  have one: "ev_path e = ev_path e'" if in_trace: "e \<in> set (tr_events trace)" "e' \<in> set (tr_events trace)"
    and same:
    "rebase cwd (ev_path e) (target_options options (mount_dir x)) = rebase cwd (ev_path e') (target_options options (mount_dir x))"
    for e e'
  proof -
    obtain r r' where r: "resolve cwd (ev_path e) = resolve cwd (co_rootDir options) @ r"
      "resolve cwd (ev_path e') = resolve cwd (co_rootDir options) @ r'"
      using assms(1) in_trace unfolding careful_workload_def prefix_def by blast
    then have "r = r'" using same by (simp add: rebase_inside)
    then show ?thesis using assms(1) in_trace r unfolding careful_workload_def by simp
  qed
  have "campaign_workload cwd options cas trace" using assms(1) by (simp add: careful_workload_def)
  then have "flat_event cwd (target_options options (mount_dir x)) cas e" if "e \<in> set (tr_events trace)" for e
    using workload_flat assms(2) that by blast
  then show ?thesis
    using one assms(1) nth_mem unfolding simple_workload_def careful_workload_def by metis
qed

lemma synced_kept:
  assumes "synced_promise cwd options cas events cp operation"
  shows "kept_promise cwd (target_options options dir) cas events cp operation"
proof -
  have dir: "resolve cwd (ro_targetDir (target_options options dir)) = resolve cwd dir"
    by (simp add: target_options_def)
  have place: "rebase cwd (ev_path (events ! i)) (target_options options dir) = resolve cwd dir @ [ao_key operation]"
    if "resolve cwd (ev_path (events ! i)) = resolve cwd (co_rootDir options) @ [ao_key operation]" for i
    using that by (rule rebase_inside)
  show ?thesis
    using assms place unfolding synced_promise_def kept_promise_def dir by blast
qed

section \<open>One state\<close>

text \<open>What a filled image holds: plainly named files, and every promise.\<close>

definition careful_content :: "acked_operation list \<Rightarrow> (string \<Rightarrow> byte list option) \<Rightarrow> bool" where
  "careful_content promised content \<longleftrightarrow> (\<forall>n. content n \<noteq> None \<longrightarrow> plain_segment n) \<and> holds_promises content promised"

lemma careful_replay:
  assumes layout: "campaign_layout cwd options cas"
    and work: "careful_workload cwd options cas trace"
    and states: "enumerateCrashStates trace eo = Inr states" "state \<in> set states"
    and window: "0 < maxUnpersistedWindow (eo_bounds eo)" "maxUnpersistedWindow (eo_bounds eo) \<le> 30"
    and kept: "\<forall>operation\<in>set promised. synced_promise cwd options cas (tr_events trace) (cs_crashPoint state) operation"
    and x: "CHR ''/'' \<notin> set x" and disk: "campaign_disk cwd options cas s"
    and ready: "dir_ready (mount_root @ [''m-'' @ x]) s" and empty: "dir_files x s = (\<lambda>_. None)"
  shows "\<exists>y t. replaySelection cwd trace (target_options options (mount_dir x)) (selection_of state) s = (Inr y, t)
    \<and> campaign_disk cwd options cas t \<and> careful_content promised (dir_files x t)"
proof -
  let ?ro = "target_options options (mount_dir x)" and ?T = "mount_root @ [''m-'' @ x]"
  have T: "resolve cwd (ro_targetDir ?ro) = ?T"
    by (simp add: target_options_def mount_dir_resolve [OF x])
  have none: "\<forall>n. files s (resolve cwd (ro_targetDir ?ro) @ [n]) = None"
    using fun_cong [OF empty] by (simp add: T)
  have "\<forall>operation\<in>set promised. kept_promise cwd ?ro cas (tr_events trace) (cs_crashPoint state) operation"
    using kept synced_kept by blast
  from replay_holds_promises [OF states window careful_simple [OF work x] mounted_replay_ready [OF disk ready layout x] none this]
  obtain t where t: "replaySelection cwd trace ?ro (selection_of state) s = (Inr (), t)" "replay_inv cwd ?ro cas t"
    "\<forall>p. \<not> in_dir ?T p \<and> \<not> prefix p ?T \<longrightarrow> tree t p = tree s p" "careful_content promised (dir_files x t)"
    unfolding T append_assoc append_Cons append_Nil careful_content_def by blast
  have "dir_ready ?T t" using t(2) unfolding replay_inv_def T by blast
  then have "campaign_disk cwd options cas t" using replayed_disk [OF disk layout _ t(3)] by blast
  with t(1,4) show ?thesis by blast
qed

lemma careful_recovery:
  assumes good: "careful_content (promisedBefore ackLog stamp) (dir_files x s)" and x: "CHR ''/'' \<notin> set x"
    and ready: "dir_ready (mount_root @ [''m-'' @ x]) s"
  shows "\<exists>r. recoverFileKv cwd (mount_dir x) s = (Inr r, s)
    \<and> checkOracle \<lparr>oi_crashStamp = stamp, oi_ackLog = ackLog, oi_recovery = r\<rparr> = []"
proof (rule recovery_satisfies_oracle)
  show "starts_char (CHR ''/'') (mount_dir x)" by (simp add: mount_dir_def MOUNT_ROOT_def starts_char_def)
  show "dir_ready (resolve cwd (mount_dir x)) s" using ready by (simp add: mount_dir_resolve [OF x])
  show "\<forall>n. files s (resolve cwd (mount_dir x) @ [n]) \<noteq> None \<longrightarrow> plain_segment n"
    "holds_promises (\<lambda>n. files s (resolve cwd (mount_dir x) @ [n])) (promisedBefore ackLog stamp)"
    using good by (simp_all add: careful_content_def mount_dir_resolve [OF x])
qed

section \<open>The campaign\<close>

text \<open>C4: no false alarm, end to end. Over a block layer that behaves as documented, a campaign over the file
  store returns, with every sampled state made into an image, mounted, recovered and judged, and it
  reports nothing, provided the application kept its promises: at every tested crash point, each
  operation acknowledged as durable before it had its file synced with the acknowledged content and not
  touched again.\<close>

theorem careful_campaign_clean:
  assumes machine: "block_machine env options cas contents device mounted_on"
    and layout: "campaign_layout (en_cwd env) options cas"
    and disk: "campaign_disk (en_cwd env) options cas (wd_fs w)"
    and store: "co_recover options = (\<lambda>dir. on_fs (recoverFileKv (en_cwd env) dir))"
    and bounds: "fst (loadBounds boundsPath (wd_fs w)) = Inr bnds"
      "0 < lb_maxUnpersistedWindow bnds" "lb_maxUnpersistedWindow bnds \<le> 30"
    and trace: "fst (read_file (resolve (en_cwd env) (co_tracePath options)) (wd_fs w)) = Inr bs"
      "result_bind (utf8_text bs) parseTrace = Inr trace"
    and work: "careful_workload (en_cwd env) options cas trace"
    and kept: "\<forall>cp\<in>set (campaign_points trace bnds (co_seed options)).
      \<forall>operation\<in>set (promisedBefore (parseAckLog trace) (ev_index (tr_events trace ! cp))).
        synced_promise (en_cwd env) options cas (tr_events trace) cp operation"
  shows "\<exists>states w'. campaign_states trace (co_model options) bnds (co_seed options) = Inr states
    \<and> runCampaign env boundsPath options w =
       (Inr \<lparr>cr_crashPointsTested = length (campaign_points trace bnds (co_seed options)),
             cr_statesTested = length states, cr_findings = []\<rparr>, w')"
proof -
  let ?cwd = "en_cwd env" and ?log = "parseAckLog trace"
  have step: "ends (disk_inv env options cas) (campaign_state env options trace ?log (index, state) (findings, n))
      (\<lambda>acc w. acc = (findings, n + 1) \<and> disk_inv env options cas w)"
    if all: "enumerateCrashStates trace \<lparr>eo_model = co_model options,
         eo_bounds = \<lparr>tornWrites = lb_tornWrites bnds, maxUnpersistedWindow = lb_maxUnpersistedWindow bnds\<rparr>,
         eo_crashPoints = Some (campaign_points trace bnds (co_seed options))\<rparr> = Inr all" "state \<in> set all"
    for all index state findings n
  proof (rule machine_state [OF machine layout, where
        good = "careful_content (promisedBefore ?log (crash_stamp trace state))"
        and verdict = "\<lambda>r. checkOracle \<lparr>oi_crashStamp = crash_stamp trace state, oi_ackLog = ?log, oi_recovery = r\<rparr> = []"])
    show "recovers_to env options cas mounted_on (careful_content (promisedBefore ?log (crash_stamp trace state)))
        (\<lambda>r. checkOracle \<lparr>oi_crashStamp = crash_stamp trace state, oi_ackLog = ?log, oi_recovery = r\<rparr> = [])"
      by (rule block_machine.file_recovery [OF machine store]) (use careful_recovery in blast)
    have "cs_crashPoint state \<in> set (campaign_points trace bnds (co_seed options))"
      "cs_crashPoint state < length (tr_events trace)"
      using in_enumerate [OF all(1)] all by (auto simp: enumerate_Inr_iff crash_points_of_def)
    then have promises: "\<forall>operation\<in>set (promisedBefore ?log (crash_stamp trace state)).
        synced_promise ?cwd options cas (tr_events trace) (cs_crashPoint state) operation"
      using kept by (simp add: crash_stamp_def)
    show "\<exists>y t. replaySelection ?cwd trace (target_options options (mount_dir x)) (selection_of state) s = (Inr y, t)
        \<and> campaign_disk ?cwd options cas t \<and> careful_content (promisedBefore ?log (crash_stamp trace state)) (dir_files x t)"
      if "CHR ''/'' \<notin> set x" "campaign_disk ?cwd options cas s" "dir_ready (mount_root @ [''m-'' @ x]) s"
        "dir_files x s = (\<lambda>_. None)" for x s
      by (rule careful_replay [OF layout work all _ _ promises that]) (use bounds in simp_all)
  qed (simp_all add: tally_state_def Let_def)
  have "foldl (\<lambda>findings (index, state). findings) m items = m" for m :: "(string, finding) js_map" and items :: "(nat \<times> crash_state) list"
    by (induction items) auto
  then show ?thesis
    using machine_campaign [OF disk bounds(1) trace, where judge = "\<lambda>_ _ findings. findings"] step
    by (simp add: map_values_def map_empty_def)
qed

lemma careful_trace_work: "careful_workload ''/'' ram_campaign sample_cas (told_trace key)"
  using told_work ram_paths
  by (auto simp: careful_workload_def told_trace_def synced_trace_def trace_of_def op_event_def)

lemma careful_trace_promise:
  "synced_promise ''/'' ram_campaign sample_cas (tr_events (told_trace key)) 2 (driver_record (told ''log''))"
proof -
  let ?e = "tr_events (told_trace key)" and ?op = "driver_record (told ''log'')"
  have e: "?e = [(op_event CPwrite ''/d/log'' 1 2 3 3)\<lparr>ev_digest := ''h''\<rparr>,
      op_event CFsync ''/d/log'' 3 (-1) 0 0, (op_event CPwrite ''/d/aux'' 5 0 3 3)\<lparr>ev_digest := ''h''\<rparr>]"
    by (simp add: told_trace_def synced_trace_def trace_of_def)
  have key: "ao_key ?op = ''log''" "ao_digest ?op = sha256 [0, 0, 1, 2, 3]"
    by (simp_all add: driver_record_def told_def)
  have "\<not> hidden_name ''log''" by code_simp
  moreover have "content_after sample_cas
      (filter (\<lambda>event. ev_call event \<in> MUTATING \<and> ev_path event = ev_path (?e ! 1)) (take 1 ?e)) None
      = Some [0, 0, 1, 2, 3]"
    unfolding sample_cas_def e by code_simp
  moreover have "\<forall>j. 1 < j \<and> j \<le> 2 \<and> ev_call (?e ! j) \<in> MUTATING \<longrightarrow> ev_path (?e ! j) \<noteq> ev_path (?e ! 1)"
    by (auto simp: e le_Suc_eq numeral_2_eq_2 op_event_def)
  moreover have "ev_call (?e ! 1) \<in> PERSISTENCE" "0 \<le> ev_returnValue (?e ! 1)" "ev_path (?e ! 1) = ''/d/log''"
    by (simp_all add: e op_event_def PERSISTENCE_def)
  ultimately show ?thesis
    unfolding synced_promise_def key
    by (intro conjI exI [of _ 1]) (simp_all add: ram_paths)
qed

lemma careful_campaign_clean_witness:
  "\<exists>result w'. runCampaign ram_env [''b''] ram_campaign (ram_world ''log'') = (Inr result, w')
     \<and> cr_findings result = [] \<and> 0 < cr_statesTested result"
proof -
  obtain lb where lb: "fst (loadBounds [''b''] (wd_fs (ram_world ''log''))) = Inr lb" "lb_maxUnpersistedWindow lb = 8"
    using ram_reads(1) by blast
  have kept: "\<forall>operation\<in>set (promisedBefore (parseAckLog (told_trace ''log'')) (ev_index (tr_events (told_trace ''log'') ! cp))).
      synced_promise ''/'' ram_campaign sample_cas (tr_events (told_trace ''log'')) cp operation"
    if point: "cp \<in> set (campaign_points (told_trace ''log'') lb (co_seed ram_campaign))" for cp
  proof -
    have "cp < 3"
      using point by (simp add: campaign_points_def in_selectCrashPoints told_stamps)
    then have "cp = 0 \<or> cp = 1 \<or> cp = 2" by auto
    then show ?thesis
      using careful_trace_promise told_stamps by (auto simp: told_promise [OF plain_keys(1)])
  qed
  obtain states w' where run: "campaign_states (told_trace ''log'') (co_model ram_campaign) lb (co_seed ram_campaign) = Inr states"
    "runCampaign ram_env [''b''] ram_campaign (ram_world ''log'') =
       (Inr \<lparr>cr_crashPointsTested = length (campaign_points (told_trace ''log'') lb (co_seed ram_campaign)),
             cr_statesTested = length states, cr_findings = []\<rparr>, w')"
    using careful_campaign_clean [OF ram.block_machine_axioms, unfolded ram_cwd, OF ram_layout ram_disk ram_store lb(1) _ _
        ram_reads(2) told_parse [OF plain_keys(1)] careful_trace_work] kept lb(2)
    by auto
  have "states \<noteq> []" using told_tested [of "''log''" lb] run(1) lb(2) by (force simp: ram_campaign_def)
  then show ?thesis using run(2) by simp
qed

end
