(* ===== verification/Detect.thy ===== *)
theory Detect
  imports Verdict
begin

text \<open>
  What a campaign is sure to find. Enumeration and sampling leave out most combinations of operations, but
  at every selected crash point two states are always tested, whatever the caps and the seed: the one with
  only what is certainly durable, and the one with everything issued. A promise whose file is not among
  the durable operations is therefore reported by every campaign over a reordering model.
\<close>

section \<open>The extreme states of a crash point\<close>

definition durable_state :: "trace_event list \<Rightarrow> bounds \<Rightarrow> nat \<Rightarrow> crash_state" where
  "durable_state events bnds cp = \<lparr>cs_crashPoint = cp, cs_persisted = alwaysPresent events bnds cp, cs_partial = []\<rparr>"

definition complete_state :: "trace_event list \<Rightarrow> bounds \<Rightarrow> nat \<Rightarrow> crash_state" where
  "complete_state events bnds cp = \<lparr>cs_crashPoint = cp, cs_persisted = issued_ops events bnds cp, cs_partial = []\<rparr>"

text \<open>The durable operations can exist on disk by themselves: what created a file is older than its truncation.\<close>

lemma floor_materializable: "materializable events (floor_set events w cp)"
  unfolding materializable_def
proof (intro ballI impI)
  fix i assume i: "i \<in> floor_set events w cp" and "\<exists>j. creates events i j"
  then obtain j where j: "creates events i j" by blast
  have issued: "i \<in> issued_set events cp" and old: "i \<notin> window_set events w cp"
    using i by (simp_all add: floor_set_def)
  show "\<exists>j\<in>floor_set events w cp. creates events i j"
  proof (cases "i \<in> pinned_set events cp")
    case True
    then have "j \<in> pinned_set events cp"
      using j by (fastforce simp: pinned_set_def creates_def returned_mutation_def pins_def)
    then show ?thesis using j pinned_in_floor by blast
  next
    case False
    then have free: "i \<in> free_set events cp"
      using issued by (auto simp: issued_set_def free_set_def)
    have "j \<in> issued_set events cp"
      using j free by (auto simp: issued_set_def free_set_def creates_def)
    moreover have "{k \<in> free_set events cp. i < k} \<subseteq> {k \<in> free_set events cp. j < k}"
      using j by (auto simp: creates_def)
    then have "card {k \<in> free_set events cp. i < k} \<le> card {k \<in> free_set events cp. j < k}"
      by (intro card_mono) simp_all
    then have "j \<notin> window_set events w cp"
      using old free by (auto simp: window_set_def)
    ultimately show ?thesis using j by (auto simp: floor_set_def)
  qed
qed

context window_bounds
begin

text \<open>Mask zero selects nothing and the last mask everything.\<close>

lemma first_mask: "mask_persisted (alwaysPresent events bnds cp) (window_ops events bnds cp) 0 = alwaysPresent events bnds cp"
proof -
  have "mask_subset (window_ops events bnds cp) 0 = {}" by (simp add: mask_subset_def)
  then show ?thesis by (simp add: mask_persisted_list sorted_list_of_set.idem_if_sorted_distinct)
qed

lemma last_mask:
  "mask_persisted (alwaysPresent events bnds cp) (window_ops events bnds cp) (2 ^ length (window_ops events bnds cp) - 1)
   = issued_ops events bnds cp"
proof -
  let ?w = "window_ops events bnds cp"
  have bits: "bit (2 ^ n - 1 :: nat) b \<longleftrightarrow> b < n" for n b
    using bit_mask_iff [where 'a = nat, of n b] unfolding mask_eq_exp_minus_1 by simp
  have "mask_subset ?w (2 ^ length ?w - 1) = set ?w"
    unfolding mask_subset_def bits by (auto simp: in_set_conv_nth)
  then show ?thesis
    using always_union_window [OF window_pos, of events cp]
    by (simp add: mask_persisted_list issued_ops_list [OF window_pos])
qed

lemma issued_materializable: "materializable events (set (issued_ops events bnds cp))"
  by (rule downward_closed_materializable [of _ events cp]) (simp_all add: issued_ops_list [OF window_pos])

lemma reordering_extremes:
  "hd (reordering_states events bnds cp) = durable_state events bnds cp"
  "last (reordering_states events bnds cp) = complete_state events bnds cp"
  "reordering_states events bnds cp \<noteq> []"
proof -
  let ?w = "window_ops events bnds cp" and ?a = "alwaysPresent events bnds cp"
  let ?f = "mask_states events bnds cp ?a ?w" and ?n = "2 ^ length ?w :: nat"
  have states: "reordering_states events bnds cp = concat (map ?f [0..<?n])"
    by (simp add: reordering_states_eq Let_def mask_count)
  obtain rest where first: "?f 0 = durable_state events bnds cp # rest"
    using floor_materializable [of events "nat (maxUnpersistedWindow bnds)" cp]
    by (simp add: mask_states_def Let_def first_mask existsOnDisk_iff always_floor durable_state_def)
  have "op \<in> set (issued_ops events bnds cp)" if "op \<in> set ?w" for op
    using that by (simp add: issued_ops_eq)
  then have "torn_states events cp ?w (issued_ops events bnds cp) = []"
    by (simp add: torn_states_def)
  then have last: "?f (?n - 1) = [complete_state events bnds cp]"
    using issued_materializable last_mask
    by (simp add: mask_states_def Let_def existsOnDisk_iff complete_state_def)
  have "[0..<?n] = 0 # [1..<?n]" by (simp add: upt_conv_Cons)
  then show "hd (reordering_states events bnds cp) = durable_state events bnds cp"
    "reordering_states events bnds cp \<noteq> []"
    by (simp_all add: states first)
  have "[0..<?n] = [0..<?n - 1] @ [?n - 1]"
    by (metis Suc_diff_1 upt_Suc_append zero_le zero_less_numeral zero_less_power)
  then show "last (reordering_states events bnds cp) = complete_state events bnds cp"
    using last by (simp add: states)
qed

end

text \<open>Under a total order the last state is the complete one, and the first is the durable one if nothing is durable.\<close>

lemma total_order_extremes:
  assumes "0 < maxUnpersistedWindow bnds"
  shows "last (total_order_states events bnds cp) = complete_state events bnds cp" "total_order_states events bnds cp \<noteq> []"
    and "alwaysPresent events bnds cp = [] \<Longrightarrow> hd (total_order_states events bnds cp) = durable_state events bnds cp"
proof -
  let ?xs = "issued_ops events bnds cp" and ?a = "alwaysPresent events bnds cp"
  define f where "f n = (if list_all (\<lambda>index. index \<in> set (take n ?xs)) ?a
      then [\<lparr>cs_crashPoint = cp, cs_persisted = take n ?xs, cs_partial = []\<rparr>] else [])" for n
  have states: "total_order_states events bnds cp = concat (map f [0..<Suc (length ?xs)])"
    by (simp add: total_order_states_eq Let_def f_def [abs_def])
  have "f (length ?xs) = [complete_state events bnds cp]"
    by (simp add: f_def complete_state_def list_all_iff issued_ops_eq)
  then show "last (total_order_states events bnds cp) = complete_state events bnds cp" "total_order_states events bnds cp \<noteq> []"
    by (simp_all add: states)
  assume "?a = []"
  moreover from this have "f 0 = [durable_state events bnds cp]" by (simp add: f_def durable_state_def)
  moreover have "[0..<Suc (length ?xs)] = 0 # [1..<Suc (length ?xs)]" by (simp add: upt_conv_Cons del: upt_Suc)
  ultimately show "hd (total_order_states events bnds cp) = durable_state events bnds cp"
    by (simp only: states list.map concat.simps append.simps list.sel)
qed

lemma point_extremes:
  assumes "0 < maxUnpersistedWindow bnds" "maxUnpersistedWindow bnds \<le> 30"
  shows "last (point_states events model bnds cp) = complete_state events bnds cp" "point_states events model bnds cp \<noteq> []"
    and "totalOrder model \<longrightarrow> floor_set events (nat (maxUnpersistedWindow bnds)) cp = {} \<Longrightarrow>
      hd (point_states events model bnds cp) = durable_state events bnds cp"
  using total_order_extremes [OF assms(1), of events cp] alwaysPresent_floor [OF assms(1), of events cp]
    window_bounds.reordering_extremes [OF window_bounds.intro [OF assms], of events cp]
  by (auto simp: point_states_def)

section \<open>They are always sampled\<close>

lemma filter_concat_own:
  assumes "distinct cs" "\<And>d x. x \<in> set (g d) \<Longrightarrow> key x = d"
  shows "filter (\<lambda>x. key x = c) (concat (map g cs)) = (if c \<in> set cs then g c else [])"
proof -
  have own: "filter (\<lambda>x. key x = c) (g d) = (if d = c then g c else [])" for d
    using assms(2) [of _ d] by (auto simp: filter_id_conv filter_empty_conv)
  show ?thesis using assms(1) by (induction cs) (auto simp: own)
qed

lemma campaign_extremes:
  assumes states: "campaign_states trace model bnds seed = Inr states"
    and cp: "cp \<in> set (campaign_points trace bnds seed)"
    and window: "0 < lb_maxUnpersistedWindow bnds" "lb_maxUnpersistedWindow bnds \<le> 30"
  defines "eb \<equiv> \<lparr>tornWrites = lb_tornWrites bnds, maxUnpersistedWindow = lb_maxUnpersistedWindow bnds\<rparr>"
  shows "complete_state (tr_events trace) eb cp \<in> set states"
    and "totalOrder model \<longrightarrow> floor_set (tr_events trace) (nat (lb_maxUnpersistedWindow bnds)) cp = {} \<Longrightarrow>
      durable_state (tr_events trace) eb cp \<in> set states"
proof -
  let ?so = "\<lparr>sa_maxPerCrashPoint = lb_maxStatesPerCrashPoint bnds, sa_seed = seed\<rparr>"
  let ?ps = "point_states (tr_events trace) model eb cp"
  let ?all = "concat (map (point_states (tr_events trace) model eb) (campaign_points trace bnds seed))"
  note extremes = point_extremes [where bnds = eb and events = "tr_events trace" and model = model and cp = cp]
  have window: "0 < maxUnpersistedWindow eb" "maxUnpersistedWindow eb \<le> 30" using window by (simp_all add: eb_def)
  have states: "states = sampleStates ?all ?so"
    using states by (auto simp: campaign_states_def eb_def enumerate_cases crash_points_of_def split: if_splits)
  have "distinct (campaign_points trace bnds seed)"
    by (simp add: campaign_points_def distinct_selectCrashPoints)
  then have grp: "filter (\<lambda>s. cs_crashPoint s = cp) ?all = ?ps"
    using cp by (subst filter_concat_own) (simp_all add: point_states_crashPoint)
  then have "cp \<in> set (points_of ?all)" using extremes(2) window by (simp add: points_of_nonempty)
  then have "filter (\<lambda>s. cs_crashPoint s = cp) states = sample_group ?so cp ?ps"
    by (simp add: states filter_sampleStates grp)
  moreover note hd_last_sample_group [of ?ps ?so cp, OF extremes(2) [OF window]]
  ultimately have "hd ?ps \<in> set states" "last ?ps \<in> set states"
    by (metis (no_types, lifting) filter_is_subset hd_in_set last_in_set subsetD)+
  then show "complete_state (tr_events trace) eb cp \<in> set states"
    "totalOrder model \<longrightarrow> floor_set (tr_events trace) (nat (lb_maxUnpersistedWindow bnds)) cp = {} \<Longrightarrow>
      durable_state (tr_events trace) eb cp \<in> set states"
    using extremes(1,3) window by (simp_all add: eb_def)
qed

section \<open>What is reported\<close>

text \<open>Every violation of a tested state is counted under its signature.\<close>

lemma violation_reported:
  assumes "(index, state, recovery) \<in> set runs" "v \<in> set (state_violations trace ackLog state recovery)"
  shows "violation_signature trace ackLog (crash_stamp trace state) state v
    \<in> fi_signature ` set (map_values (findings_of trace ackLog imageDir runs))"
proof -
  have "violation_signature trace ackLog (crash_stamp trace state) state v \<in> si_signature ` set (sightings trace ackLog runs)"
    using assms by (force simp: sightings_def state_sightings_def)
  then show ?thesis
    using arg_cong [OF findings_signatures [of trace ackLog imageDir runs], of set] by simp
qed

lemma find_by_key: "distinct (map f xs) \<Longrightarrow> x \<in> set xs \<Longrightarrow> List.find (\<lambda>y. f y = f x) xs = Some x"
  by (induction xs) (auto simp: image_iff)

lemma promised_signature:
  assumes "operation \<in> set (promisedBefore (parseAckLog trace) stamp)"
  shows "violation_signature trace (parseAckLog trace) stamp state (lost_acked stamp operation actual)
    = ''LOST_ACKED|'' @ earliestMissing state trace operation"
proof -
  have "operation \<in> set (parseAckLog trace)" using assms by (simp add: promisedBefore_def)
  from find_by_key [OF distinct_ops_parseAckLog this] show ?thesis
    by (simp add: violation_signature_def lost_acked_def signatureOf_def)
qed

lemma state_run:
  assumes "state \<in> set states"
  shows "\<exists>index. (index, state, f state) \<in> set (map (\<lambda>(index, state). (index, state, f state)) (List.enumerate 0 states))"
proof -
  have "state \<in> snd ` set (List.enumerate 0 states)" using assms by (metis map_snd_enumerate set_map)
  then show ?thesis by force
qed

text \<open>A finding with such a signature is of that class.\<close>

lemma lost_class:
  assumes "''LOST_ACKED|'' @ missing \<in> fi_signature ` set (map_values (findings_of trace ackLog imageDir runs))"
  shows "\<exists>finding\<in>set (map_values (findings_of trace ackLog imageDir runs)).
    fi_signature finding = ''LOST_ACKED|'' @ missing \<and> vi_violationClass (fi_violation finding) = LOST_ACKED"
proof -
  obtain f where f: "f \<in> set (map_values (findings_of trace ackLog imageDir runs))" "fi_signature f = ''LOST_ACKED|'' @ missing"
    using assms by auto
  let ?hits = "filter (\<lambda>s. si_signature s = fi_signature f) (sightings trace ackLog runs)"
  obtain s others where hits: "?hits = s # others" "fi_violation f = si_violation s"
    using f(1) unfolding in_findings findings_get by (auto split: list.splits dest: arg_cong [where f = fi_violation])
  have "s \<in> set ?hits" unfolding hits(1) by simp
  then have s: "s \<in> set (sightings trace ackLog runs)" "si_signature s = fi_signature f" by simp_all
  obtain state where "violation_signature trace ackLog (crash_stamp trace state) state (fi_violation f) = fi_signature f"
    using s hits(2) by (auto simp: sightings_def state_sightings_def)
  then obtain operation where "signatureOf (fi_violation f) state trace operation = ''LOST_ACKED|'' @ missing"
    unfolding f(2) violation_signature_def Let_def by blast
  then have "vi_violationClass (fi_violation f) = LOST_ACKED"
    by (cases "vi_violationClass (fi_violation f)") (simp_all add: signatureOf_def)
  with f show ?thesis by blast
qed

text \<open>An operation whose file is not on disk in a state is lost in it.\<close>

lemma lost_promise:
  assumes work: "campaign_workload cwd options cas trace"
    and promised: "operation \<in> set (promisedBefore ackLog (crash_stamp trace state))"
    and gone: "state_content cwd (co_rootDir options) cas trace state (ao_key operation) = None"
  shows "lost_acked (crash_stamp trace state) operation None
    \<in> set (state_violations trace ackLog state (state_recovery cwd (co_rootDir options) cas trace state))"
proof -
  obtain vals where r: "state_recovery cwd (co_rootDir options) cas trace state = Opened True vals None"
    by (simp add: state_recovery_def)
  have "map_get vals (ao_key operation) = None"
    using state_recovery_get(2) [OF work r] gone by simp
  moreover have "promisedBefore ackLog (crash_stamp trace state) \<noteq> []" using promised by auto
  ultimately show ?thesis
    using promised unfolding r by (force simp: state_violations_def checkOracle_opened honoured_def)
qed

lemma durable_content:
  assumes "0 < maxUnpersistedWindow bnds"
    and "\<forall>i\<in>floor_set (tr_events trace) (nat (maxUnpersistedWindow bnds)) cp. \<not> touches cwd rootDir name (tr_events trace ! i)"
  shows "state_content cwd rootDir cas trace (durable_state (tr_events trace) bnds cp) name = None"
  using content_origin [of cwd rootDir cas trace "durable_state (tr_events trace) bnds cp" name] assms
  by (force simp: durable_state_def selection_of_def selected_def alwaysPresent_floor)

text \<open>A promise with no durable operation on its file is reported.\<close>

lemma unsynced_reported:
  assumes machine: "block_machine env options cas contents device mounted_on"
    and layout: "campaign_layout (en_cwd env) options cas"
    and disk: "campaign_disk (en_cwd env) options cas (wd_fs w)"
    and store: "co_recover options = (\<lambda>dir. on_fs (recoverFileKv (en_cwd env) dir))"
    and bounds: "fst (loadBounds boundsPath (wd_fs w)) = Inr bnds"
      "0 < lb_maxUnpersistedWindow bnds" "lb_maxUnpersistedWindow bnds \<le> 30"
    and trace: "fst (read_file (resolve (en_cwd env) (co_tracePath options)) (wd_fs w)) = Inr bs"
      "result_bind (utf8_text bs) parseTrace = Inr trace"
    and work: "campaign_workload (en_cwd env) options cas trace"
    and model: "totalOrder (co_model options) \<longrightarrow>
      floor_set (tr_events trace) (nat (lb_maxUnpersistedWindow bnds)) cp = {}"
    and cp: "cp \<in> set (campaign_points trace bnds (co_seed options))"
    and promised: "operation \<in> set (promisedBefore (parseAckLog trace) (ev_index (tr_events trace ! cp)))"
    and unsynced: "\<forall>i\<in>floor_set (tr_events trace) (nat (lb_maxUnpersistedWindow bnds)) cp.
      \<not> touches (en_cwd env) (co_rootDir options) (ao_key operation) (tr_events trace ! i)"
  shows "\<exists>result w'. runCampaign env boundsPath options w = (Inr result, w')
    \<and> (\<exists>finding\<in>set (cr_findings result). vi_violationClass (fi_violation finding) = LOST_ACKED
        \<and> fi_signature finding = ''LOST_ACKED|'' @ earliestMissing (durable_state (tr_events trace)
          \<lparr>tornWrites = lb_tornWrites bnds, maxUnpersistedWindow = lb_maxUnpersistedWindow bnds\<rparr> cp) trace operation)"
proof -
  let ?eb = "\<lparr>tornWrites = lb_tornWrites bnds, maxUnpersistedWindow = lb_maxUnpersistedWindow bnds\<rparr>"
  let ?s = "durable_state (tr_events trace) ?eb cp" and ?r = "state_recovery (en_cwd env) (co_rootDir options) cas trace"
  let ?runs = "\<lambda>states. map (\<lambda>(index, state). (index, state, ?r state)) (List.enumerate 0 states)"
  obtain states w' where run: "campaign_states trace (co_model options) bnds (co_seed options) = Inr states"
    "runCampaign env boundsPath options w =
       (Inr \<lparr>cr_crashPointsTested = length (campaign_points trace bnds (co_seed options)),
             cr_statesTested = length states,
             cr_findings = map_values (findings_of trace (parseAckLog trace) (co_imageDir options) (?runs states))\<rparr>, w')"
    using campaign_verdict [OF machine layout disk store_recovers [OF machine store work] bounds(1) trace work] by blast
  have "?s \<in> set states" by (rule campaign_extremes(2) [OF run(1) cp bounds(2,3) model])
  from state_run [OF this, of ?r] obtain index where tested: "(index, ?s, ?r ?s) \<in> set (?runs states)"
    by (elim exE)
  have stamp: "crash_stamp trace ?s = ev_index (tr_events trace ! cp)"
    using cp by (simp add: crash_stamp_def durable_state_def campaign_points_def in_selectCrashPoints)
  have gone: "state_content (en_cwd env) (co_rootDir options) cas trace ?s (ao_key operation) = None"
    by (rule durable_content) (use bounds(2) unsynced in simp_all)
  have "''LOST_ACKED|'' @ earliestMissing ?s trace operation
      \<in> fi_signature ` set (map_values (findings_of trace (parseAckLog trace) (co_imageDir options) (?runs states)))"
    using violation_reported [OF tested lost_promise [OF work promised [folded stamp] gone]]
      promised_signature [OF promised [folded stamp], of ?s None] by simp
  from lost_class [OF this] run(2) show ?thesis by auto
qed

section \<open>Properties\<close>

text \<open>C3: what is sure to be found. Take a block layer that behaves as documented, a campaign over the file
  store, bounds and a trace that can be read, a window of 1 to 30 operations and a workload on files of
  the traced directory with its payloads stored. At some selected crash point let an operation have been
  acknowledged as durable, and let none of the operations certainly durable at that point, by a
  persistence call or by being older than the window, be on the file of its key; under a total-order
  model let there be no such operation at all. Then, whatever the seed and the caps, the campaign returns
  with a finding of the class \<open>LOST_ACKED\<close> that names the earliest operation of the lost one that is not
  durable.\<close>

theorem unsynced_promise_reported:
  assumes machine: "block_machine env options cas contents device mounted_on"
    and layout: "campaign_layout (en_cwd env) options cas"
    and disk: "campaign_disk (en_cwd env) options cas (wd_fs w)"
    and store: "co_recover options = (\<lambda>dir. on_fs (recoverFileKv (en_cwd env) dir))"
    and bounds: "fst (loadBounds boundsPath (wd_fs w)) = Inr bnds"
      "0 < lb_maxUnpersistedWindow bnds" "lb_maxUnpersistedWindow bnds \<le> 30"
    and trace: "fst (read_file (resolve (en_cwd env) (co_tracePath options)) (wd_fs w)) = Inr bs"
      "result_bind (utf8_text bs) parseTrace = Inr trace"
    and work: "campaign_workload (en_cwd env) options cas trace"
    and model: "totalOrder (co_model options) \<longrightarrow>
      floor_set (tr_events trace) (nat (lb_maxUnpersistedWindow bnds)) cp = {}"
    and cp: "cp \<in> set (campaign_points trace bnds (co_seed options))"
    and promised: "operation \<in> set (promisedBefore (parseAckLog trace) (ev_index (tr_events trace ! cp)))"
    and unsynced: "\<forall>i\<in>floor_set (tr_events trace) (nat (lb_maxUnpersistedWindow bnds)) cp.
      \<not> touches (en_cwd env) (co_rootDir options) (ao_key operation) (tr_events trace ! i)"
  shows "\<exists>result w'. runCampaign env boundsPath options w = (Inr result, w')
    \<and> (\<exists>finding\<in>set (cr_findings result). vi_violationClass (fi_violation finding) = LOST_ACKED
        \<and> fi_signature finding = ''LOST_ACKED|'' @ earliestMissing (durable_state (tr_events trace)
          \<lparr>tornWrites = lb_tornWrites bnds, maxUnpersistedWindow = lb_maxUnpersistedWindow bnds\<rparr> cp) trace operation)"
  by (rule unsynced_reported [OF machine layout disk store bounds trace work model cp promised unsynced])

lemma unsynced_promise_reported_witness:
  "\<exists>result w'. runCampaign ram_env [''b''] ram_campaign (ram_world ''gone'') = (Inr result, w') \<and> cr_findings result \<noteq> []"
proof -
  obtain lb where lb: "fst (loadBounds [''b''] (wd_fs (ram_world ''gone''))) = Inr lb" "lb_maxUnpersistedWindow lb = 8"
    using ram_reads(1) by blast
  let ?events = "tr_events (told_trace ''gone'')"
  have "\<not> totalOrder (co_model ram_campaign)" by (simp add: ram_campaign_def)
  moreover have "persistence_adjacent ?events 2"
    by (simp add: persistence_adjacent_def told_trace_def synced_trace_def trace_of_def op_event_def PERSISTENCE_def)
  then have "2 \<in> set (campaign_points (told_trace ''gone'') lb (co_seed ram_campaign))"
    by (simp add: campaign_points_def in_selectCrashPoints told_stamps)
  moreover have "driver_record (told ''gone'')
      \<in> set (promisedBefore (parseAckLog (told_trace ''gone'')) (ev_index (?events ! 2)))"
    by (simp add: told_promise [OF plain_keys(2)] told_stamps)
  moreover have "\<not> touches ''/'' (co_rootDir ram_campaign) (ao_key (driver_record (told ''gone''))) event"
    if "event \<in> set ?events" for event
    using that
    by (auto simp: touches_def told_trace_def synced_trace_def trace_of_def op_event_def ram_paths driver_record_def told_def)
  then have "\<forall>i\<in>floor_set ?events (nat (lb_maxUnpersistedWindow lb)) 2.
      \<not> touches ''/'' (co_rootDir ram_campaign) (ao_key (driver_record (told ''gone''))) (?events ! i)"
    using told_stamps(4) nth_mem by (fastforce simp: floor_set_def dest: issued_set_mutating)
  ultimately show ?thesis
    using unsynced_promise_reported [OF ram.block_machine_axioms, unfolded ram_cwd,
      OF ram_layout ram_disk ram_store lb(1) _ _ ram_reads(2) told_parse [OF plain_keys(2)] told_work, of 2]
      lb(2) by fastforce
qed

end
