(* ===== verification/UnsafeKv.thy ===== *)
theory UnsafeKv
  imports Detect
begin

text \<open>
  The positive control, \<open>src/targets/unsafe-kv/main.c\<close>, traced by the shim, \<open>src/shim/src/shim.c\<close>: the calls
  the program makes, the records the shim appends for them, and the campaign over the trace file they leave.
  The file has to be read, enumerated, sampled, materialised, recovered and judged before a finding says
  that the store lost what it acknowledged; every campaign does so.
\<close>

section \<open>The program\<close>

definition VALUE_BYTES :: nat where
  "VALUE_BYTES = 4096"

text \<open>\<open>snprintf\<close> into a buffer of \<open>n\<close> bytes.\<close>

definition c_buffer :: "nat \<Rightarrow> string \<Rightarrow> string" where
  "c_buffer n s = take (n - 1) s"

definition kv_key :: "nat \<Rightarrow> string" where
  "kv_key i = c_buffer 64 (''k'' @ nat_string i)"

definition kv_final :: "string \<Rightarrow> nat \<Rightarrow> string" where
  "kv_final dir i = c_buffer 512 (dir @ ''/'' @ kv_key i)"

definition kv_tmp :: "string \<Rightarrow> nat \<Rightarrow> string" where
  "kv_tmp dir i = c_buffer 512 (dir @ ''/'' @ kv_key i @ ''.tmp'')"

definition kv_value :: "nat \<Rightarrow> byte list" where
  "kv_value i = text_bytes (kv_key i) @ drop (length (kv_key i)) (replicate VALUE_BYTES (word_of_nat (97 + i mod 26)))"

definition begin_text :: "nat \<Rightarrow> string" where
  "begin_text i = ''op='' @ nat_string i @ '' phase=begin kind=put key='' @ kv_key i"

definition ack_text :: "nat \<Rightarrow> string" where
  "ack_text i = ''op='' @ nat_string i @ '' phase=ack kind=put key='' @ kv_key i
     @ '' digest='' @ sha256 (kv_value i) @ '' durable=1''"

text \<open>The calls that reach the shim, with what their arguments depend on. The tests of the number of arguments
  and \<open>strtol\<close> come before them. A write and a close are on the descriptor opened last.\<close>

datatype c_call = OpenMarker | Say string | OpenFile string | WriteFile "byte list" | CloseFile
  | RenameFile string string | CloseMarker

definition unsafe_put :: "string \<Rightarrow> nat \<Rightarrow> c_call list" where
  "unsafe_put dir i =
     [Say (begin_text i), OpenFile (kv_tmp dir i), WriteFile (kv_value i), CloseFile,
      RenameFile (kv_tmp dir i) (kv_final dir i), Say (ack_text i)]"

definition unsafe_kv :: "string \<Rightarrow> nat \<Rightarrow> c_call list" where
  "unsafe_kv dir operations = OpenMarker # concat (map (unsafe_put dir) [1..<Suc operations]) @ [CloseMarker]"

text \<open>The tests after each call: the program exits with 1 at the first that fails.\<close>

fun call_ok :: "c_call \<Rightarrow> int \<Rightarrow> bool" where
  "call_ok OpenMarker ret = (0 \<le> ret)"
| "call_ok (Say s) ret = True"
| "call_ok (OpenFile p) ret = (0 \<le> ret)"
| "call_ok (WriteFile bs) ret = (ret = int (length bs))"
| "call_ok CloseFile ret = (ret = 0)"
| "call_ok (RenameFile p q) ret = (ret = 0)"
| "call_ok CloseMarker ret = True"

section \<open>The shim\<close>

text \<open>
  Its state: the stamp counter, the descriptor and the path it remembers for it, and the records of the
  trace file. A process gives it an id, a thread and a clock, and answers its calls with a value and an
  error number. The directory is given by its canonical path, which \<open>realpath\<close> leaves alone, and the marker
  file has a descriptor below \<open>MAX_FD\<close>, so that the shim knows it.
\<close>

definition MAX_FD :: int where
  "MAX_FD = 1024"

record shim =
  sh_stamp :: int
  sh_fd :: int
  sh_path :: string
  sh_records :: "log_record list"

record c_process =
  cp_pid :: int
  cp_tid :: int
  cp_clock :: "int \<Rightarrow> int"
  cp_returns :: "nat \<Rightarrow> int \<times> int"

definition emit_event ::
    "c_process \<Rightarrow> int \<Rightarrow> call_name \<Rightarrow> int \<Rightarrow> string \<Rightarrow> string \<Rightarrow> int \<Rightarrow> nat \<Rightarrow> int \<times> int \<Rightarrow> string \<Rightarrow> shim \<Rightarrow> shim" where
  "emit_event p flags call fd path path2 offset len answer digest s =
     s\<lparr>sh_stamp := sh_stamp s + 2,
       sh_records := sh_records s @ [EventRec flags (cp_clock p (sh_stamp s + 1))
         \<lparr>ev_index = sh_stamp s, ev_completionIndex = sh_stamp s + 1, ev_call = call, ev_fd = fd, ev_threadId = cp_tid p,
          ev_path = path, ev_path2 = path2, ev_offset = offset, ev_length = int len, ev_returnValue = fst answer,
          ev_errno = (if fst answer < 0 then snd answer else 0), ev_digest = digest\<rparr>]\<rparr>"

definition MARKER_TEXT_MAX :: nat where
  "MARKER_TEXT_MAX = 512"

definition emit_marker :: "c_process \<Rightarrow> string \<Rightarrow> shim \<Rightarrow> shim" where
  "emit_marker p s sh = sh\<lparr>sh_stamp := sh_stamp sh + 1,
     sh_records := sh_records sh @ [MarkerRec \<lparr>mk_index = sh_stamp sh, mk_threadId = cp_tid p, mk_text = take MARKER_TEXT_MAX s\<rparr>]\<rparr>"

definition remember_path :: "int \<Rightarrow> string \<Rightarrow> shim \<Rightarrow> shim" where
  "remember_path fd path s = s\<lparr>sh_fd := fd, sh_path := (if fd < 0 \<or> MAX_FD \<le> fd then '''' else path)\<rparr>"

text \<open>\<open>O_CREAT | O_WRONLY | O_TRUNC\<close>\<close>

definition OPEN_FLAGS :: int where
  "OPEN_FLAGS = 577"

definition traced_open :: "c_process \<Rightarrow> string \<Rightarrow> int \<times> int \<Rightarrow> shim \<Rightarrow> shim" where
  "traced_open p path answer s =
     (let s' = remember_path (fst answer) path s
      in emit_event p OPEN_FLAGS COpen (fst answer) (sh_path s') '''' 0 0 answer '''' s')"

text \<open>The opened file is empty, so that what a write returned is also where it left the offset.\<close>

definition traced_write :: "c_process \<Rightarrow> byte list \<Rightarrow> int \<times> int \<Rightarrow> shim \<Rightarrow> shim" where
  "traced_write p bs answer s =
     emit_event p 0 CWrite (sh_fd s) (sh_path s) '''' (if fst answer < 0 then -1 else 0) (length bs) answer (sha256 bs) s"

definition traced_close :: "c_process \<Rightarrow> int \<times> int \<Rightarrow> shim \<Rightarrow> shim" where
  "traced_close p answer s = emit_event p 0 CClose (sh_fd s) (sh_path s) '''' 0 0 answer '''' s"

definition traced_rename :: "c_process \<Rightarrow> string \<Rightarrow> string \<Rightarrow> int \<times> int \<Rightarrow> shim \<Rightarrow> shim" where
  "traced_rename p src dst answer s = emit_event p 0 CRename (-1) src dst 0 0 answer '''' s"

text \<open>Calls on the marker file take their stamp and leave no event; opening it leaves one if it fails.\<close>

fun traced_call :: "c_process \<Rightarrow> c_call \<Rightarrow> int \<times> int \<Rightarrow> shim \<Rightarrow> shim" where
  "traced_call p OpenMarker answer s =
     (if fst answer < 0 then emit_event p OPEN_FLAGS COpen (fst answer) '''' '''' 0 0 answer '''' s
      else s\<lparr>sh_stamp := sh_stamp s + 1\<rparr>)"
| "traced_call p (Say t) answer s = emit_marker p t s"
| "traced_call p (OpenFile path) answer s = traced_open p path answer s"
| "traced_call p (WriteFile bs) answer s = traced_write p bs answer s"
| "traced_call p CloseFile answer s = traced_close p answer s"
| "traced_call p (RenameFile src dst) answer s = traced_rename p src dst answer s"
| "traced_call p CloseMarker answer s = s\<lparr>sh_stamp := sh_stamp s + 1\<rparr>"

text \<open>The program from its \<open>k\<close>-th call on: what the shim has recorded at the end, and the exit code.\<close>

fun execute :: "c_process \<Rightarrow> nat \<Rightarrow> c_call list \<Rightarrow> shim \<Rightarrow> shim \<times> nat" where
  "execute p k [] s = (s, 0)"
| "execute p k (c # cs) s =
     (let s' = traced_call p c (cp_returns p k) s
      in if call_ok c (fst (cp_returns p k)) then execute p (Suc k) cs s' else (s', 1))"

definition run_traced :: "c_process \<Rightarrow> c_call list \<Rightarrow> log_record list \<times> nat" where
  "run_traced p calls =
     (let (s, code) = execute p 0 calls \<lparr>sh_stamp = 0, sh_fd = -1, sh_path = '''', sh_records = [HeaderRec (cp_pid p)]\<rparr>
      in (sh_records s, code))"

section \<open>The records of a run that succeeds\<close>

text \<open>Operation \<open>i\<close> takes the ten stamps from \<open>put_stamp i\<close> and the six calls from \<open>put_call i\<close>.\<close>

definition put_stamp :: "nat \<Rightarrow> int" where
  "put_stamp i = 10 * int i - 9"

definition put_call :: "nat \<Rightarrow> nat" where
  "put_call i = 6 * i - 5"

definition put_records :: "c_process \<Rightarrow> string \<Rightarrow> nat \<Rightarrow> log_record list" where
  "put_records p dir i =
     sh_records (fst (execute p (put_call i) (unsafe_put dir i)
       \<lparr>sh_stamp = put_stamp i, sh_fd = -1, sh_path = '''', sh_records = []\<rparr>))"

text \<open>What is traced after a prefix of the calls only adds to the records.\<close>

lemma execute_append:
  "execute p k (xs @ ys) s = (let (s', code) = execute p k xs s in if code = 0 then execute p (k + length xs) ys s' else (s', code))"
  by (induction xs arbitrary: k s) (auto simp: Let_def split: prod.splits)

lemmas trace_simps = emit_event_def emit_marker_def remember_path_def traced_open_def traced_write_def traced_close_def
  traced_rename_def

lemma execute_put:
  assumes "snd (execute p (put_call i) (unsafe_put dir i) s) = 0" "sh_stamp s = put_stamp i"
  shows "sh_stamp (fst (execute p (put_call i) (unsafe_put dir i) s)) = put_stamp (Suc i)"
    "sh_records (fst (execute p (put_call i) (unsafe_put dir i) s)) = sh_records s @ put_records p dir i"
  using assms by (simp_all add: unsafe_put_def put_records_def trace_simps Let_def put_stamp_def split: if_splits)

lemma execute_puts:
  assumes "snd (execute p (put_call m) (concat (map (unsafe_put dir) [m..<m + n])) s) = 0" "sh_stamp s = put_stamp m" "0 < m"
  shows "sh_records (fst (execute p (put_call m) (concat (map (unsafe_put dir) [m..<m + n])) s))
    = sh_records s @ concat (map (put_records p dir) [m..<m + n])"
  using assms
proof (induction n arbitrary: m s)
  case (Suc n)
  let ?e = "execute p (put_call m) (unsafe_put dir m) s"
  have up: "[m..<m + Suc n] = m # [Suc m..<Suc m + n]" by (simp add: upt_conv_Cons del: upt_Suc)
  have next_call: "put_call m + length (unsafe_put dir m) = put_call (Suc m)"
    using Suc.prems(3) by (simp add: put_call_def unsafe_put_def)
  have ok: "snd ?e = 0"
    using Suc.prems(1) unfolding up by (simp add: execute_append Let_def split: prod.splits if_splits)
  note put = execute_put [OF ok Suc.prems(2)]
  obtain s' where e: "?e = (s', 0)" using ok by (metis prod.collapse)
  show ?case
    using Suc.IH [of "Suc m" s'] Suc.prems put unfolding up by (simp add: execute_append next_call e)
qed simp

lemma run_records:
  assumes "snd (run_traced p (unsafe_kv dir n)) = 0"
  shows "fst (run_traced p (unsafe_kv dir n)) = HeaderRec (cp_pid p) # concat (map (put_records p dir) [1..<Suc n])"
proof -
  let ?s = "\<lparr>sh_stamp = 1, sh_fd = -1, sh_path = '''', sh_records = [HeaderRec (cp_pid p)]\<rparr>"
  let ?puts = "concat (map (unsafe_put dir) [1..<1 + n])"
  have one: "put_call 1 = 1" "put_stamp 1 = 1" by (simp_all add: put_call_def put_stamp_def)
  have run: "snd (execute p 1 ?puts ?s) = 0"
      "fst (run_traced p (unsafe_kv dir n)) = sh_records (fst (execute p 1 ?puts ?s))"
    using assms by (auto simp: run_traced_def unsafe_kv_def execute_append Let_def split: prod.splits if_splits)
  show ?thesis
    unfolding run(2) using execute_puts [of p 1 dir n ?s] run(1) by (simp only: one) simp
qed

section \<open>What the trace file says\<close>

text \<open>
  An ordinary run: every call succeeds, the file descriptors are in the table of the shim, names and paths
  fit their buffers, and the numbers and the directory survive the trip through JSON.
\<close>

definition ordinary_run :: "c_process \<Rightarrow> string \<Rightarrow> nat \<Rightarrow> bool" where
  "ordinary_run p dir n \<longleftrightarrow> snd (run_traced p (unsafe_kv dir n)) = 0 \<and> n < 2 ^ 40 \<and> exact (cp_pid p) \<and> exact (cp_tid p)
     \<and> starts_char (CHR ''/'') dir \<and> clean_text dir \<and> ascii dir
     \<and> (\<forall>i\<in>{1..n}. fst (cp_returns p (put_call i + 1)) < MAX_FD \<and> length (nat_string i) < 63
          \<and> length dir + length (nat_string i) < 506)"

definition kv_event :: "c_process \<Rightarrow> int \<Rightarrow> int \<Rightarrow> call_name \<Rightarrow> string \<Rightarrow> string \<Rightarrow> nat \<Rightarrow> int \<Rightarrow> string \<Rightarrow> trace_event" where
  "kv_event p stamp fd call path path2 len ret digest =
     \<lparr>ev_index = stamp, ev_completionIndex = stamp + 1, ev_call = call, ev_fd = fd, ev_threadId = cp_tid p, ev_path = path,
      ev_path2 = path2, ev_offset = 0, ev_length = int len, ev_returnValue = ret, ev_errno = 0, ev_digest = digest\<rparr>"

definition put_events :: "c_process \<Rightarrow> string \<Rightarrow> nat \<Rightarrow> trace_event list" where
  "put_events p dir i =
     (let b = put_stamp i; fd = fst (cp_returns p (put_call i + 1)); tmp = dir @ ''/k'' @ nat_string i @ ''.tmp'' in
      [kv_event p (b + 1) fd COpen tmp '''' 0 fd '''',
       kv_event p (b + 3) fd CWrite tmp '''' VALUE_BYTES (int VALUE_BYTES) (sha256 (kv_value i)),
       kv_event p (b + 5) fd CClose tmp '''' 0 0 '''',
       kv_event p (b + 7) (-1) CRename tmp (dir @ ''/k'' @ nat_string i) 0 0 ''''])"

definition put_operation :: "nat \<Rightarrow> driver_operation" where
  "put_operation i = \<lparr>dr_thread = 1, dr_op = i, dr_key = ''k'' @ nat_string i, dr_digest = sha256 (kv_value i), dr_began = put_stamp i,
     dr_acked = Some (put_stamp i + 9, True)\<rparr>"

definition put_markers :: "c_process \<Rightarrow> nat \<Rightarrow> trace_marker list" where
  "put_markers p i = map (\<lambda>m. m\<lparr>mk_threadId := cp_tid p\<rparr>) (driver_markers (put_operation i))"

definition kv_trace :: "c_process \<Rightarrow> string \<Rightarrow> nat \<Rightarrow> trace" where
  "kv_trace p dir n = \<lparr>tr_header = \<lparr>hd_version = TRACE_VERSION, hd_pid = cp_pid p\<rparr>,
     tr_events = concat (map (put_events p dir) [1..<Suc n]), tr_markers = concat (map (put_markers p) [1..<Suc n])\<rparr>"

lemma execute_exit:
  "snd (execute p k cs s) = 0 \<longleftrightarrow> (\<forall>j<length cs. call_ok (cs ! j) (fst (cp_returns p (k + j))))"
  by (induction cs arbitrary: k s) (auto simp: Let_def less_Suc_eq_0_disj)

lemma concat_exit:
  assumes "snd (execute p (put_call m) (concat (map (unsafe_put dir) [m..<m + n])) s) = 0" "0 < m" "i \<in> {m..<m + n}"
  shows "snd (execute p (put_call i) (unsafe_put dir i) t) = 0"
  using assms
proof (induction n arbitrary: m s)
  case (Suc n)
  let ?e = "execute p (put_call m) (unsafe_put dir m) s"
  have up: "[m..<m + Suc n] = m # [Suc m..<Suc m + n]" by (simp add: upt_conv_Cons del: upt_Suc)
  have next_call: "put_call m + length (unsafe_put dir m) = put_call (Suc m)"
    using Suc.prems(2) by (simp add: put_call_def unsafe_put_def)
  have ok: "snd ?e = 0"
    using Suc.prems(1) unfolding up by (simp add: execute_append Let_def split: prod.splits if_splits)
  then obtain s' where e: "?e = (s', 0)" by (metis prod.collapse)
  have rest: "snd (execute p (put_call (Suc m)) (concat (map (unsafe_put dir) [Suc m..<Suc m + n])) s') = 0"
    using Suc.prems(1) unfolding up by (simp add: execute_append next_call e)
  show ?case
  proof (cases "i = m")
    case True
    then show ?thesis using ok unfolding execute_exit by simp
  next
    case False
    then show ?thesis using Suc.IH [OF rest] Suc.prems(3) by simp
  qed
qed simp

lemma ordinary_put:
  assumes "ordinary_run p dir n" "i \<in> {1..n}"
  shows "0 \<le> fst (cp_returns p (put_call i + 1))" "fst (cp_returns p (put_call i + 1)) < MAX_FD"
    "fst (cp_returns p (put_call i + 2)) = int (length (kv_value i))" "fst (cp_returns p (put_call i + 3)) = 0"
    "fst (cp_returns p (put_call i + 4)) = 0"
proof -
  let ?s = "\<lparr>sh_stamp = 1, sh_fd = -1, sh_path = '''', sh_records = [HeaderRec (cp_pid p)]\<rparr>"
  have one: "put_call 1 = 1" by (simp add: put_call_def)
  have "snd (execute p (put_call 1) (concat (map (unsafe_put dir) [1..<1 + n])) ?s) = 0"
    using assms(1) unfolding one
    by (auto simp: ordinary_run_def run_traced_def unsafe_kv_def execute_append Let_def split: prod.splits if_splits)
  from concat_exit [OF this, of i ?s] assms(2) have "snd (execute p (put_call i) (unsafe_put dir i) ?s) = 0" by simp
  then show "0 \<le> fst (cp_returns p (put_call i + 1))" "fst (cp_returns p (put_call i + 2)) = int (length (kv_value i))"
    "fst (cp_returns p (put_call i + 3)) = 0" "fst (cp_returns p (put_call i + 4)) = 0"
    by (simp_all add: unsafe_put_def Let_def eval_nat_numeral split: if_splits)
  show "fst (cp_returns p (put_call i + 1)) < MAX_FD" using assms by (simp add: ordinary_run_def)
qed

lemma put_names:
  assumes "ordinary_run p dir n" "i \<in> {1..n}"
  shows "kv_key i = ''k'' @ nat_string i" "kv_final dir i = dir @ ''/k'' @ nat_string i"
    "kv_tmp dir i = dir @ ''/k'' @ nat_string i @ ''.tmp''" "length (kv_value i) = VALUE_BYTES"
proof -
  have fits: "length (nat_string i) < 63" "length dir + length (nat_string i) < 506"
    using assms unfolding ordinary_run_def by blast+
  then show key: "kv_key i = ''k'' @ nat_string i" by (simp add: kv_key_def c_buffer_def)
  show "kv_final dir i = dir @ ''/k'' @ nat_string i" "kv_tmp dir i = dir @ ''/k'' @ nat_string i @ ''.tmp''"
    using fits by (simp_all add: kv_final_def kv_tmp_def key c_buffer_def)
  show "length (kv_value i) = VALUE_BYTES"
    using fits by (simp add: kv_value_def key text_bytes_def VALUE_BYTES_def)
qed

text \<open>The texts of the markers are those of a driver, and fit the marker buffer.\<close>

lemma put_texts:
  assumes "ordinary_run p dir n" "i \<in> {1..n}"
  shows "mk_text (begin_marker (put_operation i)) = begin_text i"
    "mk_text (ack_marker (put_operation i) stamp True) = ack_text i"
    "length (begin_text i) < MARKER_TEXT_MAX" "length (ack_text i) < MARKER_TEXT_MAX"
proof -
  show "mk_text (begin_marker (put_operation i)) = begin_text i"
    "mk_text (ack_marker (put_operation i) stamp True) = ack_text i"
    by (simp_all add: begin_marker_def ack_marker_def put_operation_def marker_text_def begin_text_def ack_text_def
        put_names(1) [OF assms])
  have "length (nat_string i) < 63" using assms unfolding ordinary_run_def by blast
  then show "length (begin_text i) < MARKER_TEXT_MAX" "length (ack_text i) < MARKER_TEXT_MAX"
    by (simp_all add: begin_text_def ack_text_def put_names(1) [OF assms] sha256_length MARKER_TEXT_MAX_def)
qed

lemma put_records_eq:
  assumes "ordinary_run p dir n" "i \<in> {1..n}"
  shows "\<exists>t0 t1 t2 t3. put_records p dir i =
    [MarkerRec (put_markers p i ! 0), EventRec OPEN_FLAGS t0 (put_events p dir i ! 0), EventRec 0 t1 (put_events p dir i ! 1),
     EventRec 0 t2 (put_events p dir i ! 2), EventRec 0 t3 (put_events p dir i ! 3), MarkerRec (put_markers p i ! 1)]"
proof -
  have takes: "take MARKER_TEXT_MAX (begin_text i) = begin_text i" "take MARKER_TEXT_MAX (ack_text i) = ack_text i"
    using put_texts(3,4) [OF assms] by simp_all
  have texts: "mk_text (begin_marker (put_operation i)) = begin_text i"
    "mk_text (ack_marker (put_operation i) (put_stamp i + 9) True) = ack_text i"
    using put_texts(1,2) [OF assms] by simp_all
  have markers: "put_markers p i = [\<lparr>mk_index = put_stamp i, mk_threadId = cp_tid p, mk_text = begin_text i\<rparr>,
      \<lparr>mk_index = put_stamp i + 9, mk_threadId = cp_tid p, mk_text = ack_text i\<rparr>]"
    using texts by (simp add: put_markers_def driver_markers_def, simp add: put_operation_def begin_marker_def ack_marker_def)
  note ok = ordinary_put [OF assms, unfolded put_names(4) [OF assms], simplified]
  show ?thesis
    unfolding markers put_records_def unsafe_put_def put_events_def Let_def
    using ok by (simp add: trace_simps takes put_names [OF assms] kv_event_def Let_def eval_nat_numeral)
qed

lemma records_of_puts:
  assumes "ordinary_run p dir n"
  shows "events_of (fst (run_traced p (unsafe_kv dir n))) = tr_events (kv_trace p dir n)"
    "markers_of (fst (run_traced p (unsafe_kv dir n))) = tr_markers (kv_trace p dir n)"
    "first_pid (fst (run_traced p (unsafe_kv dir n))) = Some (cp_pid p)"
proof -
  have run: "fst (run_traced p (unsafe_kv dir n)) = HeaderRec (cp_pid p) # concat (map (put_records p dir) [1..<Suc n])"
    using run_records assms by (simp add: ordinary_run_def)
  have one: "events_of (put_records p dir i) = put_events p dir i" "markers_of (put_records p dir i) = put_markers p i"
    if "i \<in> {1..n}" for i
  proof -
    have "length (put_events p dir i) = 4" by (simp add: put_events_def Let_def)
    moreover have "length (put_markers p i) = 2" by (simp add: put_markers_def driver_markers_def put_operation_def)
    ultimately have "[put_events p dir i ! 0, put_events p dir i ! 1, put_events p dir i ! 2, put_events p dir i ! 3] = put_events p dir i"
      "[put_markers p i ! 0, put_markers p i ! 1] = put_markers p i"
      by (auto intro!: nth_equalityI simp: less_Suc_eq numeral_eq_Suc)
    with put_records_eq [OF assms that] show "events_of (put_records p dir i) = put_events p dir i"
      "markers_of (put_records p dir i) = put_markers p i"
      by (auto simp: events_of_def markers_of_def map_filter_simps)
  qed
  have parts: "events_of (concat (map g xs)) = concat (map (\<lambda>x. events_of (g x)) xs)"
    "markers_of (concat (map g xs)) = concat (map (\<lambda>x. markers_of (g x)) xs)" for g :: "nat \<Rightarrow> log_record list" and xs
    by (induction xs) (simp_all add: events_of_def markers_of_def map_filter_def)
  have puts: "map (\<lambda>i. events_of (put_records p dir i)) [1..<Suc n] = map (put_events p dir) [1..<Suc n]"
    "map (\<lambda>i. markers_of (put_records p dir i)) [1..<Suc n] = map (put_markers p) [1..<Suc n]"
    by (rule map_cong; simp add: one less_Suc_eq_le del: upt_Suc)+
  have header: "events_of (HeaderRec q # rs) = events_of rs" "markers_of (HeaderRec q # rs) = markers_of rs" for q rs
    by (simp_all add: events_of_def markers_of_def map_filter_simps)
  show "events_of (fst (run_traced p (unsafe_kv dir n))) = tr_events (kv_trace p dir n)"
    "markers_of (fst (run_traced p (unsafe_kv dir n))) = tr_markers (kv_trace p dir n)"
    unfolding run kv_trace_def trace.simps header parts puts by (rule refl)+
  show "first_pid (fst (run_traced p (unsafe_kv dir n))) = Some (cp_pid p)"
    unfolding run by (simp add: first_pid_def map_filter_simps)
qed

lemma sorted_blocks:
  assumes "\<And>i. sorted (map key (f i))" "\<And>i x. x \<in> set (f i) \<Longrightarrow> put_stamp i \<le> key x \<and> key x < put_stamp (Suc i)"
  shows "sorted (map key (concat (map f [1..<Suc n])))"
proof (induction n)
  case (Suc n)
  have "key x \<le> key y" if x: "x \<in> set (concat (map f [1..<Suc n]))" and y: "y \<in> set (f (Suc n))" for x y
  proof -
    obtain i where "i < Suc n" "x \<in> set (f i)" using x by (force simp del: upt_Suc)
    then have "key x < put_stamp (Suc i)" "put_stamp (Suc i) \<le> put_stamp (Suc n)" "put_stamp (Suc n) \<le> key y"
      using assms(2) [of x i] assms(2) [of y "Suc n"] y by (auto simp: put_stamp_def)
    then show ?thesis by simp
  qed
  then show ?case using Suc assms(1) by (auto simp: sorted_append)
qed simp

lemma kv_trace_sorted: "sorted (map ev_index (tr_events (kv_trace p dir n)))" "sorted (map mk_index (tr_markers (kv_trace p dir n)))"
  unfolding kv_trace_def trace.simps
  by (rule sorted_blocks; auto simp: put_events_def put_markers_def driver_markers_def put_operation_def kv_event_def
      put_stamp_def Let_def begin_marker_def ack_marker_def)+

text \<open>The trace file is read as written.\<close>

definition plain_char :: "char \<Rightarrow> bool" where
  "plain_char c \<longleftrightarrow> 32 \<le> char_code c \<and> char_code c < 128 \<and> c \<noteq> quote \<and> c \<noteq> backslash"

definition plain_text :: "string \<Rightarrow> bool" where
  "plain_text s \<longleftrightarrow> list_all plain_char s"

lemma plain_text_simps [simp]:
  "plain_text (c # s) \<longleftrightarrow> plain_char c \<and> plain_text s" "plain_text (s @ t) \<longleftrightarrow> plain_text s \<and> plain_text t"
  by (simp_all add: plain_text_def)

lemma plain_text_iff: "plain_text s \<longleftrightarrow> clean_text s \<and> ascii s"
  by (auto simp: plain_text_def plain_char_def clean_text_def ascii_def list_all_iff)

lemma plain_parts [simp]: "plain_text (nat_string i)" "plain_text (sha256 bs)" "plain_text []" "plain_text (call_string c)"
proof -
  have "32 \<le> char_code c \<and> c \<noteq> quote \<and> c \<noteq> backslash" if "is_digit c" for c
  proof -
    have "\<not> is_digit quote" "\<not> is_digit backslash" by code_simp+
    then show ?thesis using that by (auto simp: is_digit_def Let_def)
  qed
  then have "clean_text (nat_string i)" using nat_string_digits [of i] by (auto simp: clean_text_def)
  then show "plain_text (nat_string i)" using ascii_number(1) by (simp add: plain_text_iff)
  show "plain_text (sha256 bs)" by (simp add: plain_text_iff digest_clean(2) ascii_hex)
  have "ascii (call_string c)" by (cases c) (simp_all only: ascii_def call_string.simps, code_simp+)
  then show "plain_text []" "plain_text (call_string c)"
    using clean_calls by (simp_all add: plain_text_iff, simp add: clean_text_def)
qed

lemma plain_literals: "\<forall>w\<in>{''op='', '' phase=begin kind=put key='', '' phase=ack kind=put key='', '' digest='', '' durable=1'',
    ''k'', ''/k'', ''.tmp'', ''rec'', ''v'', ''pid'', ''i'', ''j'', ''call'', ''fd'', ''tid'', ''path'', ''path2'', ''off'', ''len'',
    ''ret'', ''err'', ''flags'', ''t'', ''dig'', ''text'', ''header'', ''event'', ''marker''}. plain_text w"
  by code_simp

definition plain_record :: "log_record \<Rightarrow> bool" where
  "plain_record r \<longleftrightarrow> clean_record r \<and> (\<forall>kv\<in>set (record_fields r). ascii_field kv)"

lemma plain_event:
  assumes "list_all exact [ev_index e, ev_completionIndex e, ev_fd e, ev_threadId e, ev_offset e, ev_length e, ev_returnValue e, ev_errno e]"
    and "plain_text (ev_path e)" "plain_text (ev_path2 e)" "plain_text (ev_digest e)"
  shows "plain_record (EventRec flags t e)"
  using assms plain_literals plain_parts(4)
  by (simp add: plain_record_def clean_record_def record_fields_def ascii_field_def plain_text_iff del: plain_text_simps ascii_simps(2))

lemma plain_marker:
  assumes "exact (mk_index m)" "exact (mk_threadId m)" "plain_text (mk_text m)"
  shows "plain_record (MarkerRec m)"
  using assms plain_literals
  by (simp add: plain_record_def clean_record_def record_fields_def ascii_field_def plain_text_iff del: plain_text_simps ascii_simps(2))

lemma plain_put:
  assumes "ordinary_run p dir n" "i \<in> {1..n}"
  shows "e \<in> set (put_events p dir i) \<Longrightarrow> plain_record (EventRec flags t e)"
    "m \<in> set (put_markers p i) \<Longrightarrow> plain_record (MarkerRec m)"
proof -
  have num: "exact (cp_tid p)" "exact 0" "exact (-1)" "exact (int VALUE_BYTES)"
    using assms(1) by (simp_all add: ordinary_run_def exact_def VALUE_BYTES_def)
  have fd: "exact (fst (cp_returns p (put_call i + 1)))"
    using ordinary_put(1,2) [OF assms] by (simp add: exact_def MAX_FD_def)
  have "n < 2 ^ 40" using assms(1) by (simp add: ordinary_run_def)
  then have stamp: "exact (put_stamp i + k)" if "0 \<le> k" "k < 10" for k
    using that assms(2) by (auto simp: exact_def put_stamp_def)
  have "plain_text dir" using assms(1) by (simp add: ordinary_run_def plain_text_iff)
  then show "plain_record (EventRec flags t e)" if "e \<in> set (put_events p dir i)"
    using that num fd plain_literals stamp [of 1] stamp [of 2] stamp [of 3] stamp [of 4] stamp [of 5] stamp [of 6] stamp [of 7]
      stamp [of 8]
    by (intro plain_event) (auto simp: put_events_def Let_def kv_event_def add.commute)
  have "plain_text (begin_text i)" "plain_text (ack_text i)"
    using plain_literals by (simp_all add: begin_text_def ack_text_def put_names(1) [OF assms])
  then have "plain_text (mk_text (begin_marker (put_operation i)))" "plain_text (mk_text (ack_marker (put_operation i) (put_stamp i + 9) True))"
    using put_texts(1,2) [OF assms] by simp_all
  moreover have "driver_markers (put_operation i) = [begin_marker (put_operation i), ack_marker (put_operation i) (put_stamp i + 9) True]"
    by (simp add: driver_markers_def put_operation_def)
  moreover have "dr_began (put_operation i) = put_stamp i" by (simp add: put_operation_def)
  ultimately show "plain_record (MarkerRec m)" if "m \<in> set (put_markers p i)"
    using that num(1) stamp [of 0] stamp [of 9] by (intro plain_marker) (auto simp: put_markers_def)
qed

lemma control_parse:
  assumes "ordinary_run p dir n"
  shows "result_bind (utf8_text (text_bytes (trace_text (fst (run_traced p (unsafe_kv dir n)))))) parseTrace = Inr (kv_trace p dir n)"
proof -
  let ?rs = "fst (run_traced p (unsafe_kv dir n))"
  have run: "?rs = HeaderRec (cp_pid p) # concat (map (put_records p dir) [1..<Suc n])"
    using run_records assms by (simp add: ordinary_run_def)
  have "plain_record r" if "r \<in> set (put_records p dir i)" "i \<in> {1..n}" for r i
  proof -
    have "length (put_events p dir i) = 4" "length (put_markers p i) = 2"
      by (simp_all add: put_events_def Let_def put_markers_def driver_markers_def put_operation_def)
    then have "(\<forall>j<4. put_events p dir i ! j \<in> set (put_events p dir i)) \<and> (\<forall>j<2. put_markers p i ! j \<in> set (put_markers p i))"
      by (metis nth_mem)
    then show ?thesis
      using put_records_eq [OF assms that(2)] that(1) plain_put [OF assms that(2)] by auto
  qed
  moreover have "plain_record (HeaderRec (cp_pid p))"
    using assms plain_literals
    by (simp add: plain_record_def clean_record_def record_fields_def ascii_field_def plain_text_iff ordinary_run_def
        del: plain_text_simps ascii_simps(2))
  ultimately have "\<forall>r\<in>set ?rs. plain_record r" unfolding run by (force simp del: upt_Suc)
  then have plain: "\<forall>r\<in>set ?rs. clean_record r" "\<forall>r\<in>set ?rs. \<forall>kv\<in>set (record_fields r). ascii_field kv"
    unfolding plain_record_def by blast+
  have "\<forall>c\<in>set (trace_text ?rs). char_code c < 128" using ascii_trace [OF plain(2)] by (simp add: ascii_def)
  moreover note kv_trace_sorted [of p dir n]
  ultimately show ?thesis
    using read_records [OF plain(1)]
    by (simp add: utf8_text_bytes records_of_puts [OF assms] sort_key_id_if_sorted) (simp add: kv_trace_def)
qed

section \<open>What a campaign makes of it\<close>

text \<open>The promises: the log has a durable record for every operation.\<close>

lemma ack_step_thread: "ack_step m (marker\<lparr>mk_threadId := t\<rparr>) = ack_step m marker"
  by (cases marker) (simp add: ack_step_def opened_record_def Let_def split: option.splits)

lemma control_log:
  assumes "ordinary_run p dir n"
  shows "parseAckLog (kv_trace p dir n) = map (\<lambda>i. driver_record (put_operation i)) [1..<Suc n]"
proof -
  let ?ds = "map put_operation [1..<Suc n]"
  have "foldl ack_step m (concat (map (put_markers p) is)) = foldl ack_step m (concat (map (\<lambda>i. driver_markers (put_operation i)) is))"
    for m "is"
  proof (induction "is" arbitrary: m)
    case (Cons i "is")
    have "foldl ack_step m (map (\<lambda>m. m\<lparr>mk_threadId := cp_tid p\<rparr>) ms) = foldl ack_step m ms" for m ms
      by (induction ms arbitrary: m) (simp_all add: ack_step_thread)
    then show ?case using Cons by (simp add: put_markers_def)
  qed simp
  then have same: "parseAckLog (kv_trace p dir n) = parseAckLog (trace_of [] (concat (map driver_markers ?ds)))"
    by (simp add: parseAckLog_def kv_trace_def trace_of_def comp_def del: upt_Suc)
  have "n < 2 ^ 40" using assms by (simp add: ordinary_run_def)
  moreover have "clean_word ''k''" unfolding clean_word_def by code_simp
  ultimately have clean: "\<forall>d\<in>set ?ds. clean_operation d"
    using nat_string_clean digest_clean(1) by (auto simp: clean_operation_def put_operation_def clean_word_def simp del: upt_Suc)
  have "distinct (map dr_op ?ds)" by (simp add: put_operation_def comp_def del: upt_Suc)
  moreover have "sorted (map dr_began ?ds)"
    by (simp add: put_operation_def comp_def put_stamp_def sorted_iff_nth_mono nth_append del: upt_Suc)
  ultimately show ?thesis
    unfolding same using driver_log [OF clean] by (simp add: trace_of_def comp_def del: upt_Suc)
qed

text \<open>The paths are files of the traced directory.\<close>

lemma resolve_slash:
  assumes "starts_char (CHR ''/'') dir" "plain_segment name"
  shows "resolve cwd (dir @ ''/'' @ name) = resolve cwd dir @ [name]"
proof -
  have name: "CHR ''/'' \<notin> set name" "norm_step acc name = acc @ [name]" for acc
    using assms(2) by (auto simp: plain_segment_def norm_step_def)
  have "segments (dir @ ''/'' @ name) = segments dir @ [name]"
    using split_on_last [OF name(1), of dir] by (simp add: segments_def)
  then show ?thesis
    using assms(1) name(2) by (cases dir) (simp_all add: resolve_def starts_char_def norm_from_def)
qed

lemma kv_names: "plain_segment (''k'' @ nat_string i)" "plain_segment (''k'' @ nat_string i @ ''.tmp'')"
proof -
  have "\<not> is_digit (CHR ''/'')" by code_simp
  then have "CHR ''/'' \<notin> set (nat_string i)" using nat_string_digits [of i] by blast
  then show "plain_segment (''k'' @ nat_string i)" "plain_segment (''k'' @ nat_string i @ ''.tmp'')"
    by (simp_all add: plain_segment_def)
qed

lemma control_work:
  assumes run: "ordinary_run p dir n" and root: "co_rootDir options = dir"
    and stored: "\<forall>i\<in>{1..n}. cas (sha256 (kv_value i)) \<noteq> None"
  shows "campaign_workload cwd options cas (kv_trace p dir n)"
proof -
  have slash: "starts_char (CHR ''/'') dir" using run by (simp add: ordinary_run_def)
  have "traced_file cwd dir (dir @ ''/'' @ name)" if "plain_segment name" "name \<noteq> ''lost+found''" for name
    using that relative_inside [OF resolve_slash [OF slash that(1)]] unfolding traced_file_def by blast
  from this [OF kv_names(1)] this [OF kv_names(2)]
  have "traced_file cwd dir (dir @ ''/k'' @ nat_string i)" "traced_file cwd dir (dir @ ''/k'' @ nat_string i @ ''.tmp'')" for i
    by simp_all
  then show ?thesis
    using stored unfolding campaign_workload_def kv_trace_def root
    by (auto simp: put_events_def Let_def kv_event_def is_write_def MUTATING_def simp del: upt_Suc)
qed

text \<open>At the open call of the second operation, nothing at all is certain to be durable.\<close>

lemma control_events:
  assumes "2 \<le> n"
  shows "\<exists>rest. tr_events (kv_trace p dir n) = put_events p dir 1 @ put_events p dir 2 @ rest"
proof -
  have "[1..<Suc n] = 1 # 2 # [3..<Suc n]"
    using assms by (simp add: upt_conv_Cons numeral_2_eq_2 numeral_3_eq_3 del: upt_Suc)
  then show ?thesis by (simp add: kv_trace_def)
qed

lemma control_calls: "event \<in> set (tr_events (kv_trace p dir n)) \<Longrightarrow> ev_call event \<notin> PERSISTENCE"
  by (auto simp: kv_trace_def put_events_def Let_def kv_event_def PERSISTENCE_def simp del: upt_Suc)

lemma control_point:
  assumes "2 \<le> n"
  shows "length (tr_events (kv_trace p dir n)) > 4"
    "ev_index (tr_events (kv_trace p dir n) ! 4) = 12"
    "tr_events (kv_trace p dir n) ! 1 = put_events p dir 1 ! 1"
    "issued_set (tr_events (kv_trace p dir n)) 4 = {1, 3}"
    "pinned_set (tr_events (kv_trace p dir n)) 4 = {}"
proof -
  let ?e = "tr_events (kv_trace p dir n)"
  obtain rest where e: "?e = put_events p dir 1 @ put_events p dir 2 @ rest" using control_events [OF assms] by blast
  show long: "length ?e > 4" unfolding e by (simp add: put_events_def Let_def)
  show "ev_index (?e ! 4) = 12" "?e ! 1 = put_events p dir 1 ! 1"
    unfolding e by (simp_all add: put_events_def Let_def kv_event_def put_stamp_def)
  have "ev_call (?e ! i) \<notin> PERSISTENCE" if "i \<le> 4" for i
    using control_calls long that by (meson le_less_trans nth_mem)
  then show pinned: "pinned_set ?e 4 = {}" by (auto simp: pinned_set_def returned_persistence_def)
  have "returned_mutation (?e ! 1)" "returned_mutation (?e ! 3)" "\<not> returned_mutation (?e ! 0)" "\<not> returned_mutation (?e ! 2)"
    "\<not> returned_mutation (?e ! 4)"
    unfolding e by (simp_all add: put_events_def Let_def kv_event_def returned_mutation_def MUTATING_def VALUE_BYTES_def)
  moreover have "i \<le> 4 \<longleftrightarrow> i = 0 \<or> i = 1 \<or> i = 2 \<or> i = 3 \<or> i = 4" for i :: nat by auto
  ultimately show "issued_set ?e 4 = {1, 3}" by (auto simp: issued_set_def pinned)
qed

lemma control_floor:
  assumes "2 \<le> n" "2 \<le> w"
  shows "floor_set (tr_events (kv_trace p dir n)) w 4 = {}"
proof -
  let ?e = "tr_events (kv_trace p dir n)"
  note point = control_point [OF assms(1), of p dir]
  have free: "free_set ?e 4 = {1, 3}"
    using point(4,5) by (auto simp: free_set_def issued_set_def)
  have "card {k \<in> {1, 3 :: nat}. i < k} < w" if "i \<in> {1, 3}" for i
  proof -
    have "{k \<in> {1, 3 :: nat}. i < k} \<subseteq> {3}" using that by auto
    then have "card {k \<in> {1, 3 :: nat}. i < k} \<le> card {3 :: nat}" by (rule card_mono [rotated]) simp
    then show ?thesis using assms(2) by simp
  qed
  then have "window_set ?e w 4 = {1, 3}" by (auto simp: window_set_def free)
  then show ?thesis by (simp add: floor_set_def point(4))
qed

text \<open>What is missing first is the first write.\<close>

lemma control_missing:
  assumes "2 \<le> n" "2 \<le> maxUnpersistedWindow bnds"
  shows "earliestMissing (durable_state (tr_events (kv_trace p dir n)) bnds 4) (kv_trace p dir n)
    (driver_record (put_operation 1)) = ''missing:write@k1.tmp''"
proof -
  let ?t = "kv_trace p dir n" and ?op = "driver_record (put_operation 1)"
  let ?s = "durable_state (tr_events ?t) bnds 4"
  note point = control_point [OF assms(1), of p dir]
  have "set (alwaysPresent (tr_events ?t) bnds 4) = {}"
    using assms by (simp add: alwaysPresent_floor control_floor)
  then have none: "cs_persisted ?s = []" "cs_partial ?s = []" by (simp_all add: durable_state_def)
  have one: "nat_string 1 = ''1''" by code_simp
  have first: "tr_events ?t ! 1 = kv_event p 4 (fst (cp_returns p (put_call 1 + 1))) CWrite (dir @ ''/k1.tmp'') '''' VALUE_BYTES
      (int VALUE_BYTES) (sha256 (kv_value 1))"
    using point(3) by (simp add: put_events_def Let_def put_stamp_def one [simplified])
  obtain rest where "tr_events ?t = put_events p dir 1 @ put_events p dir 2 @ rest" using control_events [OF assms(1)] by blast
  then have "ev_call (tr_events ?t ! 0) = COpen" by (simp add: put_events_def Let_def kv_event_def)
  then have "\<not> in_flight ?op (tr_events ?t ! 0)" by (simp add: in_flight_def MUTATING_def)
  moreover have "in_flight ?op (tr_events ?t ! 1)"
    unfolding first by (simp add: in_flight_def kv_event_def driver_record_def put_operation_def put_stamp_def MUTATING_def VALUE_BYTES_def)
  ultimately have "List.find (\<lambda>i. in_flight ?op (tr_events ?t ! i) \<and> not_whole ?s i) [0..<length (tr_events ?t)] = Some 1"
    using point(1) by (simp add: find_upt_Some not_whole_def none less_Suc_eq)
  then have "earliestMissing ?s ?t ?op = blame ?s (tr_events ?t) 1" by (simp add: earliestMissing_eq)
  also have "\<dots> = ''missing:write@k1.tmp''"
    unfolding blame_def describe_def first using basename_no_slash [of "''k1.tmp''" dir] by (simp add: none kv_event_def)
  finally show ?thesis .
qed

section \<open>Properties\<close>

text \<open>C9: the positive control is detected. Run the unsafe store under the shim, with two operations or
  more, so that it exits with 0 and its payloads are stored, and give the trace file that results to a
  campaign over a block layer that behaves as documented, with a window of 2 to 30 operations. Under
  every persistence model, with every seed and every cap, the campaign returns with a finding of the
  class \<open>LOST_ACKED\<close>: the first key is gone although it was acknowledged, and the first call that is
  missing is the write of its temporary file.\<close>

theorem positive_control_detected:
  assumes machine: "block_machine env options cas contents device mounted_on"
    and layout: "campaign_layout (en_cwd env) options cas"
    and disk: "campaign_disk (en_cwd env) options cas (wd_fs w)"
    and store: "co_recover options = (\<lambda>dir. on_fs (recoverFileKv (en_cwd env) dir))"
    and bounds: "fst (loadBounds boundsPath (wd_fs w)) = Inr bnds"
      "2 \<le> lb_maxUnpersistedWindow bnds" "lb_maxUnpersistedWindow bnds \<le> 30"
    and run: "ordinary_run p (co_rootDir options) n" "2 \<le> n"
    and stored: "\<forall>i\<in>{1..n}. cas (sha256 (kv_value i)) \<noteq> None"
    and trace: "fst (read_file (resolve (en_cwd env) (co_tracePath options)) (wd_fs w))
      = Inr (text_bytes (trace_text (fst (run_traced p (unsafe_kv (co_rootDir options) n)))))"
  shows "\<exists>result w'. runCampaign env boundsPath options w = (Inr result, w')
    \<and> (\<exists>finding\<in>set (cr_findings result). vi_violationClass (fi_violation finding) = LOST_ACKED
        \<and> fi_signature finding = ''LOST_ACKED|missing:write@k1.tmp'')"
proof -
  let ?t = "kv_trace p (co_rootDir options) n" and ?w = "nat (lb_maxUnpersistedWindow bnds)"
  let ?eb = "\<lparr>tornWrites = lb_tornWrites bnds, maxUnpersistedWindow = lb_maxUnpersistedWindow bnds\<rparr>"
  note point = control_point [OF run(2), of p "co_rootDir options"]
  have floor: "floor_set (tr_events ?t) ?w 4 = {}" by (rule control_floor [OF run(2)]) (use bounds(2) in simp)
  have cp: "4 \<in> set (campaign_points ?t bnds (co_seed options))"
    using point(1) control_calls by (auto simp: campaign_points_def in_selectCrashPoints exhaustive_selection_def)
  let ?op = "driver_record (put_operation 1)"
  have "?op \<in> set (parseAckLog ?t)" using run(2) by (auto simp: control_log [OF run(1)] simp del: upt_Suc)
  then have promised: "?op \<in> set (promisedBefore (parseAckLog ?t) (ev_index (tr_events ?t ! 4)))"
    by (simp add: promisedBefore_def driver_record_def put_operation_def put_stamp_def point(2))
  have "earliestMissing (durable_state (tr_events ?t) ?eb 4) ?t ?op = ''missing:write@k1.tmp''"
    by (rule control_missing [OF run(2)]) (use bounds(2) in simp)
  then show ?thesis
    using unsynced_reported [OF machine layout disk store bounds(1) _ bounds(3) trace control_parse [OF run(1)]
        control_work [OF run(1) refl stored] _ cp promised] bounds(2) floor by simp
qed

text \<open>A process of two operations whose calls all succeed, and its trace on the machine in memory.\<close>

definition control_process :: c_process where
  "control_process = \<lparr>cp_pid = 7, cp_tid = 8, cp_clock = (\<lambda>stamp. 1755285600000000000 + stamp),
     cp_returns = (\<lambda>k. (if k \<in> {0, 2, 8} then 3 else if k \<in> {3, 9} then 4096 else 0, 0))\<rparr>"

definition control_payload :: "nat \<Rightarrow> string \<times> byte list" where
  "control_payload i = (sha256 (kv_value i), kv_value i)"

lemma control_payload_name: "plain_segment (fst (control_payload i))"
proof -
  have "\<not> is_hex (CHR ''/'')" by code_simp
  then have "CHR ''/'' \<notin> set (sha256 (kv_value i))" using sha256_hex by blast
  moreover have "length (sha256 (kv_value i)) = 64" by (rule sha256_length)
  ultimately show ?thesis by (auto simp: control_payload_def plain_segment_def)
qed

lemma control_ordinary: "ordinary_run control_process ''/d'' 2"
proof -
  have names: "nat_string 1 = ''1''" "nat_string 2 = ''2''" by code_simp+
  have size: "length (kv_value i) = 4096" for i
    by (simp add: kv_value_def kv_key_def c_buffer_def text_bytes_def VALUE_BYTES_def)
  have "[1..<Suc 2] = [1, 2 :: nat]" by (simp add: upt_rec)
  then have calls: "unsafe_kv ''/d'' 2 = OpenMarker # unsafe_put ''/d'' 1 @ unsafe_put ''/d'' 2 @ [CloseMarker]"
    by (simp add: unsafe_kv_def)
  have "snd (run_traced control_process (unsafe_kv ''/d'' 2)) = snd (execute control_process 0 (unsafe_kv ''/d'' 2)
      \<lparr>sh_stamp = 0, sh_fd = -1, sh_path = '''', sh_records = [HeaderRec (cp_pid control_process)]\<rparr>)"
    by (simp add: run_traced_def split: prod.splits)
  also have "\<dots> = 0"
    unfolding execute_exit calls unsafe_put_def
    by (auto simp: control_process_def size less_Suc_eq numeral_eq_Suc)
  finally have "snd (run_traced control_process (unsafe_kv ''/d'' 2)) = 0" .
  moreover have "{1..2} = {1, 2 :: nat}" by auto
  moreover have "clean_text ''/d'' \<and> ascii ''/d''" unfolding ascii_def by code_simp
  ultimately show ?thesis
    by (simp add: ordinary_run_def names [simplified] exact_def MAX_FD_def starts_char_def put_call_def)
      (simp add: control_process_def)
qed

lemma positive_control_detected_witness:
  "\<exists>result w'. runCampaign ram_env [''b''] ram_campaign
       (ram_files (trace_text (fst (run_traced control_process (unsafe_kv ''/d'' 2)))) (control_payload 1) (control_payload 2))
     = (Inr result, w') \<and> cr_findings result \<noteq> []"
proof -
  let ?one = "control_payload 1" and ?two = "control_payload 2"
  let ?w = "ram_files (trace_text (fst (run_traced control_process (unsafe_kv ''/d'' 2)))) ?one ?two"
  have layout: "campaign_layout ''/'' ram_campaign (two_payloads ?one ?two)"
    and disk: "campaign_disk ''/'' ram_campaign (two_payloads ?one ?two) (wd_fs ?w)"
    by (rule ram_files_layout ram_files_disk, rule control_payload_name, rule control_payload_name)+
  obtain lb where lb: "fst (loadBounds [''b''] (wd_fs ?w)) = Inr lb" "lb_maxUnpersistedWindow lb = 8"
    using ram_files_reads(1) by blast
  have root: "co_rootDir ram_campaign = ''/d''" by (simp add: ram_campaign_def)
  have "i = 1 \<or> i = 2" if "i \<in> {1..2}" for i :: nat using that by auto
  then have stored: "\<forall>i\<in>{1..2}. two_payloads ?one ?two (sha256 (kv_value i)) \<noteq> None"
    by (fastforce simp: two_payloads_def control_payload_def)
  from positive_control_detected [OF ram_machine [OF layout], unfolded ram_cwd root,
      OF layout disk ram_store lb(1) _ _ control_ordinary _ stored ram_files_reads(2)] lb(2)
  show ?thesis by fastforce
qed

end
