(* ===== verification/Console.thy ===== *)
theory Console
  imports Effects
begin

text \<open>
  Programs that print: the state of a program that writes to the console is the state it works on and
  the lines printed so far, standard output and standard error apart.
\<close>

datatype console_line = Out string | Err string

type_synonym 'w terminal = "'w \<times> console_line list"

definition console_log :: "string \<Rightarrow> ('w terminal, unit) io" where
  "console_log s t = (Inr (), fst t, snd t @ [Out s])"

definition console_error :: "string \<Rightarrow> ('w terminal, unit) io" where
  "console_error s t = (Inr (), fst t, snd t @ [Err s])"

definition quietly :: "('w, 'a) io \<Rightarrow> ('w terminal, 'a) io" where
  "quietly m t = (case m (fst t) of (r, w) \<Rightarrow> (r, w, snd t))"

text \<open>Printing a list of lines.\<close>

lemma console_each: "io_each console_log ss t = (Inr (), fst t, snd t @ map Out ss)"
  by (induction ss arbitrary: t) (simp_all add: io_defs console_log_def)

end
