(* ===== verification/Cli.thy ===== *)
theory Cli
  imports Console Campaign
begin

text \<open>
  \<open>core/src/index.ts\<close>: the command line. \<open>platform\<close> is \<open>process.platform\<close>, \<open>inherited\<close> gives the text
  of a property every JavaScript object inherits, and the value of \<open>main\<close> is the exit code.
\<close>

definition COMMANDS :: "(string \<times> string) list" where
  "COMMANDS =
     [(''trace'', ''Capture a syscall trace from a target workload (Phase 1)''),
      (''enumerate'', ''Enumerate legal crash states from a trace (Phase 2)''),
      (''replay'', ''Replay crash states through recovery and check the oracle (Phase 3)''),
      (''campaign'', ''Sweep filesystems and workload shapes (Phase 4)''),
      (''doctor'', ''Report whether the current environment can host a run'')]"

text \<open>The names \<open>in\<close> finds on every object.\<close>

definition prototype_names :: "string list" where
  "prototype_names =
     [''constructor'', ''__defineGetter__'', ''__defineSetter__'', ''hasOwnProperty'', ''__lookupGetter__'',
      ''__lookupSetter__'', ''isPrototypeOf'', ''propertyIsEnumerable'', ''toString'', ''valueOf'',
      ''__proto__'', ''toLocaleString'']"

definition in_commands :: "string \<Rightarrow> bool" where
  "in_commands command \<longleftrightarrow> command \<in> set (map fst COMMANDS) \<or> command \<in> set prototype_names"

definition command_text :: "(string \<Rightarrow> string) \<Rightarrow> string \<Rightarrow> string" where
  "command_text inherited command =
     (case map_of COMMANDS command of Some description \<Rightarrow> description | None \<Rightarrow> inherited command)"

record environment_check =
  ck_name :: string
  ck_ok :: bool
  ck_hint :: string

definition runChecks :: "string \<Rightarrow> environment_check list" where
  "runChecks platform =
     [\<lparr>ck_name = ''platform is linux'', ck_ok = (platform = ''linux''),
       ck_hint = ''found '' @ platform @ ''; start the VM with '' @ [CHR 0x27] @ ''bun run vm:sh'' @ [CHR 0x27]\<rparr>]"

definition check_line :: "environment_check \<Rightarrow> string" where
  "check_line check =
     pad_end 5 (if ck_ok check then ''ok'' else ''FAIL'') @ ck_name check
     @ (if ck_ok check then '''' else ''  ('' @ ck_hint check @ '')'')"

definition doctor :: "string \<Rightarrow> ('w terminal, nat) io" where
  "doctor platform =
     (let checks = runChecks platform; failed = filter (\<lambda>c. \<not> ck_ok c) checks in
      io_seq (io_each (\<lambda>check. console_log (check_line check)) checks)
        (io_seq (console_log (if length failed = 0 then NL # ''Environment OK.''
                      else NL # nat_string (length failed) @ '' check(s) failed.''))
          (io_return (if length failed = 0 then 0 else 1))))"

definition enumerate_row :: "string \<Rightarrow> nat \<Rightarrow> nat \<Rightarrow> nat \<Rightarrow> string" where
  "enumerate_row name points states sampled =
     pad_end 17 name @ pad_start 12 (CHR '' '') (nat_string points)
     @ pad_start 9 (CHR '' '') (nat_string states) @ pad_start 15 (CHR '' '') (nat_string sampled)"

definition enumerate_model ::
    "trace \<Rightarrow> loaded_bounds \<Rightarrow> nat list \<Rightarrow> filesystem_model \<Rightarrow> ('w terminal, unit) io" where
  "enumerate_model trace bnds crashPoints model =
     io_bind (io_result (enumerateCrashStates trace
         \<lparr>eo_model = model,
          eo_bounds = \<lparr>tornWrites = lb_tornWrites bnds, maxUnpersistedWindow = lb_maxUnpersistedWindow bnds\<rparr>,
          eo_crashPoints = Some crashPoints\<rparr>)) (\<lambda>states.
       let sampled = sampleStates states \<lparr>sa_maxPerCrashPoint = lb_maxStatesPerCrashPoint bnds, sa_seed = 1\<rparr>
       in console_log (enumerate_row (fm_name model) (length crashPoints) (length states) (length sampled)))"

definition enumerate_command :: "string \<Rightarrow> segs \<Rightarrow> string option \<Rightarrow> (fs terminal, nat) io" where
  "enumerate_command cwd boundsPath tracePath =
     (case tracePath of
        None \<Rightarrow> io_seq (console_error ''usage: bun run cf enumerate <trace.jsonl>'') (io_return 2)
      | Some path \<Rightarrow>
          io_bind (quietly (loadBounds boundsPath)) (\<lambda>bnds.
          io_bind (quietly (read_file (resolve cwd path))) (\<lambda>bs.
          io_bind (io_result (result_bind (utf8_text bs) parseTrace)) (\<lambda>trace.
          let crashPoints = selectCrashPoints trace
                \<lparr>so_nonFsyncSampleRate = lb_nonFsyncSampleRate bnds, so_seed = 1,
                 so_maxExhaustiveWorkloadOps = Some (lb_maxExhaustiveWorkloadOps bnds)\<rparr> in
          io_seq (console_log (nat_string (length (tr_events trace)) @ '' events, ''
                       @ nat_string (length crashPoints) @ '' crash points selected'' @ [NL]))
          (io_seq (console_log ''model            crash points   states   materialized'')
          (io_seq (io_each (enumerate_model trace bnds crashPoints) MODELS)
            (io_return 0)))))))"

definition usage :: "('w terminal, unit) io" where
  "usage =
     io_seq (console_log (''crashfuzz - application-level crash-consistency checker'' @ [NL]))
     (io_seq (console_log (''Usage: bun run cf <command>'' @ [NL]))
     (io_seq (io_each (\<lambda>(name, description). console_log (''  '' @ pad_end 11 name @ description)) COMMANDS)
       (console_log (NL # ''See docs/EXECUTION-PLAN.md for the current phase status.''))))"

definition argument :: "string list \<Rightarrow> nat \<Rightarrow> string option" where
  "argument argv n = (if n < length argv then Some (argv ! n) else None)"

definition main ::
    "string \<Rightarrow> string \<Rightarrow> (string \<Rightarrow> string) \<Rightarrow> segs \<Rightarrow> string list \<Rightarrow> (fs terminal, nat) io" where
  "main cwd platform inherited boundsPath argv =
     (case argument argv 2 of
        None \<Rightarrow> io_seq usage (io_return 0)
      | Some command \<Rightarrow>
          if command = '''' then io_seq usage (io_return 0)
          else if \<not> in_commands command
          then io_seq (console_error (''Unknown command: '' @ command @ [NL])) (io_seq usage (io_return 2))
          else if command = ''doctor'' then doctor platform
          else if command = ''enumerate'' then enumerate_command cwd boundsPath (argument argv 3)
          else io_seq (console_error (''Not implemented: '' @ command @ '' ('' @ command_text inherited command @ '')''))
                 (io_return 3))"

section \<open>Properties\<close>

lemma console_one: "console_log s t = (Inr (), fst t, snd t @ [Out s])"
  by (rule console_log_def)

definition usage_lines :: "string list" where
  "usage_lines = [''crashfuzz - application-level crash-consistency checker'' @ [NL], ''Usage: bun run cf <command>'' @ [NL]]
     @ map (\<lambda>(name, description). ''  '' @ pad_end 11 name @ description) COMMANDS
     @ [NL # ''See docs/EXECUTION-PLAN.md for the current phase status.'']"

lemma usage_prints: "usage (t :: 'w terminal) = (Inr (), fst t, snd t @ map Out usage_lines)"
proof -
  let ?rows = "map (\<lambda>(name, description). ''  '' @ pad_end 11 name @ description) COMMANDS"
  have "io_each (\<lambda>(name, description). console_log (''  '' @ pad_end 11 name @ description)) COMMANDS
      = (io_each console_log ?rows :: ('w terminal, unit) io)"
    by (simp add: io_each_map case_prod_unfold)
  then show ?thesis
    unfolding usage_def by (simp add: io_seq_def io_bind_def console_each console_one usage_lines_def)
qed

text \<open>
  The exit code of every command line, except for an enumeration, which can also fail on its files. Names
  every object inherits count as commands: they are reported as not implemented, not as unknown.
\<close>

lemma main_exit_code:
  assumes "argument argv 2 \<noteq> Some ''enumerate''"
  shows "fst (main cwd platform inherited boundsPath argv t) = Inr (case argument argv 2 of
      None \<Rightarrow> 0
    | Some command \<Rightarrow>
        if command = '''' then 0
        else if command = ''doctor'' then (if platform = ''linux'' then 0 else 1)
        else if in_commands command then 3 else 2)"
proof -
  have "in_commands ''doctor''" by code_simp
  then show ?thesis
    using assms
    by (auto simp: usage_prints main_def doctor_def runChecks_def io_seq_def io_bind_def io_return_def console_log_def console_error_def Let_def
        split: option.splits)
qed

lemma inherited_names_are_commands: "in_commands ''toString'' \<and> ''toString'' \<notin> set (map fst COMMANDS)"
  by code_simp

end
