(* ===== verification/Sweep.thy ===== *)
theory Sweep
  imports Models Image
begin

text \<open>
  \<open>core/src/campaign/sweep.ts\<close> and \<open>core/src/campaign/results.ts\<close>: the plan of a sweep, every file
  system with every workload shape, and the table of its results.
\<close>

section \<open>Plan\<close>

record sweep_config =
  sc_name :: string
  sc_filesystem :: filesystem
  sc_mountOptions :: "string option"
  sc_model :: filesystem_model

definition SWEEP :: "sweep_config list" where
  "SWEEP =
     [\<lparr>sc_name = ''ext4-ordered'', sc_filesystem = Ext4, sc_mountOptions = Some ''data=ordered'', sc_model = ext4Ordered\<rparr>,
      \<lparr>sc_name = ''ext4-journal'', sc_filesystem = Ext4, sc_mountOptions = Some ''data=journal'', sc_model = ext4Journal\<rparr>,
      \<lparr>sc_name = ''xfs'', sc_filesystem = Xfs, sc_mountOptions = None, sc_model = xfs\<rparr>,
      \<lparr>sc_name = ''btrfs'', sc_filesystem = Btrfs, sc_mountOptions = None, sc_model = btrfs\<rparr>]"

datatype shape = Single | Large | Many | Mixed | Concurrent

definition SHAPES :: "shape list" where
  "SHAPES = [Single, Large, Many, Mixed, Concurrent]"

definition shape_string :: "shape \<Rightarrow> string" where
  "shape_string s = (case s of Single \<Rightarrow> ''single'' | Large \<Rightarrow> ''large'' | Many \<Rightarrow> ''many''
     | Mixed \<Rightarrow> ''mixed'' | Concurrent \<Rightarrow> ''concurrent'')"

record sweep_run =
  sr_config :: sweep_config
  sr_shape :: shape

definition sweepPlan :: "sweep_run list" where
  "sweepPlan = concat (map (\<lambda>config. map (\<lambda>shape. \<lparr>sr_config = config, sr_shape = shape\<rparr>) SHAPES) SWEEP)"

text \<open>The plan holds every combination exactly once, and every row enumerates the model it is named after.\<close>

lemma shapes_complete: "set SHAPES = UNIV" "distinct SHAPES"
proof -
  have "s \<in> set SHAPES" for s by (cases s) (simp_all add: SHAPES_def)
  then show "set SHAPES = UNIV" by blast
qed (simp add: SHAPES_def)

lemma sweep_distinct: "distinct SWEEP"
  by (simp add: SWEEP_def)

lemma sweep_plan_complete:
  "set sweepPlan = {item. sr_config item \<in> set SWEEP} \<and> distinct sweepPlan \<and> length sweepPlan = 20"
proof (intro conjI)
  show "set sweepPlan = {item. sr_config item \<in> set SWEEP}"
  proof
    show "{item. sr_config item \<in> set SWEEP} \<subseteq> set sweepPlan"
    proof
      fix item :: sweep_run assume "item \<in> {item. sr_config item \<in> set SWEEP}"
      moreover obtain c s where "item = \<lparr>sr_config = c, sr_shape = s\<rparr>" by (cases item)
      ultimately show "item \<in> set sweepPlan"
        using shapes_complete(1) by (auto simp: sweepPlan_def)
    qed
  qed (auto simp: sweepPlan_def)
  show "distinct sweepPlan"
    unfolding sweepPlan_def SWEEP_def SHAPES_def by simp
  show "length sweepPlan = 20"
    by (simp add: sweepPlan_def SWEEP_def SHAPES_def)
qed

lemma sweep_models: "\<forall>config\<in>set SWEEP. fm_name (sc_model config) = sc_name config \<and> sc_model config \<in> set MODELS"
  by (simp add: SWEEP_def MODELS_def ext4Ordered_def ext4Journal_def xfs_def btrfs_def)

section \<open>Results\<close>

record finding_count =
  fc_signature :: string
  fc_count :: nat

record sweep_row =
  rw_configName :: string
  rw_filesystem :: string
  rw_mountOptions :: "string option"
  rw_shape :: string
  rw_crashPointsTested :: nat
  rw_statesTested :: nat
  rw_findings :: "finding_count list"

definition table_row :: "sweep_row \<Rightarrow> string" where
  "table_row row =
     ''| '' @ rw_filesystem row @ '' | ''
     @ (case rw_mountOptions row of Some o' \<Rightarrow> o' | None \<Rightarrow> ''(default)'') @ '' | '' @ rw_shape row @ '' | ''
     @ nat_string (rw_crashPointsTested row) @ '' | '' @ nat_string (rw_statesTested row) @ '' | ''
     @ nat_string (length (rw_findings row)) @ '' |''"

definition total_states :: "sweep_row list \<Rightarrow> nat" where
  "total_states rows = foldl (\<lambda>total row. total + rw_statesTested row) 0 rows"

definition total_findings :: "sweep_row list \<Rightarrow> nat" where
  "total_findings rows = foldl (\<lambda>total row. total + length (rw_findings row)) 0 rows"

definition resultsTable :: "sweep_row list \<Rightarrow> string" where
  "resultsTable rows =
     join [NL]
       ([''| Filesystem | Mount | Shape | Crash points | States | Findings |'', ''|---|---|---|---|---|---|'']
        @ map table_row rows
        @ [''| **total** | | | | **'' @ nat_string (total_states rows) @ ''** | **''
             @ nat_string (total_findings rows) @ ''** |''])"

lemma total_sums:
  "total_states rows = sum_list (map rw_statesTested rows)"
  "total_findings rows = sum_list (map (\<lambda>row. length (rw_findings row)) rows)"
proof -
  have "foldl (\<lambda>total row. total + f row) n rows = n + sum_list (map f rows)" for f :: "sweep_row \<Rightarrow> nat" and n
    by (induction rows arbitrary: n) simp_all
  from this [of rw_statesTested 0] this [of "\<lambda>row. length (rw_findings row)" 0] show
    "total_states rows = sum_list (map rw_statesTested rows)"
    "total_findings rows = sum_list (map (\<lambda>row. length (rw_findings row)) rows)"
    by (simp_all add: total_states_def total_findings_def)
qed

end
