(* ===== verification/JsonText.thy ===== *)
theory JsonText
  imports Reader
begin

text \<open>
  \<open>JSON.stringify(value, null, 2)\<close> for the documents the program writes (findings and test reports):
  strings, integers, booleans, \<open>null\<close>, arrays and objects in key order. The text is proved to parse
  back to the document.
\<close>

datatype doc =
    DNull
  | DBool bool
  | DInt int
  | DText string
  | DList "doc list"
  | DRec "(string \<times> doc) list"

section \<open>Printing\<close>

definition escape_char :: "char \<Rightarrow> string" where
  "escape_char c =
     (if c = quote \<or> c = backslash then [backslash, c]
      else if char_code c = 8 then backslash # ''b''
      else if char_code c = 12 then backslash # ''f''
      else if char_code c = 10 then backslash # ''n''
      else if char_code c = 13 then backslash # ''r''
      else if char_code c = 9 then backslash # ''t''
      else if char_code c < 32
      then backslash # ''u00'' @ [hex_digit (char_code c div 16), hex_digit (char_code c mod 16)]
      else [c])"

definition string_text :: "string \<Rightarrow> string" where
  "string_text s = quote # concat (map escape_char s) @ [quote]"

definition line_break :: "nat \<Rightarrow> string" where
  "line_break n = NL # replicate n (CHR '' '')"

text \<open>An array or an object: the items on lines of their own, or nothing between the brackets.\<close>

definition bracketed :: "char \<Rightarrow> char \<Rightarrow> nat \<Rightarrow> string list \<Rightarrow> string" where
  "bracketed l r n items =
     (if items = [] then [l, r]
      else l # line_break (n + 2) @ join (CHR '','' # line_break (n + 2)) items @ line_break n @ [r])"

primrec doc_text :: "doc \<Rightarrow> nat \<Rightarrow> string" where
  "doc_text DNull = (\<lambda>n. ''null'')"
| "doc_text (DBool b) = (\<lambda>n. if b then ''true'' else ''false'')"
| "doc_text (DInt i) = (\<lambda>n. int_string i)"
| "doc_text (DText s) = (\<lambda>n. string_text s)"
| "doc_text (DList ds) = (\<lambda>n. bracketed (CHR ''['') (CHR '']'') n (map (\<lambda>f. f (n + 2)) (map doc_text ds)))"
| "doc_text (DRec kvs) = (\<lambda>n. bracketed (CHR ''{'') (CHR ''}'') n
     (map (\<lambda>(k, f). string_text k @ '': '' @ f (n + 2)) (map (map_prod id doc_text) kvs)))"

definition stringify :: "doc \<Rightarrow> string" where
  "stringify d = doc_text d 0"

section \<open>The value a document denotes\<close>

primrec doc_json :: "doc \<Rightarrow> json" where
  "doc_json DNull = JNull"
| "doc_json (DBool b) = JBool b"
| "doc_json (DInt i) = JNum (double_of_rat (of_int i))"
| "doc_json (DText s) = JString s"
| "doc_json (DList ds) = JArray (map doc_json ds)"
| "doc_json (DRec kvs) = JObject (map (map_prod id doc_json) kvs)"

primrec doc_keys :: "doc \<Rightarrow> bool" where
  "doc_keys DNull = True"
| "doc_keys (DBool b) = True"
| "doc_keys (DInt i) = True"
| "doc_keys (DText s) = True"
| "doc_keys (DList ds) = list_all id (map doc_keys ds)"
| "doc_keys (DRec kvs) = (distinct (map fst kvs) \<and> list_all snd (map (map_prod id doc_keys) kvs))"

fun comma_join :: "token list list \<Rightarrow> token list" where
  "comma_join [] = []"
| "comma_join [ts] = ts"
| "comma_join (ts # us # tss) = ts @ Comma # comma_join (us # tss)"

primrec doc_tokens :: "doc \<Rightarrow> token list" where
  "doc_tokens DNull = [Val JNull]"
| "doc_tokens (DBool b) = [Val (JBool b)]"
| "doc_tokens (DInt i) = [Val (JNum (double_of_rat (of_int i)))]"
| "doc_tokens (DText s) = [Val (JString s)]"
| "doc_tokens (DList ds) = LBracket # comma_join (map doc_tokens ds) @ [RBracket]"
| "doc_tokens (DRec kvs) = LBrace
     # comma_join (map (\<lambda>(k, ts). Val (JString k) # Colon # ts) (map (map_prod id doc_tokens) kvs)) @ [RBrace]"

section \<open>Lexing the text\<close>

definition prepend :: "token list \<Rightarrow> token list result \<Rightarrow> token list result" where
  "prepend ts r = foldr cons_token ts r"

lemma prepend_simps [simp]:
  "prepend [] r = r" "prepend (t # ts) r = cons_token t (prepend ts r)"
  "prepend (ts @ us) r = prepend ts (prepend us r)"
  by (simp_all add: prepend_def)

lemma radix_hex: "d < 16 \<Longrightarrow> radix_digit (hex_digit d) = d"
  by (auto simp: radix_digit_def hex_digit_def char_code_char_of Let_def)

lemma char_of_code: "char_of (char_code c) = c"
  by (simp add: char_code_def)

lemma char_by_code: "char_code c = n \<Longrightarrow> c = char_of n"
  using char_of_code by metis

lemma control_chars:
  "char_of (8 :: nat) = CHR 0x08" "char_of (12 :: nat) = CHR 0x0C" "char_of (10 :: nat) = CHR 0x0A"
  "char_of (13 :: nat) = CHR 0x0D" "char_of (9 :: nat) = CHR 0x09"
  by code_simp+

lemma unescape_escaped:
  assumes "escape_char c = backslash # e"
  shows "unescape (e @ r) = Inr (c, r)"
proof -
  let ?n = "char_code c"
  have escape_sets: "char_code quote = 34" "char_code backslash = 92" by code_simp+
  consider (same) "c = quote \<or> c = backslash" | (b) "?n = 8" | (f) "?n = 12" | (nl) "?n = 10" | (r) "?n = 13"
    | (t) "?n = 9" | (u) "?n < 32" "\<not> (c = quote \<or> c = backslash)" "?n \<notin> {8, 9, 10, 12, 13}"
    | (plain) "\<not> ?n < 32" "\<not> (c = quote \<or> c = backslash)"
    by auto
  then show ?thesis
  proof cases
    case same
    then have "e = [c]" using assms by (auto simp: escape_char_def)
    then show ?thesis using same by (auto simp: unescape_def simple_escape_def)
  next
    case b
    then have "e = ''b''" using assms escape_sets by (auto simp: escape_char_def split: if_splits)
    then show ?thesis
      using char_by_code [OF b] by (simp add: unescape_def simple_escape_def quote_def backslash_def control_chars)
  next
    case f
    then have "e = ''f''" using assms escape_sets by (auto simp: escape_char_def split: if_splits)
    then show ?thesis
      using char_by_code [OF f] by (simp add: unescape_def simple_escape_def quote_def backslash_def control_chars)
  next
    case nl
    then have "e = ''n''" using assms escape_sets by (auto simp: escape_char_def split: if_splits)
    then show ?thesis
      using char_by_code [OF nl] by (simp add: unescape_def simple_escape_def quote_def backslash_def control_chars)
  next
    case r
    then have "e = ''r''" using assms escape_sets by (auto simp: escape_char_def split: if_splits)
    then show ?thesis
      using char_by_code [OF r] by (simp add: unescape_def simple_escape_def quote_def backslash_def control_chars)
  next
    case t
    then have "e = ''t''" using assms escape_sets by (auto simp: escape_char_def split: if_splits)
    then show ?thesis
      using char_by_code [OF t] by (simp add: unescape_def simple_escape_def quote_def backslash_def control_chars)
  next
    case u
    then have e: "e = ''u00'' @ [hex_digit (?n div 16), hex_digit (?n mod 16)]"
      using assms by (simp add: escape_char_def)
    have zero: "radix_digit (CHR ''0'') = 0" by code_simp
    have "radix_digit (hex_digit (?n div 16)) = ?n div 16" "radix_digit (hex_digit (?n mod 16)) = ?n mod 16"
      using u(1) by (simp_all add: radix_hex)
    then show ?thesis
      using u(1) by (simp add: e unescape_def simple_escape_def quote_def backslash_def zero Let_def char_of_code)
  next
    case plain
    then show ?thesis using assms by (auto simp: escape_char_def split: if_splits)
  qed
qed

lemma scan_escaped: "scan_string (escape_char c @ r) = cons_char c (scan_string r)"
proof (cases "\<exists>e. escape_char c = backslash # e")
  case True
  then obtain e where e: "escape_char c = backslash # e" by blast
  have "backslash \<noteq> quote" by code_simp
  then show ?thesis by (simp add: e unescape_escaped [OF e])
next
  case False
  then have "escape_char c = [c]" "c \<noteq> quote" "c \<noteq> backslash" "\<not> char_code c < 32"
    by (auto simp: escape_char_def split: if_splits)
  then show ?thesis by simp
qed

lemma scan_text: "scan_string (concat (map escape_char s) @ quote # r) = Inr (s, r)"
  by (induction s) (simp_all add: scan_escaped cons_char_def del: scan_string.simps(2), simp)

lemma lex_text: "lex (string_text s @ r) = cons_token (Val (JString s)) (lex r)"
  by (simp add: string_text_def quote_facts scan_text)

text \<open>White space between tokens.\<close>

lemma lex_space: "json_space c \<Longrightarrow> lex (c # r) = lex r"
  by simp

lemma lex_line_break: "lex (line_break n @ r) = lex r"
proof -
  have "json_space NL" "json_space (CHR '' '')" by code_simp+
  moreover have "lex (replicate n (CHR '' '') @ r) = lex r"
    using \<open>json_space (CHR '' '')\<close> by (induction n) (simp_all del: lex.simps add: lex_space)
  ultimately show ?thesis by (simp add: line_break_def lex_space del: lex.simps)
qed

text \<open>What may follow a number or a word.\<close>

definition ends_token :: "string \<Rightarrow> bool" where
  "ends_token r \<longleftrightarrow> r = [] \<or> (\<not> number_char (hd r) \<and> \<not> is_lower (hd r))"

lemma ends_token_simps:
  "ends_token []" "ends_token (CHR '','' # r)" "ends_token (CHR '']'' # r)" "ends_token (CHR ''}'' # r)"
  "ends_token (line_break n @ r)"
proof -
  have "\<not> number_char c \<and> \<not> is_lower c" if "c \<in> {CHR '','', CHR '']'', CHR ''}'', NL}" for c
    using that by (elim insertE emptyE; hypsubst; code_simp)
  then show "ends_token (CHR '','' # r)" "ends_token (CHR '']'' # r)" "ends_token (CHR ''}'' # r)"
    "ends_token (line_break n @ r)"
    by (simp_all add: ends_token_def line_break_def)
qed (simp add: ends_token_def)

lemma lex_int_end: "lex (int_string n) = Inr [Val (JNum (double_of_rat (of_int n)))]"
proof -
  obtain d ds where d: "int_string n = d # ds" using int_string_chars(1) by (cases "int_string n") auto
  have head: "d = CHR ''-'' \<or> is_digit d" "\<forall>c\<in>set (d # ds). number_char c"
    using int_string_chars(2,3) [of n] by (auto simp: d)
  have "\<not> json_space d \<and> punctuation d = None \<and> d \<noteq> quote"
    by (rule number_start [OF head(1)])
  moreover have "takeWhile number_char (d # ds) = int_string n" "dropWhile number_char ds = []"
    using head(2) by (simp_all add: d takeWhile_eq_all_conv dropWhile_eq_Nil_conv)
  moreover from this have "json_number (takeWhile number_char (d # ds)) = Inr (JNum (double_of_rat (of_int n)))"
    using json_number_int by simp
  ultimately show ?thesis
    using head(1) lex.simps(2) [of d ds] unfolding d
    by (simp only: sum.case option.case if_False if_True simp_thms lex.simps(1) cons_token_def)
qed

lemma lex_int_ends:
  assumes "ends_token r"
  shows "lex (int_string n @ r) = cons_token (Val (JNum (double_of_rat (of_int n)))) (lex r)"
proof (cases r)
  case Nil
  then show ?thesis by (simp add: lex_int_end cons_token_def)
next
  case (Cons c r')
  then show ?thesis using assms lex_int by (simp add: ends_token_def)
qed

lemma lex_word:
  assumes "ends_token r" "w \<in> {''null'', ''true'', ''false''}" "json_word w = Inr v"
  shows "lex (w @ r) = cons_token (Val v) (lex r)"
proof -
  obtain c cs where w: "w = c # cs" using assms(2) by (cases w) auto
  have start: "\<not> json_space x \<and> punctuation x = None \<and> x \<noteq> quote \<and> \<not> (x = CHR ''-'' \<or> is_digit x)"
    if "x \<in> {CHR ''n'', CHR ''t'', CHR ''f''}" for x
    using that by (elim insertE emptyE; hypsubst; code_simp)
  have c: "c \<in> {CHR ''n'', CHR ''t'', CHR ''f''}" using assms(2) w by auto
  have "\<forall>x\<in>set ''ulrealse''. is_lower x" by code_simp
  then have "\<forall>x\<in>set cs. is_lower x" using assms(2) w by auto
  then have "takeWhile is_lower (cs @ r) = cs" "dropWhile is_lower (cs @ r) = r"
    using assms(1) by (cases r; simp add: ends_token_def)+
  then show ?thesis
    using start [OF c] assms(3) lex.simps(2) [of c "cs @ r"]
    unfolding w append_Cons by (simp only: sum.case option.case if_False if_True simp_thms)
qed

section \<open>Lexing and parsing a document\<close>

text \<open>Items that lex to their tokens, between brackets.\<close>

lemma lex_items:
  assumes "items \<noteq> []" "length items = length tss"
    and "\<And>i r. i < length items \<Longrightarrow> ends_token r \<Longrightarrow> lex (items ! i @ r) = prepend (tss ! i) (lex r)"
    and "ends_token r"
  shows "lex (join (CHR '','' # line_break n) items @ r) = prepend (comma_join tss) (lex r)"
  using assms
proof (induction tss arbitrary: items rule: comma_join.induct)
  case (2 ts)
  then obtain item where "items = [item]" by (cases items) auto
  then show ?case using 2(3) [of 0 r] 2(4) by simp
next
  case (3 ts us tss)
  then obtain item rest where cons: "items = item # rest" "length rest = length (us # tss)"
    by (cases items) auto
  then have items: "items = item # rest" "rest \<noteq> []" "length rest = length (us # tss)" by auto
  have head: "lex (item @ r') = prepend ts (lex r')" if "ends_token r'" for r'
    using 3(4) [of 0 r'] that by (simp add: items)
  have tail: "lex (join (CHR '','' # line_break n) rest @ r) = prepend (comma_join (us # tss)) (lex r)"
    using 3(4) [of "Suc _"] 3(5) items by (intro 3(1)) (auto simp: items)
  have "join (CHR '','' # line_break n) items = item @ CHR '','' # line_break n @ join (CHR '','' # line_break n) rest"
    using items by (cases rest) simp_all
  then show ?case
    by (simp add: head ends_token_simps punctuation_facts lex_line_break tail del: lex.simps comma_join.simps(3))
      (simp add: comma_join.simps(3))
qed simp

lemma lex_bracketed:
  assumes "punctuation l = Some lt" "punctuation rc = Some rt" "\<not> json_space l" "\<not> json_space rc"
    and "ends_token (rc # r)" "length items = length tss"
    and "\<And>i r. i < length items \<Longrightarrow> ends_token r \<Longrightarrow> lex (items ! i @ r) = prepend (tss ! i) (lex r)"
  shows "lex (bracketed l rc n items @ r) = prepend (lt # comma_join tss @ [rt]) (lex r)"
proof (cases "items = []")
  case True
  then show ?thesis using assms(1-4,6) by (simp add: bracketed_def lex_punctuation del: lex.simps)
next
  case False
  have "lex (join (CHR '','' # line_break (n + 2)) items @ line_break n @ rc # r)
      = prepend (comma_join tss) (lex (line_break n @ rc # r))"
    by (rule lex_items [OF False assms(6,7) ends_token_simps(5)])
  then show ?thesis
    using False assms(1-4)
    by (simp add: bracketed_def lex_punctuation lex_line_break del: lex.simps)
qed

lemma bracket_facts:
  "punctuation (CHR ''['') = Some LBracket" "punctuation (CHR '']'') = Some RBracket"
  "punctuation (CHR ''{'') = Some LBrace" "punctuation (CHR ''}'') = Some RBrace"
  "\<not> json_space (CHR ''['')" "\<not> json_space (CHR '']'')" "\<not> json_space (CHR ''{'')" "\<not> json_space (CHR ''}'')"
  by code_simp+

lemma lex_doc:
  "ends_token r \<Longrightarrow> lex (doc_text d n @ r) = prepend (doc_tokens d) (lex r)"
proof (induction d arbitrary: n r)
  case DNull
  then show ?case using lex_word [of r "''null''" JNull] by (simp add: json_word_def)
next
  case (DBool b)
  then show ?case
    using lex_word [of r "''true''" "JBool True"] lex_word [of r "''false''" "JBool False"]
    by (cases b) (simp_all add: json_word_def)
next
  case (DInt i)
  then show ?case by (simp add: lex_int_ends)
next
  case (DText s)
  then show ?case by (simp add: lex_text)
next
  case (DList ds)
  show ?case
    unfolding doc_text.simps doc_tokens.simps
    by (rule lex_bracketed) (auto simp: bracket_facts ends_token_simps intro: DList.IH)
next
  case (DRec kvs)
  have "lex (string_text k @ '': '' @ doc_text v (n + 2) @ r')
      = prepend (Val (JString k) # Colon # doc_tokens v) (lex r')"
    if "(k, v) \<in> set kvs" "ends_token r'" for k v r'
  proof -
    have "json_space (CHR '' '')" by code_simp
    then show ?thesis
      using DRec.IH [of "(k, v)" v r' "n + 2"] that
      by (simp add: lex_text punctuation_facts lex_space del: lex.simps)
  qed
  then show ?case
    unfolding doc_text.simps doc_tokens.simps
    by (intro lex_bracketed) (auto simp: bracket_facts ends_token_simps in_set_conv_nth map_prod_def split: prod.splits)
qed

lemma tokens_start: "\<exists>t ts. doc_tokens d = t # ts \<and> t \<noteq> RBracket"
  by (cases d) auto

lemma first_element:
  "parse_tokens (FArray [] # stack, FirstElement) (doc_tokens d @ ts)
   = parse_tokens (FArray [] # stack, NeedValue) (doc_tokens d @ ts)"
proof -
  obtain t us where t: "doc_tokens d = t # us" "t \<noteq> RBracket" using tokens_start by blast
  then show ?thesis by (cases t) (simp_all add: start_value_def)
qed

lemma comma_join_Cons: "comma_join (ts # tss) = ts @ (if tss = [] then [] else Comma # comma_join tss)"
  by (cases tss) simp_all

lemma parse_elements:
  assumes "ds \<noteq> []"
    and "\<And>d stack ts. d \<in> set ds \<Longrightarrow> parse_tokens (stack, NeedValue) (doc_tokens d @ ts)
        = parse_tokens (stack, HaveValue (doc_json d)) ts"
  shows "parse_tokens (FArray vs # stack, NeedValue) (comma_join (map doc_tokens ds) @ RBracket # ts)
    = parse_tokens (stack, HaveValue (JArray (vs @ map doc_json ds))) ts"
  using assms
proof (induction ds arbitrary: vs)
  case (Cons d ds)
  show ?case
  proof (cases "ds = []")
    case True
    then show ?thesis using Cons.prems(2) by simp
  next
    case False
    have "parse_tokens (FArray (vs @ [doc_json d]) # stack, NeedValue) (comma_join (map doc_tokens ds) @ RBracket # ts)
        = parse_tokens (stack, HaveValue (JArray ((vs @ [doc_json d]) @ map doc_json ds))) ts"
      using False Cons.prems(2) by (intro Cons.IH) auto
    then show ?thesis
      using False Cons.prems(2) [of d] by (simp add: comma_join_Cons)
  qed
qed simp

definition member_tokens :: "string \<times> doc \<Rightarrow> token list" where
  "member_tokens kv = Val (JString (fst kv)) # Colon # doc_tokens (snd kv)"

lemma parse_members:
  assumes "kvs \<noteq> []" "phase = FirstKey \<or> phase = NeedKey" "distinct (map fst m @ map fst kvs)"
    and "\<And>kv stack ts. kv \<in> set kvs \<Longrightarrow> parse_tokens (stack, NeedValue) (doc_tokens (snd kv) @ ts)
        = parse_tokens (stack, HaveValue (doc_json (snd kv))) ts"
  shows "parse_tokens (FObject m # stack, phase) (comma_join (map member_tokens kvs) @ RBrace # ts)
    = parse_tokens (stack, HaveValue (JObject (m @ map (map_prod id doc_json) kvs))) ts"
  using assms
proof (induction kvs arbitrary: m phase)
  case (Cons kv kvs)
  obtain k d where kv: "kv = (k, d)" by (cases kv)
  have set: "map_set k v m = m @ [(k, v)]" for v
    using Cons.prems(3) update_fresh [of k m v] by (simp add: kv map_set_def)
  have item: "parse_tokens (stack', NeedValue) (doc_tokens d @ ts') = parse_tokens (stack', HaveValue (doc_json d)) ts'"
    for stack' ts'
    using Cons.prems(4) [of kv stack' ts'] by (simp add: kv)
  have step: "parse_tokens (FObject m # stack, phase) (member_tokens kv @ ts')
      = parse_tokens (FMember m k # stack, HaveValue (doc_json d)) ts'" for ts'
    using Cons.prems(2) by (auto simp: member_tokens_def kv item)
  show ?case
  proof (cases "kvs = []")
    case True
    then show ?thesis using step by (simp add: set kv id_def)
  next
    case False
    have "parse_tokens (FObject (m @ [(k, doc_json d)]) # stack, NeedKey) (comma_join (map member_tokens kvs) @ RBrace # ts)
        = parse_tokens (stack, HaveValue (JObject ((m @ [(k, doc_json d)]) @ map (map_prod id doc_json) kvs))) ts"
      using False Cons.prems(3,4) by (intro Cons.IH) (auto simp: kv)
    then show ?thesis
      using False step by (simp add: comma_join_Cons set kv id_def)
  qed
qed simp

lemma parse_doc:
  "doc_keys d \<Longrightarrow>
   parse_tokens (stack, NeedValue) (doc_tokens d @ ts) = parse_tokens (stack, HaveValue (doc_json d)) ts"
proof (induction d arbitrary: stack ts)
  case (DList ds)
  show ?case
  proof (cases ds)
    case Nil
    then show ?thesis by (simp add: start_value_def)
  next
    case (Cons d ds')
    have "parse_tokens (FArray [] # stack, NeedValue) (comma_join (map doc_tokens ds) @ RBracket # ts)
        = parse_tokens (stack, HaveValue (JArray ([] @ map doc_json ds))) ts"
      using DList Cons by (intro parse_elements) (auto simp: list_all_iff)
    moreover have "parse_tokens (FArray [] # stack, FirstElement) (comma_join (map doc_tokens ds) @ RBracket # ts)
        = parse_tokens (FArray [] # stack, NeedValue) (comma_join (map doc_tokens ds) @ RBracket # ts)"
      by (simp add: Cons comma_join_Cons first_element)
    ultimately show ?thesis by (simp add: start_value_def)
  qed
next
  case (DRec kvs)
  have tokens: "map (\<lambda>(k, ts). Val (JString k) # Colon # ts) (map (map_prod id doc_tokens) kvs) = map member_tokens kvs"
    by (auto simp: member_tokens_def map_prod_def split: prod.splits)
  show ?case
  proof (cases "kvs = []")
    case True
    then show ?thesis by (simp add: start_value_def map_empty_def)
  next
    case False
    have "parse_tokens (FObject [] # stack, FirstKey) (comma_join (map member_tokens kvs) @ RBrace # ts)
        = parse_tokens (stack, HaveValue (JObject ([] @ map (map_prod id doc_json) kvs))) ts"
      using False DRec by (intro parse_members) (force simp: list_all_iff)+
    then show ?thesis
      unfolding doc_tokens.simps tokens by (simp add: start_value_def map_empty_def)
  qed
qed (simp_all add: start_value_def)

lemma prepend_tokens: "prepend ts (Inr us) = Inr (ts @ us)"
  by (induction ts) (simp_all add: cons_token_def)

text \<open>A printed document, with white space around it, parses back to the document.\<close>

lemma stringify_parses:
  assumes "doc_keys d" "lex r = Inr []" "ends_token r"
  shows "json_parse (stringify d @ r) = Inr (doc_json d)"
  using lex_doc [OF assms(3), of d 0] parse_doc [OF assms(1), of "[]" "[]"] assms(2)
  by (simp add: json_parse_def stringify_def prepend_tokens)

end
