(* ===== verification/Templates.thy ===== *)
theory Templates
  imports JsonText
begin

text \<open>
  The two text templates of \<open>core/src/oracle/reproducer.ts\<close>, line by line. The only character outside
  ASCII, a dash in the README, is given as its three UTF-8 bytes: both files are written as UTF-8.
\<close>

definition apostrophe :: char where
  "apostrophe = CHR 0x27"

definition backtick :: char where
  "backtick = CHR 0x60"

definition terminated :: "string list \<Rightarrow> string" where
  "terminated lines = concat (map (\<lambda>line. line @ [NL]) lines)"

definition script_head :: "string list" where
  "script_head =
     [''#!/usr/bin/env bash'',
      ''# Replays one crash image through the target'' @ [apostrophe] @ ''s own recovery.'',
      ''#'',
      ''# Needs Linux, root for the loop device, and the environment this project'' @ [apostrophe] @ ''s'',
      ''# Requirements section documents: a Rust toolchain and /var/lib/crashfuzz'',
      ''# writable (vm/lima.yaml provisions both). Builds the query tool itself if'',
      ''# it is not already there:'',
      ''#'',
      ''#   CRASHFUZZ_REPO=/path/to/crashfuzz bash run.sh'',
      ''#'',
      ''# Nothing in this script enumerates or materializes anything. It mounts the'',
      ''# image that shipped with the finding and asks the target what it can read.'',
      ''set -euo pipefail'',
      '''',
      ''here='' @ [quote] @ ''$(cd '' @ [quote] @ ''$(dirname '' @ [quote] @ ''${BASH_SOURCE[0]}'' @ [quote] @ '')'' @ [quote] @ '' && pwd)'' @ [quote],
      ''repo='' @ [quote] @ ''${CRASHFUZZ_REPO:-$here/../../..}'' @ [quote],
      '''',
      ''# The query tool for the target this finding came from. Substituted when the'',
      ''# artifact was written, because asking a different target reports a confident'',
      ''# and false observation rather than failing visibly.'']"

definition script_body :: "string list" where
  "script_body =
     ['''',
      ''# A fresh clone has no build of the query tool at the path above. Build it'',
      ''# rather than fail: the '' @ [quote] @ ''reproduces on a machine you have not touched'' @ [quote] @ '' gate'',
      ''# means this artifact, not an already-built binary, is what has to be enough.'',
      ''if [[ -n '' @ [quote] @ ''$build'' @ [quote] @ '' ]] && [[ ! -x '' @ [quote] @ ''${query[0]}'' @ [quote] @ '' ]]; then'',
      ''  echo '' @ [quote] @ ''query tool not found at ${query[0]}, building it: $build'' @ [quote] @ '' >&2'',
      ''  eval '' @ [quote] @ ''$build'' @ [quote],
      ''fi'',
      '''',
      ''mnt='' @ [quote] @ ''$(mktemp -d)'' @ [quote],
      ''loop='' @ [quote] @ ''$(sudo losetup --find --show '' @ [quote] @ ''$here/state.img'' @ [quote] @ '')'' @ [quote],
      ''cleanup() {'',
      ''  sudo umount '' @ [quote] @ ''$mnt'' @ [quote] @ '' 2>/dev/null || true'',
      ''  sudo losetup --detach '' @ [quote] @ ''$loop'' @ [quote] @ '' 2>/dev/null || true'',
      ''  rmdir '' @ [quote] @ ''$mnt'' @ [quote] @ '' 2>/dev/null || true'',
      ''}'',
      ''trap cleanup EXIT'',
      '''',
      ''sudo mount '' @ [quote] @ ''$loop'' @ [quote] @ '' '' @ [quote] @ ''$mnt'' @ [quote],
      ''sudo chmod 0777 '' @ [quote] @ ''$mnt'' @ [quote],
      '''',
      ''echo '' @ [quote] @ ''--- expected ---'' @ [quote],
      ''sed -n '' @ [apostrophe] @ ''s/^  //p'' @ [apostrophe] @ '' '' @ [quote] @ ''$here/finding.json'' @ [quote] @ '' | grep -E '' @ [apostrophe] @ [quote] @ ''(key|expected|actual|violationClass)'' @ [quote] @ [apostrophe],
      ''echo '' @ [quote] @ ''--- observed now ---'' @ [quote]]"

definition RUN_SCRIPT :: string where
  "RUN_SCRIPT = terminated (script_head
     @ [''query=(__QUERY_COMMAND__)'',
      ''build='' @ [quote] @ ''__BUILD_COMMAND__'' @ [quote]]
     @ script_body @ [[quote] @ ''${query[@]}'' @ [quote] @ '' '' @ [quote] @ ''$mnt/__DB_NAME__'' @ [quote]])"

definition README :: string where
  "README = terminated
     [''# Crash-consistency finding'',
      '''',
      ''Generated by crashfuzz. Everything needed to see the behavior is in this'',
      ''directory; nothing here re-runs the enumeration.'',
      '''',
      ''| File | What it is |'',
      ''|---|---|'',
      ''| '' @ [backtick] @ ''state.img'' @ [backtick] @ '' | The crash image, a real __FILESYSTEM__ filesystem. Mount it and look. |'',
      ''| '' @ [backtick] @ ''trace-prefix.jsonl'' @ [backtick] @ '' | The target'' @ [apostrophe] @ ''s own syscalls up to the crash point, and nothing after. |'',
      ''| '' @ [backtick] @ ''finding.json'' @ [backtick] @ '' | The violation class, the key, what was expected and what came back. |'',
      ''| '' @ [backtick] @ ''run.sh'' @ [backtick] @ '' | Mounts the image and asks the target what it can read. |'',
      '''',
      ''## Running it'',
      '''',
      [backtick] @ [backtick] @ [backtick] @ ''bash'',
      ''CRASHFUZZ_REPO=/path/to/crashfuzz bash run.sh'',
      [backtick] @ [backtick] @ [backtick],
      '''',
      ''Requires Linux, a loop device, sudo for the mount, and the environment this'',
      ''project'' @ [apostrophe] @ ''s Requirements section documents (a Rust toolchain, /var/lib/crashfuzz'',
      ''writable '' @ [CHR 0xE2] @ [CHR 0x80] @ [CHR 0x94] @ '' '' @ [backtick] @ ''vm/lima.yaml'' @ [backtick] @ '' provisions both). If the query tool this finding'',
      ''was built against is not already there, the script builds it first.'',
      '''',
      ''## What the finding claims'',
      '''',
      ''__CLAIM__'',
      '''',
      ''The workload acknowledged this operation as durable before the crash point, at'',
      ''the settings recorded in '' @ [backtick] @ ''finding.json'' @ [backtick] @ ''. The image is one of the states the'',
      ''persistence model in '' @ [backtick] @ ''docs/model.md'' @ [backtick] @ '' says the filesystem could have been left'',
      ''in by a crash at that point.'']"

end
