(* ===== verification/Reproducer.thy ===== *)
theory Reproducer
  imports Templates Campaign Recover
begin

text \<open>
  \<open>core/src/oracle/reproducer.ts\<close>: a finding packaged as a directory with the image, the trace up to the
  crash point, the finding as JSON, a script and a README.
\<close>

record packaged_finding =
  pf_signature :: string
  pf_occurrences :: nat
  pf_state :: crash_state
  pf_imagePath :: string
  pf_violation :: violation

record reproducer_options =
  rp_outDir :: string
  rp_tracePath :: string
  rp_dbName :: string
  rp_filesystem :: filesystem
  rp_queryCommand :: string
  rp_buildCommand :: "string option"

section \<open>The trace prefix\<close>

fun prefix_loop :: "nat \<Rightarrow> string list \<times> nat \<Rightarrow> string list \<Rightarrow> string list result" where
  "prefix_loop crashPoint (kept, events) [] = Inr kept"
| "prefix_loop crashPoint (kept, events) (line # lines) =
     result_bind (json_parse line) (\<lambda>r.
     result_bind (has_rec ''event'' r) (\<lambda>event.
       if event
       then (if crashPoint < events then prefix_loop crashPoint (kept, events) lines
             else prefix_loop crashPoint (kept @ [line], events + 1) lines)
       else prefix_loop crashPoint (kept @ [line], events) lines))"

definition prefix_text :: "string \<Rightarrow> nat \<Rightarrow> string result" where
  "prefix_text text crashPoint =
     result_bind (prefix_loop crashPoint ([], 0) (filter (\<lambda>line. trim line \<noteq> []) (split_on NL text)))
       (\<lambda>kept. Inr (join [NL] kept @ [NL]))"

definition tracePrefix :: "segs \<Rightarrow> nat \<Rightarrow> (fs, string) io" where
  "tracePrefix tracePath crashPoint =
     io_bind (read_file tracePath) (\<lambda>bs s. (result_bind (utf8_text bs) (\<lambda>text. prefix_text text crashPoint), s))"

section \<open>Texts\<close>

definition escapeForDoubleQuotedShell :: "string \<Rightarrow> string" where
  "escapeForDoubleQuotedShell v =
     concat (map (\<lambda>c. if c = backslash \<or> c = quote \<or> c = backtick then [backslash, c] else [c]) v)"

text \<open>\<open>text.replace(pattern, () => value)\<close>: the first occurrence, the value taken as it is.\<close>

fun replace_first :: "string \<Rightarrow> string \<Rightarrow> string \<Rightarrow> string" where
  "replace_first pat val [] = []"
| "replace_first pat val (c # s) =
     (if starts_with pat (c # s) then val @ drop (length pat) (c # s) else c # replace_first pat val s)"

text \<open>
  \<open>text.replace(pattern, value)\<close> with a string: dollar patterns in the value stand for a dollar, the
  match, the text before it and the text after it.
\<close>

fun expand_dollars :: "string \<Rightarrow> string \<Rightarrow> string \<Rightarrow> string \<Rightarrow> string" where
  "expand_dollars before pat after (CHR ''$'' # d # r) =
     (if d = CHR ''$'' then CHR ''$'' # expand_dollars before pat after r
      else if d = CHR ''&'' then pat @ expand_dollars before pat after r
      else if d = backtick then before @ expand_dollars before pat after r
      else if d = apostrophe then after @ expand_dollars before pat after r
      else CHR ''$'' # expand_dollars before pat after (d # r))"
| "expand_dollars before pat after (c # r) = c # expand_dollars before pat after r"
| "expand_dollars before pat after [] = []"

fun split_first :: "string \<Rightarrow> string \<Rightarrow> (string \<times> string) option" where
  "split_first pat [] = None"
| "split_first pat (c # s) =
     (if starts_with pat (c # s) then Some ([], drop (length pat) (c # s))
      else map_option (\<lambda>(before, after). (c # before, after)) (split_first pat s))"

definition replace_string :: "string \<Rightarrow> string \<Rightarrow> string \<Rightarrow> string" where
  "replace_string pat val text =
     (case split_first pat text of
        None \<Rightarrow> text
      | Some (before, after) \<Rightarrow> before @ expand_dollars before pat after val @ after)"

text \<open>Code units below 256 as UTF-8, one character per byte.\<close>

definition utf8_char :: "char \<Rightarrow> string" where
  "utf8_char c = (let n = char_code c in
     if n < 128 then [c] else [char_of (192 + n div 64), char_of (128 + n mod 64)])"

definition utf8_encode :: "string \<Rightarrow> string" where
  "utf8_encode s = concat (map utf8_char s)"

definition byte_text :: "string \<Rightarrow> byte list" where
  "byte_text s = map (\<lambda>c. word_of_nat (char_code c)) s"

definition run_script :: "reproducer_options \<Rightarrow> string" where
  "run_script options =
     replace_first ''__DB_NAME__'' (rp_dbName options)
       (replace_first ''__BUILD_COMMAND__''
          (escapeForDoubleQuotedShell (case rp_buildCommand options of Some b \<Rightarrow> b | None \<Rightarrow> ''''))
          (replace_first ''__QUERY_COMMAND__'' (rp_queryCommand options) RUN_SCRIPT))"

definition claim_text :: "violation \<Rightarrow> string" where
  "claim_text v =
     (if vi_violationClass v = LOST_ACKED
      then ''Key '' @ [backtick] @ vi_key v @ [backtick] @ '' should read back with digest '' @ [backtick]
        @ vi_expected v @ [backtick] @ '' and instead reads '' @ [backtick] @ vi_actual v @ [backtick] @ ''.''
      else class_string (vi_violationClass v) @ '': '' @ vi_actual v)"

definition filesystem_name :: "filesystem \<Rightarrow> string" where
  "filesystem_name f = (case f of Ext4 \<Rightarrow> ''ext4'' | Xfs \<Rightarrow> ''xfs'' | Btrfs \<Rightarrow> ''btrfs'')"

text \<open>The README is replaced in its UTF-8 form; the patterns are ASCII.\<close>

definition readme_bytes :: "packaged_finding \<Rightarrow> reproducer_options \<Rightarrow> string" where
  "readme_bytes f options =
     replace_string ''__CLAIM__'' (utf8_encode (claim_text (pf_violation f)))
       (replace_string ''__FILESYSTEM__'' (filesystem_name (rp_filesystem options)) README)"

section \<open>The finding as JSON\<close>

definition state_doc :: "crash_state \<Rightarrow> doc" where
  "state_doc state = DRec
     [(''crashPoint'', DInt (int (cs_crashPoint state))),
      (''persisted'', DList (map (\<lambda>i. DInt (int i)) (cs_persisted state))),
      (''partial'', DList (map (\<lambda>p. DRec [(''op'', DInt (int (to_op p))), (''bytes'', DInt (int (to_bytes p)))])
         (cs_partial state)))]"

definition finding_doc :: "packaged_finding \<Rightarrow> reproducer_options \<Rightarrow> doc" where
  "finding_doc f options = DRec
     [(''signature'', DText (pf_signature f)),
      (''occurrences'', DInt (int (pf_occurrences f))),
      (''filesystem'', DText (filesystem_name (rp_filesystem options))),
      (''database'', DText (rp_dbName options)),
      (''violationClass'', DText (class_string (vi_violationClass (pf_violation f)))),
      (''key'', DText (vi_key (pf_violation f))),
      (''expected'', DText (vi_expected (pf_violation f))),
      (''actual'', DText (vi_actual (pf_violation f))),
      (''crashStamp'', DInt (vi_crashStamp (pf_violation f))),
      (''state'', state_doc (pf_state f))]"

definition finding_json :: "packaged_finding \<Rightarrow> reproducer_options \<Rightarrow> string" where
  "finding_json f options = stringify (finding_doc f options) @ [NL]"

section \<open>Writing\<close>

definition write_file :: "segs \<Rightarrow> byte list \<Rightarrow> (fs, unit) io" where
  "write_file p bs = io_bind (open_wplus p) (\<lambda>fd. io_finally (write_at fd bs 0) (close_fd fd))"

definition copy_file :: "segs \<Rightarrow> segs \<Rightarrow> (fs, unit) io" where
  "copy_file p q = io_bind (read_file p) (\<lambda>bs. write_file q bs)"

definition writeReproducer ::
    "string \<Rightarrow> packaged_finding \<Rightarrow> reproducer_options \<Rightarrow> (fs, string) io" where
  "writeReproducer cwd f options =
     (let out = (\<lambda>name. resolve cwd (path_join (rp_outDir options) name)) in
      io_seq (mkdirp (resolve cwd (rp_outDir options)))
      (io_seq (copy_file (resolve cwd (pf_imagePath f)) (out ''state.img''))
      (io_bind (tracePrefix (resolve cwd (rp_tracePath options)) (cs_crashPoint (pf_state f))) (\<lambda>prefix.
       io_seq (write_file (out ''trace-prefix.jsonl'') (byte_text (utf8_encode prefix)))
      (io_seq (write_file (out ''finding.json'') (byte_text (utf8_encode (finding_json f options))))
      (io_seq (write_file (out ''run.sh'') (byte_text (utf8_encode (run_script options))))
      (io_seq (write_file (out ''README.md'') (byte_text (readme_bytes f options)))
        (io_return (rp_outDir options)))))))))"

section \<open>The prefix of a clean trace\<close>

text \<open>Everything but the events after the first \<open>n\<close>, in file order.\<close>

fun cut_events :: "nat \<Rightarrow> log_record list \<Rightarrow> log_record list" where
  "cut_events n [] = []"
| "cut_events n (EventRec fl t e # rs) = (if n = 0 then cut_events 0 rs else EventRec fl t e # cut_events (n - 1) rs)"
| "cut_events n (r # rs) = r # cut_events n rs"

lemma cut_events_subset: "set (cut_events n rs) \<subseteq> set rs"
  by (induction n rs rule: cut_events.induct) auto

lemma cut_events_parts:
  "events_of (cut_events n rs) = take n (events_of rs)"
  "markers_of (cut_events n rs) = markers_of rs"
  "first_pid (cut_events n rs) = first_pid rs"
  by (induction n rs rule: cut_events.induct)
    (auto simp: events_of_def markers_of_def first_pid_def map_filter_simps take_Cons' split: list.splits)

lemma has_event_record: "has_rec ''event'' (record_json r) = Inr (case r of EventRec fl t e \<Rightarrow> True | _ \<Rightarrow> False)"
  by (cases r) (simp_all add: has_rec_def read_simps field_json_def)

lemma prefix_loop_records:
  assumes "\<forall>r\<in>set rs. clean_record r" "events \<le> Suc crashPoint"
  shows "prefix_loop crashPoint (kept, events) (map (\<lambda>r. record_line (record_fields r)) rs)
    = Inr (kept @ map (\<lambda>r. record_line (record_fields r)) (cut_events (Suc crashPoint - events) rs))"
  using assms
proof (induction rs arbitrary: kept events)
  case (Cons r rs)
  have "json_parse (record_line (record_fields r)) = Inr (record_json r)"
    using Cons.prems(1) by (simp add: json_parse_line)
  then show ?case
    using Cons by (cases r) (auto simp: has_event_record Suc_diff_le)
qed simp

lemma join_terminated: "ws \<noteq> [] \<Longrightarrow> join [c] ws @ [c] = concat (map (\<lambda>w. w @ [c]) ws)"
proof (induction ws)
  case (Cons w ws)
  then show ?case by (cases ws) simp_all
qed simp

lemma prefix_records:
  assumes "\<forall>r\<in>set rs. clean_record r" "rs \<noteq> []"
  shows "prefix_text (trace_text rs) crashPoint = Inr (trace_text (cut_events (Suc crashPoint) rs))"
proof -
  let ?lines = "map (\<lambda>r. record_line (record_fields r)) (cut_events (Suc crashPoint) rs)"
  have "cut_events (Suc crashPoint) rs \<noteq> []"
    using assms(2) by (cases rs rule: list.exhaust; cases "hd rs") auto
  then have "join [NL] ?lines @ [NL] = trace_text (cut_events (Suc crashPoint) rs)"
    by (simp add: join_terminated trace_text_def comp_def)
  then show ?thesis
    using prefix_loop_records [OF assms(1), of 0 crashPoint "[]"]
    by (simp add: prefix_text_def trace_lines [OF assms(1)])
qed

text \<open>C26: the packaged trace is the recorded one cut at the crash point. When the events were appended in
  the order of their stamps, reading the prefix gives the events up to and including the crash point
  and nothing after it, under the same header; every marker stays, also those after the crash.\<close>

theorem trace_prefix_exact:
  assumes "\<forall>r\<in>set rs. clean_record r" "first_pid rs = Some pid" "sorted (map ev_index (events_of rs))"
  shows "\<exists>text trace. prefix_text (trace_text rs) crashPoint = Inr text
    \<and> parseTrace (trace_text rs) = Inr trace
    \<and> parseTrace text = Inr (trace\<lparr>tr_events := take (Suc crashPoint) (tr_events trace)\<rparr>)"
proof -
  let ?cut = "cut_events (Suc crashPoint) rs"
  have "rs \<noteq> []" using assms(2) by (auto simp: first_pid_def map_filter_simps)
  moreover have "\<forall>r\<in>set ?cut. clean_record r" using assms(1) cut_events_subset by blast
  moreover have "sorted (map ev_index (take (Suc crashPoint) (events_of rs)))"
    using assms(3) by (metis sorted_wrt_take take_map)
  ultimately show ?thesis
    using assms prefix_records [OF assms(1)] read_records [of rs] read_records [of ?cut]
    by (simp add: cut_events_parts sort_key_id_if_sorted)
qed

definition ordered_records :: "log_record list" where
  "ordered_records =
     [HeaderRec 7, EventRec 0 0 (op_event CPwrite ''/d/log'' 3 0 1024 1024),
      EventRec 0 0 (op_event CFsync ''/d/log'' 5 (-1) 0 0),
      MarkerRec \<lparr>mk_index = 7, mk_threadId = 1, mk_text = ''op=1 phase=end''\<rparr>]"

lemma ordered_records_facts:
  "\<forall>r\<in>set ordered_records. clean_record r" "first_pid ordered_records = Some 7"
  "sorted (map ev_index (events_of ordered_records))"
proof -
  have "clean_text ''/d/log'' \<and> clean_text ''op=1 phase=end'' \<and> clean_text []" by code_simp
  then show "\<forall>r\<in>set ordered_records. clean_record r"
    by (simp add: ordered_records_def clean_record_def exact_def op_event_def)
qed (simp_all add: ordered_records_def first_pid_def events_of_def map_filter_simps op_event_def)

lemma trace_prefix_exact_witness:
  "\<exists>text trace. prefix_text (trace_text ordered_records) 0 = Inr text
    \<and> parseTrace text = Inr trace \<and> length (tr_events trace) = 1 \<and> length (tr_markers trace) = 1"
  using trace_prefix_exact [OF ordered_records_facts, of 0]
    read_records [OF ordered_records_facts(1)]
  by (auto simp: ordered_records_facts(2) events_of_def markers_of_def)
    (auto simp: ordered_records_def events_of_def markers_of_def map_filter_simps)

text \<open>
  Without that order the prefix is cut by the order of the file: here the fsync was appended before the
  write that was issued earlier, and the prefix at crash point 0 holds the fsync.
\<close>

lemma prefix_in_file_order:
  "events_of (cut_events (Suc 0) sample_records) = [op_event CFsync ''/d/log'' 5 (-1) 0 0]
   \<and> sort_key ev_index (events_of sample_records) ! 0 = op_event CPwrite ''/d/log'' 3 0 1024 1024"
  by (simp add: sample_records_def events_of_def map_filter_simps op_event_def)

section \<open>The finding as JSON\<close>





definition sample_package :: reproducer_options where
  "sample_package = \<lparr>rp_outDir = ''/f'', rp_tracePath = ''/t'', rp_dbName = ''main.redb'', rp_filesystem = Xfs,
     rp_queryCommand = ''/q/redb-query'', rp_buildCommand = Some (''make -C '' @ [quote] @ ''$repo'' @ [quote])\<rparr>"


section \<open>The script\<close>

text \<open>
  What bash makes of the text behind an opening double quote, under \<open>set -u\<close>; \<open>vars\<close> is the value of each
  set parameter. The closing quote ends it; a backslash quotes a dollar, a backtick, a double quote and a
  backslash, vanishes with a line break behind it, and is itself otherwise; \<open>$name\<close> and \<open>${name}\<close> stand for
  the parameter, and an unset one ends the script. The other expansions (command and arithmetic
  substitution, positional and special parameters, operators in braces) are not modelled: \<open>None\<close>.
\<close>

definition name_start :: "char \<Rightarrow> bool" where
  "name_start c \<longleftrightarrow> c = CHR ''_'' \<or> (CHR ''a'' \<le> c \<and> c \<le> CHR ''z'') \<or> (CHR ''A'' \<le> c \<and> c \<le> CHR ''Z'')"

definition name_char :: "char \<Rightarrow> bool" where
  "name_char c \<longleftrightarrow> name_start c \<or> is_digit c"

datatype dollar_word = LoneDollar | Parameter string string | OtherExpansion

definition after_dollar :: "string \<Rightarrow> dollar_word" where
  "after_dollar s =
     (case s of
        [] \<Rightarrow> LoneDollar
      | c # r \<Rightarrow>
          if name_start c then Parameter (takeWhile name_char s) (dropWhile name_char s)
          else if c = CHR ''{''
          then (if r \<noteq> [] \<and> name_start (hd r) \<and> starts_char (CHR ''}'') (dropWhile name_char r)
                then Parameter (takeWhile name_char r) (tl (dropWhile name_char r)) else OtherExpansion)
          else if is_digit c \<or> c \<in> set ''$([@*#?-!'' then OtherExpansion
          else LoneDollar)"

lemma after_dollar_shorter [termination_simp]:
  assumes "after_dollar s = Parameter name rest"
  shows "length rest < Suc (length s)"
proof -
  have "length (dropWhile P xs) < Suc (length xs)" for P and xs :: string
    by (simp add: less_Suc_eq_le length_dropWhile_le)
  moreover from this have "length (tl (dropWhile P xs)) < Suc (length xs)" for P and xs :: string
    using less_imp_diff_less by simp
  ultimately show ?thesis
    using assms by (auto simp: after_dollar_def less_SucI split: list.splits if_splits)
qed

fun double_quoted :: "(string \<Rightarrow> string option) \<Rightarrow> string \<Rightarrow> (string \<times> string) option" where
  "double_quoted vars [] = None"
| "double_quoted vars (c # r) =
     (if c = quote then Some ([], r)
      else if c = backtick then None
      else if c = backslash
      then (case r of
          [] \<Rightarrow> None
        | d # r' \<Rightarrow> map_option (apfst ((@) (if d \<in> {CHR ''$'', backtick, quote, backslash} then [d]
                                       else if d = NL then [] else [c, d]))) (double_quoted vars r'))
      else if c = CHR ''$''
      then (case after_dollar r of
          LoneDollar \<Rightarrow> map_option (apfst ((#) c)) (double_quoted vars r)
        | Parameter name rest \<Rightarrow>
            Option.bind (vars name) (\<lambda>v. map_option (apfst ((@) v)) (double_quoted vars rest))
        | OtherExpansion \<Rightarrow> None)
      else map_option (apfst ((#) c)) (double_quoted vars r))"

text \<open>A command with its parameters expanded, where nothing but the dollar is special.\<close>

fun expand_parameters :: "(string \<Rightarrow> string option) \<Rightarrow> string \<Rightarrow> string option" where
  "expand_parameters vars [] = Some []"
| "expand_parameters vars (c # r) =
     (if c = CHR ''$''
      then (case after_dollar r of
          LoneDollar \<Rightarrow> map_option ((#) c) (expand_parameters vars r)
        | Parameter name rest \<Rightarrow> Option.bind (vars name) (\<lambda>v. map_option ((@) v) (expand_parameters vars rest))
        | OtherExpansion \<Rightarrow> None)
      else map_option ((#) c) (expand_parameters vars r))"

lemma expand_no_dollar: "CHR ''$'' \<notin> set s \<Longrightarrow> expand_parameters vars s = Some s"
  by (induction s) auto

abbreviation shell_escape :: "string \<Rightarrow> string" where
  "shell_escape \<equiv> escapeForDoubleQuotedShell"

lemma shell_escape_simps [simp]:
  "shell_escape [] = []"
  "shell_escape (c # v) = (if c = backslash \<or> c = quote \<or> c = backtick then [backslash, c] else [c]) @ shell_escape v"
  by (simp_all add: escapeForDoubleQuotedShell_def)

lemma no_name_chars: "\<not> name_char backslash" "\<not> name_char quote" "\<not> name_char backtick"
  unfolding name_char_def name_start_def by code_simp+

lemma escape_name:
  "takeWhile name_char (shell_escape v @ quote # r) = takeWhile name_char v"
  "dropWhile name_char (shell_escape v @ quote # r) = shell_escape (dropWhile name_char v) @ quote # r"
  by (induction v) (auto simp: no_name_chars)

lemma after_dollar_escape:
  "after_dollar (shell_escape v @ quote # r)
   = (case after_dollar v of Parameter name rest \<Rightarrow> Parameter name (shell_escape rest @ quote # r) | w \<Rightarrow> w)"
proof (cases v)
  case Nil
  show ?thesis
    using no_name_chars
    by (simp add: Nil after_dollar_def name_char_def) (simp add: quote_def)
next
  case (Cons c w)
  consider (special) "c = backslash \<or> c = quote \<or> c = backtick" | (brace) "c = CHR ''{''"
    | (plain) "c \<noteq> backslash" "c \<noteq> quote" "c \<noteq> backtick" "c \<noteq> CHR ''{''"
    by blast
  then show ?thesis
  proof cases
    case special
    then have "after_dollar v = LoneDollar" "after_dollar (shell_escape v @ quote # r) = LoneDollar"
      using no_name_chars
      by (auto simp: Cons after_dollar_def name_char_def) (simp_all add: backslash_def quote_def backtick_def)
    then show ?thesis by simp
  next
    case brace
    have hd: "w \<noteq> [] \<and> name_start (hd w)
        \<longleftrightarrow> name_start (hd (shell_escape w @ quote # r))"
      using no_name_chars by (cases w) (auto simp: name_char_def)
    have close: "starts_char (CHR ''}'') (shell_escape u @ quote # r) \<longleftrightarrow> starts_char (CHR ''}'') u"
      "starts_char (CHR ''}'') u \<Longrightarrow> tl (shell_escape u @ quote # r) = shell_escape (tl u) @ quote # r" for u
      by (cases u; simp add: starts_char_def quote_def backslash_def backtick_def)+
    have escaped: "shell_escape v @ quote # r = CHR ''{'' # shell_escape w @ quote # r"
      by (simp add: Cons brace) (simp add: backslash_def quote_def backtick_def)
    have "\<not> name_start (CHR ''{'')" by code_simp
    then have "after_dollar (CHR ''{'' # u)
        = (if u \<noteq> [] \<and> name_start (hd u) \<and> starts_char (CHR ''}'') (dropWhile name_char u)
           then Parameter (takeWhile name_char u) (tl (dropWhile name_char u)) else OtherExpansion)" for u
      by (simp add: after_dollar_def)
    note brace_case = this
    have v: "v = CHR ''{'' # w" using Cons brace by simp
    show ?thesis
      unfolding escaped unfolding v brace_case escape_name close(1) hd [symmetric]
      using close(2) [of "dropWhile name_char w"] by simp
  next
    case plain
    then have escaped: "shell_escape v @ quote # r = c # shell_escape w @ quote # r" by (simp add: Cons)
    show ?thesis
      using plain escape_name [of v r]
      unfolding escaped by (auto simp: after_dollar_def Cons split: if_splits)
  qed
qed

lemma shell_quoting:
  "double_quoted vars (shell_escape v @ quote # r) = map_option (\<lambda>value. (value, r)) (expand_parameters vars v)"
proof (induction vars v rule: expand_parameters.induct)
  case (2 vars c v)
  have distinct: "backslash \<noteq> quote" "backslash \<noteq> backtick" "quote \<noteq> backtick" "CHR ''$'' \<noteq> quote"
    "CHR ''$'' \<noteq> backtick" "CHR ''$'' \<noteq> backslash" by code_simp+
  consider (special) "c = backslash \<or> c = quote \<or> c = backtick" | (dollar) "c = CHR ''$''"
    | (plain) "c \<noteq> backslash" "c \<noteq> quote" "c \<noteq> backtick" "c \<noteq> CHR ''$''"
    by blast
  then show ?case
  proof cases
    case special
    then show ?thesis using 2(3) distinct by (auto simp: option.map_comp comp_def)
  next
    case dollar
    show ?thesis
    proof (cases "after_dollar v")
      case LoneDollar
      then show ?thesis
        using 2(1) dollar distinct by (simp add: after_dollar_escape option.map_comp comp_def)
    next
      case (Parameter name rest)
      then show ?thesis
        using 2(2) dollar distinct
        by (cases "vars name") (simp_all add: after_dollar_escape option.map_comp comp_def)
    next
      case OtherExpansion
      then show ?thesis using dollar distinct by (simp add: after_dollar_escape)
    qed
  next
    case plain
    then show ?thesis using 2(3) by (simp add: option.map_comp comp_def)
  qed
qed simp

text \<open>Replacing the first occurrence when it is where it is expected.\<close>

fun no_double :: "string \<Rightarrow> bool" where
  "no_double (a # b # s) = (if a = CHR ''_'' then (if b = CHR ''_'' then False else no_double (b # s)) else no_double (b # s))"
| "no_double _ = True"

lemma starts_with_code [code]:
  "starts_with [] s = True" "starts_with (a # p) [] = False"
  "starts_with (a # p) (b # s) = (if a = b then starts_with p s else False)"
  by (auto simp: starts_with_def)

lemma replace_at:
  assumes "no_double (pre @ [x])" "x \<noteq> CHR ''_''" "starts_with ''__'' pat"
  shows "replace_first pat val (pre @ [x] @ pat @ post) = pre @ [x] @ val @ post"
proof -
  obtain p where pat: "pat = CHR ''_'' # CHR ''_'' # p"
    using assms(3) by (cases pat; cases "tl pat") (auto simp: starts_with_def)
  show ?thesis
    using assms(1)
  proof (induction pre)
    case Nil
    then show ?case using assms(2) by (simp add: pat starts_with_code) (simp add: starts_with_def)
  next
    case (Cons c pre)
    have "\<not> starts_with pat (c # pre @ [x] @ pat @ post)"
      using Cons.prems assms(2) by (cases pre) (auto simp: pat starts_with_code split: if_splits)
    moreover have "no_double (pre @ [x])"
      using Cons.prems by (cases pre) (auto split: if_splits)
    ultimately show ?case using Cons.IH by simp
  qed
qed

lemma no_double_append:
  "no_double (xs @ x # ys) \<longleftrightarrow> no_double (xs @ [x]) \<and> no_double (x # ys)"
  by (induction xs rule: no_double.induct) (auto split: if_splits)

lemma terminated_append: "terminated (xs @ ys) = terminated xs @ terminated ys"
  by (simp add: terminated_def)

lemma terminated_Cons: "terminated (line # lines) = line @ NL # terminated lines"
  by (simp add: terminated_def)

lemma NL_facts: "NL \<noteq> CHR ''_''" "no_double (NL # s) \<longleftrightarrow> no_double s"
proof -
  show "NL \<noteq> CHR ''_''" by code_simp
  then show "no_double (NL # s) \<longleftrightarrow> no_double s" by (cases s) simp_all
qed

lemma no_double_snoc: "x \<noteq> CHR ''_'' \<Longrightarrow> no_double (xs @ [x]) \<longleftrightarrow> no_double xs"
  by (induction xs rule: no_double.induct) auto

lemma no_double_break: "x \<noteq> CHR ''_'' \<Longrightarrow> no_double (xs @ x # ys) \<longleftrightarrow> no_double xs \<and> no_double ys"
proof -
  assume x: "x \<noteq> CHR ''_''"
  then have "no_double (x # ys) \<longleftrightarrow> no_double ys" by (cases ys) simp_all
  then show ?thesis using no_double_append [of xs x ys] no_double_snoc [OF x] by simp
qed

lemma no_double_Cons: "x \<noteq> CHR ''_'' \<Longrightarrow> no_double (x # s) \<longleftrightarrow> no_double s"
  by (cases s) simp_all

lemma no_double_terminated: "no_double (terminated lines) \<longleftrightarrow> list_all no_double lines"
  by (induction lines) (simp_all add: terminated_def no_double_break NL_facts)

lemma script_no_double: "no_double (terminated script_head)" "no_double (terminated script_body)"
  unfolding no_double_terminated script_head_def script_body_def
  by (simp_all add: quote_def apostrophe_def backtick_def)

lemma no_double_escape: "no_double v \<Longrightarrow> no_double (escapeForDoubleQuotedShell v)"
proof (induction v rule: no_double.induct)
  case (1 a b s)
  have facts: "backslash \<noteq> CHR ''_''" "quote \<noteq> CHR ''_''" "backtick \<noteq> CHR ''_''" by code_simp+
  have "escapeForDoubleQuotedShell (b # s) \<noteq> [] \<and> (hd (escapeForDoubleQuotedShell (b # s)) = CHR ''_'' \<longrightarrow> b = CHR ''_'')"
    using facts by (simp add: escapeForDoubleQuotedShell_def)
  then obtain x xs where x: "escapeForDoubleQuotedShell (b # s) = x # xs" "x = CHR ''_'' \<longrightarrow> b = CHR ''_''"
    by (cases "escapeForDoubleQuotedShell (b # s)") auto
  have "escapeForDoubleQuotedShell (a # b # s)
      = (if a = backslash \<or> a = quote \<or> a = backtick then [backslash, a] else [a]) @ x # xs"
    using x(1) by (simp add: escapeForDoubleQuotedShell_def)
  then show ?case using 1 x facts by (auto split: if_splits)
qed (auto simp: escapeForDoubleQuotedShell_def backslash_def quote_def backtick_def)

text \<open>C28: the script asks the target it was packaged for. For commands without a double underscore, the
  script is the template with the query command between the parentheses, the build command between
  double quotes, and the database name at the end. Of the quoted build command bash makes the command
  that was given with its \<open>$name\<close> and \<open>${name}\<close> parameters expanded, whatever their values, and every other
  character, quotes, backticks and backslashes included, as it was: a dollar is active also behind a
  backslash, so a command cannot carry a literal \<open>$name\<close>.\<close>

theorem run_script_commands:
  assumes "no_double (rp_queryCommand options)" "rp_buildCommand options = Some build" "no_double build"
  shows "\<exists>rest.
    run_script options = terminated script_head @ ''query=('' @ rp_queryCommand options @ '')'' @ [NL]
      @ ''build='' @ [quote] @ escapeForDoubleQuotedShell build @ [quote] @ rest
    \<and> rest = NL # terminated script_body @ [quote] @ ''${query[@]}'' @ [quote] @ '' '' @ [quote] @ ''$mnt/''
      @ rp_dbName options @ [quote, NL]
    \<and> double_quoted vars (escapeForDoubleQuotedShell build @ [quote] @ rest)
      = map_option (\<lambda>value. (value, rest)) (expand_parameters vars build)"
proof -
  let ?q = "rp_queryCommand options" and ?b = "escapeForDoubleQuotedShell build" and ?d = "rp_dbName options"
  let ?body = "terminated script_body" and ?ask = "[quote] @ ''${query[@]}'' @ [quote] @ '' '' @ [quote] @ ''$mnt''"
  have quote: "quote \<noteq> CHR ''_''" by code_simp
  have RUN: "RUN_SCRIPT = (terminated script_head @ ''query='') @ [CHR ''(''] @ ''__QUERY_COMMAND__''
      @ '')'' @ NL # ''build='' @ [quote] @ ''__BUILD_COMMAND__'' @ [quote] @ NL # ?body @ ?ask @ ''/'' @ ''__DB_NAME__'' @ [quote, NL]"
    by (simp add: RUN_SCRIPT_def terminated_append terminated_Cons) (simp add: terminated_def)
  have one: "replace_first ''__QUERY_COMMAND__'' ?q RUN_SCRIPT
      = (terminated script_head @ ''query=('' @ ?q @ '')'' @ NL # ''build='') @ [quote] @ ''__BUILD_COMMAND__''
        @ [quote] @ NL # ?body @ ?ask @ ''/'' @ ''__DB_NAME__'' @ [quote, NL]"
    unfolding RUN by (subst replace_at)
      (simp_all add: no_double_break no_double_snoc script_no_double starts_with_code)
  have two: "replace_first ''__BUILD_COMMAND__'' ?b (replace_first ''__QUERY_COMMAND__'' ?q RUN_SCRIPT)
      = (terminated script_head @ ''query=('' @ ?q @ '')'' @ NL # ''build='' @ [quote] @ ?b @ [quote] @ NL # ?body @ ?ask)
        @ [CHR ''/''] @ ''__DB_NAME__'' @ [quote, NL]"
    unfolding one using assms(1) quote
    by (subst replace_at)
      (simp_all add: no_double_break no_double_snoc script_no_double starts_with_code NL_facts no_double_Cons)
  have three: "run_script options
      = (terminated script_head @ ''query=('' @ ?q @ '')'' @ NL # ''build='' @ [quote] @ ?b @ [quote] @ NL # ?body @ ?ask)
        @ [CHR ''/''] @ ?d @ [quote, NL]"
    unfolding run_script_def assms(2) option.case two using assms(1,3) quote no_double_escape [OF assms(3)]
    by (subst replace_at)
      (simp_all add: no_double_break no_double_snoc script_no_double starts_with_code NL_facts no_double_Cons)
  show ?thesis
    by (intro exI [of _ "NL # ?body @ ?ask @ ''/'' @ ?d @ [quote, NL]"]) (simp add: three shell_quoting)
qed

text \<open>With \<open>repo\<close> set, \<open>make -C "$repo"\<close> is built in that directory.\<close>

lemma run_script_commands_witness:
  "\<exists>start script rest. run_script sample_package = start @ script
     \<and> double_quoted [''repo'' \<mapsto> ''/srv/fuzz''] script = Some (''make -C '' @ [quote] @ ''/srv/fuzz'' @ [quote], rest)"
proof -
  let ?build = "''make -C '' @ [quote] @ ''$repo'' @ [quote]" and ?vars = "[''repo'' \<mapsto> ''/srv/fuzz'']"
  have "no_double ?build" "no_double (rp_queryCommand sample_package)"
    by (simp_all add: quote_def sample_package_def)
  moreover have "rp_buildCommand sample_package = Some ?build" "rp_dbName sample_package = ''main.redb''"
    by (simp_all add: sample_package_def)
  ultimately obtain rest where rest: "run_script sample_package
      = (terminated script_head @ ''query=('' @ rp_queryCommand sample_package @ '')'' @ [NL]
         @ ''build='' @ [quote]) @ escapeForDoubleQuotedShell ?build @ [quote] @ rest"
    "rest = NL # terminated script_body @ [quote] @ ''${query[@]}'' @ [quote] @ '' '' @ [quote] @ ''$mnt/''
      @ ''main.redb'' @ [quote, NL]"
    "double_quoted ?vars (escapeForDoubleQuotedShell ?build @ [quote] @ rest)
      = map_option (\<lambda>value. (value, rest)) (expand_parameters ?vars ?build)"
    using run_script_commands [of sample_package ?build ?vars] by auto
  have expanded: "expand_parameters ?vars ?build = Some (''make -C '' @ [quote] @ ''/srv/fuzz'' @ [quote])"
    by code_simp
  have read: "double_quoted ?vars (escapeForDoubleQuotedShell ?build @ [quote] @ rest)
      = Some (''make -C '' @ [quote] @ ''/srv/fuzz'' @ [quote], rest)"
    unfolding rest(3) expanded option.map ..
  show ?thesis
  proof (intro exI conjI)
    show "run_script sample_package
        = (terminated script_head @ ''query=('' @ rp_queryCommand sample_package @ '')'' @ [NL] @ ''build='' @ [quote])
          @ escapeForDoubleQuotedShell ?build @ [quote] @ rest"
      by (rule rest(1))
  qed (rule read)
qed

text \<open>A backslash does not protect a dollar from the script: \<open>echo \$HOME\<close> arrives as \<open>echo \/root\<close>.\<close>

lemma escaped_dollar_expanded:
  "double_quoted [''HOME'' \<mapsto> ''/root''] (escapeForDoubleQuotedShell (''echo '' @ [backslash] @ ''$HOME'') @ [quote] @ rest)
   = Some (''echo '' @ [backslash] @ ''/root'', rest)"
proof -
  have "expand_parameters [''HOME'' \<mapsto> ''/root''] (''echo '' @ [backslash] @ ''$HOME'') = Some (''echo '' @ [backslash] @ ''/root'')"
    by code_simp
  then show ?thesis
    using shell_quoting [of _ _ rest] by (simp only: append.simps option.map)
qed

text \<open>
  The README is filled with dollar patterns active: a key that ends with a dollar, whose closing
  backtick completes the pattern for the text before the match, pulls that text into the claim.
\<close>

lemma claim_dollar_pattern:
  "replace_string ''__CLAIM__'' (''Key '' @ [backtick] @ ''k$'' @ [backtick] @ '' lost'') ''# Title __CLAIM__ end''
   = ''# Title Key '' @ [backtick] @ ''k# Title  lost end''"
  by code_simp

end
