(* ===== verification/Driver.thy ===== *)
theory Driver
  imports Console Sweep Reproducer
begin

text \<open>
  \<open>core/tools/campaign-run.ts\<close>: the sweep driver. One trace is captured per workload shape, every file
  system of the plan is run on it, and the rows, the results table and one package per finding are
  written. \<open>repoRoot\<close> is derived by the code from its own location; \<open>nanoseconds\<close> is the clock.
\<close>

definition SHIM_SO :: "string \<Rightarrow> string" where
  "SHIM_SO repoRoot = path_join_all repoRoot [''shim'', ''build'', ''shim.so'']"

definition SCRATCH :: string where
  "SCRATCH = ''/var/lib/crashfuzz''"

definition DB_NAME :: string where
  "DB_NAME = ''main.redb''"

definition redbQueryAndBuildCommand :: "string \<times> string" where
  "redbQueryAndBuildCommand =
     (redbBinary ''redb-query'',
      ''CARGO_TARGET_DIR=/var/lib/crashfuzz/cargo-target cargo build --release --manifest-path '' @ [quote]
      @ ''$repo/targets/redb-workload/Cargo.toml'' @ [quote])"

section \<open>Capturing a trace\<close>

record capture_paths =
  cp_liveDir :: string
  cp_casDir :: string
  cp_tracePath :: string

definition captureTrace ::
    "'o env \<Rightarrow> string \<Rightarrow> string \<Rightarrow> int \<Rightarrow> string \<Rightarrow> ('o world, capture_paths) io" where
  "captureTrace env repoRoot shape operations workdir =
     io_bind (mkdtemp env (path_join workdir (''live-'' @ shape @ ''-''))) (\<lambda>liveDir.
     io_bind (mkdtemp env (path_join workdir (''trace-'' @ shape @ ''-''))) (\<lambda>traceDir.
     io_bind (spawn_with env [(''LD_PRELOAD'', SHIM_SO repoRoot), (''CRASHFUZZ_TRACE_DIR'', traceDir)]
         [redbBinary ''redb-workload'', path_join liveDir DB_NAME, path_join liveDir ''crashfuzz.marker'',
          int_string operations, shape]) (\<lambda>p.
       if pr_exit p \<noteq> 0
       then io_throw (Error (''workload '' @ shape @ '' exited '' @ int_string (pr_exit p) @ '': '' @ pr_stderr p))
       else io_return \<lparr>cp_liveDir = liveDir, cp_casDir = path_join traceDir ''cas'',
              cp_tracePath = path_join traceDir (''trace-'' @ int_string (pr_pid p) @ ''.jsonl'')\<rparr>)))"

section \<open>One combination of the plan\<close>

text \<open>\<open>signature.replace(/[^a-zA-Z0-9]+/g, '-')\<close>: runs of other characters become one dash.\<close>

definition alphanumeric :: "char \<Rightarrow> bool" where
  "alphanumeric c \<longleftrightarrow> is_digit c \<or> is_lower c \<or> (65 \<le> char_code c \<and> char_code c \<le> 90)"

fun slug :: "string \<Rightarrow> string" where
  "slug [] = []"
| "slug (c # s) =
     (if alphanumeric c then c # slug s
      else (case s of
          d # _ \<Rightarrow> if alphanumeric d then CHR ''-'' # slug s else slug s
        | [] \<Rightarrow> ''-''))"

definition package_of :: "finding \<Rightarrow> packaged_finding" where
  "package_of f = \<lparr>pf_signature = fi_signature f, pf_occurrences = fi_occurrences f, pf_state = fi_state f,
     pf_imagePath = fi_imagePath f, pf_violation = fi_violation f\<rparr>"

definition run_name :: "sweep_run \<Rightarrow> string" where
  "run_name item = sc_name (sr_config item) @ ''-'' @ shape_string (sr_shape item)"

definition package_options :: "string \<Rightarrow> sweep_run \<Rightarrow> capture_paths \<Rightarrow> finding \<Rightarrow> reproducer_options" where
  "package_options findingsRoot item captured f =
     \<lparr>rp_outDir = path_join findingsRoot (run_name item @ ''-'' @ slug (fi_signature f)),
      rp_tracePath = cp_tracePath captured, rp_dbName = DB_NAME, rp_filesystem = sc_filesystem (sr_config item),
      rp_queryCommand = fst redbQueryAndBuildCommand, rp_buildCommand = Some (snd redbQueryAndBuildCommand)\<rparr>"

definition run_options ::
    "'o env \<Rightarrow> string \<Rightarrow> int \<Rightarrow> sweep_run \<Rightarrow> capture_paths \<Rightarrow> 'o campaign_options" where
  "run_options env workdir seed item captured =
     \<lparr>co_tracePath = cp_tracePath captured, co_casDir = cp_casDir captured, co_rootDir = cp_liveDir captured,
      co_imageDir = path_join workdir (''img-'' @ run_name item), co_dbName = DB_NAME,
      co_model = sc_model (sr_config item), co_filesystem = sc_filesystem (sr_config item),
      co_mountOptions = sc_mountOptions (sr_config item), co_seed = seed,
      co_recover = (\<lambda>mountDir. recoverRedb env (path_join mountDir DB_NAME))\<rparr>"

definition row_of :: "sweep_run \<Rightarrow> campaign_result \<Rightarrow> sweep_row" where
  "row_of item result =
     \<lparr>rw_configName = sc_name (sr_config item), rw_filesystem = filesystem_name (sc_filesystem (sr_config item)),
      rw_mountOptions = sc_mountOptions (sr_config item), rw_shape = shape_string (sr_shape item),
      rw_crashPointsTested = cr_crashPointsTested result, rw_statesTested = cr_statesTested result,
      rw_findings = map (\<lambda>f. \<lparr>fc_signature = fi_signature f, fc_count = fi_occurrences f\<rparr>) (cr_findings result)\<rparr>"

definition progress_line :: "sweep_run \<Rightarrow> campaign_result \<Rightarrow> string" where
  "progress_line item result =
     pad_end 13 (sc_name (sr_config item)) @ '' '' @ pad_end 11 (shape_string (sr_shape item)) @ '' states=''
     @ pad_start 5 (CHR '' '') (nat_string (cr_statesTested result)) @ '' findings=''
     @ nat_string (length (cr_findings result))"

text \<open>The body of the loop over the plan: the traces captured so far and the rows.\<close>

definition sweep_step ::
    "'o env \<Rightarrow> string \<Rightarrow> segs \<Rightarrow> int \<Rightarrow> int \<Rightarrow> string \<Rightarrow> string \<Rightarrow> sweep_run
     \<Rightarrow> (shape, capture_paths) js_map \<times> sweep_row list
     \<Rightarrow> ('o world terminal, (shape, capture_paths) js_map \<times> sweep_row list) io" where
  "sweep_step env repoRoot boundsPath operations seed workdir findingsRoot item acc =
     (case acc of (traces, rows) \<Rightarrow>
        io_bind
          (case map_get traces (sr_shape item) of
             Some captured \<Rightarrow> io_return (traces, captured)
           | None \<Rightarrow> io_bind (quietly (captureTrace env repoRoot (shape_string (sr_shape item)) operations workdir))
               (\<lambda>captured. io_return (map_set (sr_shape item) captured traces, captured)))
          (\<lambda>(traces', captured).
        io_bind (quietly (runCampaign env boundsPath (run_options env workdir seed item captured))) (\<lambda>result.
        io_seq (io_each (\<lambda>f. io_bind (quietly (on_fs (writeReproducer (en_cwd env) (package_of f)
                    (package_options findingsRoot item captured f)))) (\<lambda>_. io_return ())) (cr_findings result))
        (io_seq (console_log (progress_line item result))
          (io_return (traces', rows @ [row_of item result]))))))"

section \<open>The outputs\<close>

definition csv_row :: "sweep_row \<Rightarrow> string" where
  "csv_row row =
     rw_filesystem row @ '','' @ (case rw_mountOptions row of Some o' \<Rightarrow> o' | None \<Rightarrow> ''default'') @ '',''
     @ rw_shape row @ '','' @ nat_string (rw_crashPointsTested row) @ '','' @ nat_string (rw_statesTested row)
     @ '','' @ nat_string (length (rw_findings row))"

definition campaign_csv :: "sweep_row list \<Rightarrow> string" where
  "campaign_csv rows =
     join [NL] (''filesystem,mount_options,shape,crash_points,states,findings'' # map csv_row rows)"

definition distinct_signatures :: "sweep_row list \<Rightarrow> string list" where
  "distinct_signatures rows = set_of_list (concat (map (\<lambda>row. map fc_signature (rw_findings row)) rows))"

definition signature_lines :: "string list \<Rightarrow> string" where
  "signature_lines signatures =
     (if length signatures = 0
      then ''None. Every state the sweep tested recovered within the contract in '' @ [backtick] @ ''docs/model.md'' @ [backtick] @ ''.''
      else join [NL] (map (\<lambda>signature. ''- '' @ [backtick] @ signature @ [backtick]) signatures))"

definition results_document :: "int \<Rightarrow> int \<Rightarrow> int \<Rightarrow> sweep_row list \<Rightarrow> string" where
  "results_document operations seed elapsedSeconds rows =
     join [NL]
       [''# Campaign results'', '''',
        ''> Generated by '' @ [backtick] @ ''bun run campaign'' @ [backtick] @ ''. Regenerate rather than edit.'', '''',
        ''Primary target: redb. Operations per workload: '' @ int_string operations @ ''. Seed: '' @ int_string seed @ ''.'',
        ''Wall clock: '' @ int_string elapsedSeconds @ ''s.'', '''',
        ''Bounds are in '' @ [backtick] @ ''core/src/enumerate/bounds.jsonc'' @ [backtick] @ ''; what this run did not cover is in'',
        [backtick] @ ''docs/coverage.md'' @ [backtick] @ ''.'', '''',
        resultsTable rows, '''', ''## Distinct finding signatures'', '''',
        signature_lines (distinct_signatures rows), '''']"

text \<open>\<open>Number(argv[n] ?? default)\<close>; a number that is not an integer is outside the model.\<close>

definition number_argument :: "string list \<Rightarrow> nat \<Rightarrow> int \<Rightarrow> int result" where
  "number_argument argv n otherwise =
     (if n < length argv
      then (case js_number (argv ! n) of
          Some r \<Rightarrow> if of_int \<lfloor>r\<rfloor> = r then Inr \<lfloor>r\<rfloor> else Inl IllTyped
        | None \<Rightarrow> Inl IllTyped)
      else Inr otherwise)"

text \<open>\<open>(seconds).toFixed(0)\<close>: the nearest integer, upwards in the middle.\<close>

definition whole_seconds :: "int \<Rightarrow> int" where
  "whole_seconds ns = \<lfloor>Fract ns 1000000000 + 1 / 2\<rfloor>"

definition write_text :: "string \<Rightarrow> string \<Rightarrow> string \<Rightarrow> (fs, unit) io" where
  "write_text cwd path text = write_file (resolve cwd path) (byte_text (utf8_encode text))"

definition driver_main ::
    "'o env \<Rightarrow> ('o world \<Rightarrow> int) \<Rightarrow> string \<Rightarrow> segs \<Rightarrow> string list \<Rightarrow> ('o world terminal, nat) io" where
  "driver_main env nanoseconds repoRoot boundsPath argv =
     io_bind (io_result (number_argument argv 2 8)) (\<lambda>operations.
     io_bind (io_result (number_argument argv 3 1)) (\<lambda>seed.
     io_bind (quietly (spawnSync env [''make'', ''-C'', path_join repoRoot ''shim''])) (\<lambda>make.
     if pr_exit make \<noteq> 0 then io_throw (Error ''building shim failed'') else
     io_seq (quietly (buildRedbWorkload env repoRoot))
     (io_bind (quietly (mkdtemp env (path_join_all SCRATCH [''images'', ''campaign-'']))) (\<lambda>workdir.
     let findingsRoot = path_join SCRATCH ''findings''; cwd = en_cwd env in
     io_seq (quietly (on_fs (rm_tree (resolve cwd findingsRoot))))
     (io_seq (quietly (on_fs (mkdirp (resolve cwd findingsRoot))))
     (io_bind (\<lambda>t. (Inr (nanoseconds (fst t)), t)) (\<lambda>started.
      io_bind (io_fold (sweep_step env repoRoot boundsPath operations seed workdir findingsRoot)
                 (map_empty, []) sweepPlan) (\<lambda>(traces, rows).
      io_bind (\<lambda>t. (Inr (whole_seconds (nanoseconds (fst t) - started)), t)) (\<lambda>elapsedSeconds.
      io_seq (quietly (on_fs (mkdirp (resolve cwd (path_join_all repoRoot [''plots'', ''data''])))))
      (io_seq (quietly (on_fs (write_text cwd (path_join_all repoRoot [''plots'', ''data'', ''campaign.csv''])
                 (campaign_csv rows @ [NL]))))
      (io_seq (quietly (on_fs (write_text cwd (path_join_all repoRoot [''docs'', ''results.md''])
                 (results_document operations seed elapsedSeconds rows))))
      (io_seq (console_log (NL # nat_string (total_states rows) @ '' states, '' @ nat_string (total_findings rows)
                 @ '' findings, '' @ int_string elapsedSeconds @ ''s''))
      (io_seq (console_log ''wrote docs/results.md and plots/data/campaign.csv'')
        (io_return 0)))))))))))))))"

section \<open>The rows follow the plan\<close>

lemma sweep_step_returns:
  assumes "sweep_step env repoRoot boundsPath operations seed workdir findingsRoot item (traces, rows) t
    = (Inr (traces', rows'), t')"
  shows "\<exists>result. rows' = rows @ [row_of item result]"
    "map fst traces' = (if map_has traces (sr_shape item) then map fst traces else map fst traces @ [sr_shape item])"
proof -
  show "\<exists>result. rows' = rows @ [row_of item result]"
    using assms by (auto simp: sweep_step_def io_bind_Inr_iff io_seq_Inr_iff io_return_def)
  show "map fst traces' = (if map_has traces (sr_shape item) then map fst traces else map fst traces @ [sr_shape item])"
  proof (cases "map_get traces (sr_shape item)")
    case None
    then have "sr_shape item \<notin> set (map fst traces)"
      by (auto simp: map_get_def map_of_eq_None_iff)
    then show ?thesis
      using assms None
      by (auto simp: sweep_step_def io_bind_Inr_iff io_seq_Inr_iff io_return_def map_has_def map_set_def update_fresh)
  next
    case (Some captured)
    then show ?thesis
      using assms by (auto simp: sweep_step_def io_bind_Inr_iff io_seq_Inr_iff io_return_def map_has_def)
  qed
qed

definition row_of_run :: "sweep_row \<Rightarrow> sweep_run \<Rightarrow> bool" where
  "row_of_run row item \<longleftrightarrow> (\<exists>result. row = row_of item result)"

lemma sweep_fold_returns:
  assumes "io_fold (sweep_step env repoRoot boundsPath operations seed workdir findingsRoot) (traces, rows) items t
    = (Inr (traces', rows'), t')"
  shows "\<exists>new. rows' = rows @ new \<and> list_all2 row_of_run new items"
  using assms
proof (induction items arbitrary: traces rows t)
  case Nil
  then show ?case by (simp add: io_return_def)
next
  case (Cons item items)
  obtain tr1 r1 t1 where one: "sweep_step env repoRoot boundsPath operations seed workdir findingsRoot item (traces, rows) t
      = (Inr (tr1, r1), t1)"
    and rest: "io_fold (sweep_step env repoRoot boundsPath operations seed workdir findingsRoot) (tr1, r1) items t1
      = (Inr (traces', rows'), t')"
    using Cons.prems by (auto simp: io_bind_Inr_iff)
  obtain result where "r1 = rows @ [row_of item result]" using sweep_step_returns(1) [OF one] by blast
  moreover obtain new where "rows' = r1 @ new" "list_all2 row_of_run new items" using Cons.IH [OF rest] by blast
  moreover have "row_of_run (row_of item result) item" by (auto simp: row_of_run_def)
  ultimately show ?case
    by (intro exI [of _ "row_of item result # new"]) simp
qed

text \<open>A sweep that completes has one row per combination, in the order of the plan.\<close>

lemma sweep_rows:
  assumes "io_fold (sweep_step env repoRoot boundsPath operations seed workdir findingsRoot) (map_empty, []) sweepPlan t
    = (Inr (traces, rows), t')"
  shows "list_all2 row_of_run rows sweepPlan \<and> length rows = 20"
proof -
  have "list_all2 row_of_run rows sweepPlan"
    using sweep_fold_returns [OF assms] by simp
  then show ?thesis
    using sweep_plan_complete by (auto dest: list_all2_lengthD)
qed

text \<open>The commands the driver packages meet the condition of the script: no double underscore.\<close>

lemma packaged_commands: "no_double (fst redbQueryAndBuildCommand)" "no_double (snd redbQueryAndBuildCommand)"
  by code_simp+

end
