(* ===== verification/Experiment.thy ===== *)
theory Experiment
  imports Console Image Bounds Reproducer
begin

text \<open>
  \<open>core/tools/ftruncate-vs-overwrite.ts\<close>: the experiment on a real ext4 whether an overwrite can reach
  the disk while an earlier growth of the same file does not. The kernel is the parameter \<open>en_spawn\<close>,
  so the model fixes the protocol and the judgement, not the outcome. The lines printed so far are kept
  beside the machine: a message inside a mount is printed even when a later step fails.
\<close>

definition DIRTY_EXPIRE_PATH :: string where
  "DIRTY_EXPIRE_PATH = ''/proc/sys/vm/dirty_expire_centisecs''"

definition DIRTY_WRITEBACK_PATH :: string where
  "DIRTY_WRITEBACK_PATH = ''/proc/sys/vm/dirty_writeback_centisecs''"

definition WORK_DIR :: string where
  "WORK_DIR = ''/var/lib/crashfuzz/exp/ftruncate-vs-overwrite''"

definition EXPERIMENT_IMAGE_BYTES :: int where
  "EXPERIMENT_IMAGE_BYTES = 64 * 1024 * 1024"

definition BASE_LEN :: nat where
  "BASE_LEN = 8 * 1024 * 1024"

definition GROWN_LEN :: nat where
  "GROWN_LEN = 16 * 1024 * 1024"

definition HEADER_LEN :: nat where
  "HEADER_LEN = 320"

definition WRITEBACK_WAIT_MS :: rat where
  "WRITEBACK_WAIT_MS = 45000"

definition NEW_BYTE :: byte where
  "NEW_BYTE = 0x4e"

definition OLD_BYTE :: byte where
  "OLD_BYTE = 0x41"

datatype data_mode = Ordered | Journal

definition mode_string :: "data_mode \<Rightarrow> string" where
  "mode_string m = (case m of Ordered \<Rightarrow> ''ordered'' | Journal \<Rightarrow> ''journal'')"

section \<open>Judgement\<close>

datatype header_classification = NewHeader | OldHeader | Ambiguous

definition classifyHeader :: "byte list \<Rightarrow> nat \<Rightarrow> header_classification" where
  "classifyHeader bytes expectedLen =
     (if length bytes \<noteq> expectedLen then Ambiguous
      else if list_all (\<lambda>b. b = NEW_BYTE) bytes then NewHeader
      else if list_all (\<lambda>b. b = OLD_BYTE) bytes then OldHeader
      else Ambiguous)"

record observation =
  ob_fileLen :: nat
  ob_header :: header_classification

record verdict =
  vd_dataMode :: data_mode
  vd_reorderingObserved :: bool
  vd_noReorderingConfirmed :: bool

definition interpretObservation :: "data_mode \<Rightarrow> observation \<Rightarrow> nat \<Rightarrow> verdict" where
  "interpretObservation dataMode observation baseLen =
     \<lparr>vd_dataMode = dataMode,
      vd_reorderingObserved = (ob_fileLen observation = baseLen \<and> ob_header observation = NewHeader),
      vd_noReorderingConfirmed = (ob_fileLen observation = baseLen \<and> ob_header observation = OldHeader)\<rparr>"

section \<open>Protocol\<close>

type_synonym 'o printing = "('o \<times> console_line list) world"

text \<open>The programs that are spawned do not see the lines.\<close>

definition with_console :: "'o env \<Rightarrow> ('o \<times> console_line list) env" where
  "with_console env =
     \<lparr>en_spawn = (\<lambda>vars command (s, os, out). case en_spawn env vars command (s, os) of (p, s', os') \<Rightarrow> (p, s', os', out)),
      en_cwd = en_cwd env, en_fresh = en_fresh env\<rparr>"

definition print_line :: "string \<Rightarrow> ('o printing, unit) io" where
  "print_line line w = (Inr (), w\<lparr>wd_os := (fst (wd_os w), snd (wd_os w) @ [Out line])\<rparr>)"

definition experiment_run :: "'o env \<Rightarrow> string list \<Rightarrow> ('o world, unit) io" where
  "experiment_run env command = io_bind (spawnSync env command) (\<lambda>p.
     if pr_exit p \<noteq> 0 then io_throw (command_failed command p) else io_return ())"

text \<open>\<open>statSync(p).size\<close> of a file; the size of a directory is outside the model.\<close>

definition stat_size :: "segs \<Rightarrow> (fs, nat) io" where
  "stat_size p = io_bind (read_file p) (\<lambda>bs. io_return (length bs))"

definition test_file :: "string \<Rightarrow> string" where
  "test_file mountDir = mountDir @ ''/testfile''"

definition observeSnapshot :: "'o env \<Rightarrow> string \<Rightarrow> string \<Rightarrow> ('o world, observation) io" where
  "observeSnapshot env snapshotPath mountOptions =
     withMount env snapshotPath (\<lambda>mountDir.
       let path = resolve (en_cwd env) (test_file mountDir) in
       io_bind (on_fs (stat_size path)) (\<lambda>fileLen.
       io_bind (on_fs (read_file path)) (\<lambda>bs.
         let head = take HEADER_LEN bs
         in io_return \<lparr>ob_fileLen = fileLen, ob_header = classifyHeader head HEADER_LEN\<rparr>)))
       (Some mountOptions)"

text \<open>\<open>ftruncateSync(fd, len)\<close>\<close>

definition ftruncate_fd :: "nat \<Rightarrow> nat \<Rightarrow> (fs, unit) io" where
  "ftruncate_fd i len s = set_content i (resize len (inode_content s i)) s"

text \<open>
  The durable base, the global sync, and the sequence under test; the persistence call and the wait
  change nothing the program sees; what the kernel writes back meanwhile shows in the copy that \<open>cp\<close> makes.
\<close>

definition experiment_steps ::
    "('o \<times> console_line list) env \<Rightarrow> data_mode \<Rightarrow> string \<Rightarrow> string \<Rightarrow> string \<Rightarrow> ('o printing, unit) io" where
  "experiment_steps env dataMode imagePath snapshotPath mountDir =
     (let path = resolve (en_cwd env) (test_file mountDir); label = ''['' @ mode_string dataMode @ '']'' in
      io_bind (on_fs (open_wplus path)) (\<lambda>baseFd.
      io_seq (on_fs (write_at baseFd (replicate BASE_LEN OLD_BYTE) 0))
      (io_seq (on_fs (close_fd baseFd))
      (io_seq (experiment_run env [''sudo'', ''sync''])
      (io_bind (on_fs (open_rplus path)) (\<lambda>fd.
      io_seq (on_fs (ftruncate_fd fd GROWN_LEN))
      (io_seq (on_fs (write_at fd (replicate HEADER_LEN NEW_BYTE) 0))
      (io_seq (on_fs (close_fd fd))
      (io_seq (print_line (label @ '' waiting 45s for background writeback''))
      (io_seq (experiment_run env [''cp'', ''--sparse=always'', imagePath, snapshotPath])
      (io_bind (on_fs (stat_size path)) (\<lambda>size.
        print_line (label @ '' live file length: '' @ nat_string size)))))))))))))"

definition runExperiment :: "('o \<times> console_line list) env \<Rightarrow> data_mode \<Rightarrow> ('o printing, observation) io" where
  "runExperiment env dataMode =
     (let mode = mode_string dataMode;
          imagePath = WORK_DIR @ ''/'' @ mode @ ''.img'';
          snapshotPath = WORK_DIR @ ''/'' @ mode @ ''-crash.img'';
          mountOptions = ''data='' @ mode @ '',commit=300,noatime'';
          image = resolve (en_cwd env) imagePath in
      io_seq (on_fs (mkdirp (resolve (en_cwd env) WORK_DIR)))
      (io_seq (on_fs (io_bind (open_wplus image) close_fd))
      (io_seq (on_fs (truncate_file image EXPERIMENT_IMAGE_BYTES))
      (io_seq (experiment_run env [''/usr/sbin/mkfs.ext4'', ''-q'', ''-F'', ''-E'',
                 ''lazy_itable_init=0,lazy_journal_init=0'', imagePath])
      (io_seq (withMount env imagePath (experiment_steps env dataMode imagePath snapshotPath) (Some mountOptions))
        (observeSnapshot env snapshotPath (''data='' @ mode)))))))"

section \<open>The writeback assumption\<close>

text \<open>The times are exact rationals; the values of the kernel are small integers.\<close>

definition writebackWaitIsSufficient :: "rat \<Rightarrow> rat \<Rightarrow> rat \<Rightarrow> bool" where
  "writebackWaitIsSufficient dirtyExpireCentisecs dirtyWritebackCentisecs waitMs \<longleftrightarrow>
     (dirtyExpireCentisecs + dirtyWritebackCentisecs) * 10 < waitMs"

definition read_setting :: "string \<Rightarrow> string \<Rightarrow> (fs, string) io" where
  "read_setting cwd path = io_bind (read_file (resolve cwd path)) (\<lambda>bs s. (map_sum id trim (utf8_text bs), s))"

definition not_a_number :: "string \<Rightarrow> string \<Rightarrow> js_error" where
  "not_a_number path raw =
     Error (''could not parse '' @ path @ '': got '' @ [quote] @ raw @ [quote])"

definition wait_too_short :: "string \<Rightarrow> string \<Rightarrow> js_error" where
  "wait_too_short rawExpire rawWriteback =
     Error (''WRITEBACK_WAIT_MS (45000) does not clear dirty_expire_centisecs ('' @ rawExpire
       @ '') plus one dirty_writeback_centisecs wakeup ('' @ rawWriteback @ '') on this machine'')"

definition setting_line :: "string \<Rightarrow> string \<Rightarrow> string" where
  "setting_line rawExpire rawWriteback =
     DIRTY_EXPIRE_PATH @ ''='' @ rawExpire @ '', '' @ DIRTY_WRITEBACK_PATH @ ''='' @ rawWriteback
     @ '', waiting 45000ms per arm''"

definition checkWritebackAssumption :: "string \<Rightarrow> ('o printing, unit) io" where
  "checkWritebackAssumption cwd =
     io_bind (on_fs (read_setting cwd DIRTY_EXPIRE_PATH)) (\<lambda>rawExpire.
     io_bind (on_fs (read_setting cwd DIRTY_WRITEBACK_PATH)) (\<lambda>rawWriteback.
       case js_number rawExpire of
         None \<Rightarrow> io_throw (not_a_number DIRTY_EXPIRE_PATH rawExpire)
       | Some expire \<Rightarrow>
           (case js_number rawWriteback of
              None \<Rightarrow> io_throw (not_a_number DIRTY_WRITEBACK_PATH rawWriteback)
            | Some wb \<Rightarrow>
                io_seq (print_line (setting_line rawExpire rawWriteback))
                  (if \<not> writebackWaitIsSufficient expire wb WRITEBACK_WAIT_MS
                   then io_throw (wait_too_short rawExpire rawWriteback)
                   else io_return ()))))"

definition verdict_lines :: "verdict \<Rightarrow> verdict \<Rightarrow> string list" where
  "verdict_lines ordered journal =
     [''ordered: reordering '' @ (if vd_reorderingObserved ordered then ''DEMONSTRATED'' else ''not observed''),
      ''journal control: '' @ (if vd_noReorderingConfirmed journal then ''held (confirmed old bytes, old length)''
        else ''INCONCLUSIVE - did not confirm old bytes at old length'')]"

definition experiment_main :: "'o env \<Rightarrow> ('o printing, nat) io" where
  "experiment_main env =
     io_seq (checkWritebackAssumption (en_cwd env))
     (io_bind (runExperiment (with_console env) Ordered) (\<lambda>o1.
      let ordered = interpretObservation Ordered o1 BASE_LEN in
      io_bind (runExperiment (with_console env) Journal) (\<lambda>o2.
      let journal = interpretObservation Journal o2 BASE_LEN in
      io_seq (io_each print_line (verdict_lines ordered journal))
        (io_return (if vd_reorderingObserved ordered \<and> vd_noReorderingConfirmed journal then 0 else 1)))))"

section \<open>Properties\<close>

lemma new_old_bytes: "NEW_BYTE \<noteq> OLD_BYTE"
  by (simp add: NEW_BYTE_def OLD_BYTE_def)

text \<open>A header is classified exactly when every byte was read and all of them agree.\<close>

lemma all_bytes: "list_all (\<lambda>b. b = x) bs \<longleftrightarrow> bs = replicate (length bs) x"
  by (induction bs) auto

lemma classify_new: "0 < n \<Longrightarrow> classifyHeader bs n = NewHeader \<longleftrightarrow> bs = replicate n NEW_BYTE"
  unfolding classifyHeader_def all_bytes by auto

lemma classify_old: "0 < n \<Longrightarrow> classifyHeader bs n = OldHeader \<longleftrightarrow> bs = replicate n OLD_BYTE"
  using new_old_bytes unfolding classifyHeader_def all_bytes by (auto simp: replicate_eq_replicate)

text \<open>The two verdicts exclude each other, and an ambiguous header supports neither.\<close>

lemma verdicts_exclusive:
  "\<not> (vd_reorderingObserved (interpretObservation m o' b) \<and> vd_noReorderingConfirmed (interpretObservation m o' b))"
  "ob_header o' = Ambiguous \<Longrightarrow>
   \<not> vd_reorderingObserved (interpretObservation m o' b) \<and> \<not> vd_noReorderingConfirmed (interpretObservation m o' b)"
  by (auto simp: interpretObservation_def)

text \<open>The experiment is positive only when both arms show exactly what they have to show.\<close>

lemma print_each: "io_each print_line ls w = (Inr (), w\<lparr>wd_os := (fst (wd_os w), snd (wd_os w) @ map Out ls)\<rparr>)"
proof (induction ls arbitrary: w)
  case (Cons l ls)
  have "print_line l w = (Inr (), w\<lparr>wd_os := (fst (wd_os w), snd (wd_os w) @ [Out l])\<rparr>)" by (rule print_line_def)
  then show ?case by (simp add: io_seq_def io_bind_def Cons.IH)
qed (simp add: io_return_def)

lemma experiment_positive:
  assumes "experiment_main env w = (Inr 0, w')"
  shows "\<exists>w0 w1 w2 o1 o2. runExperiment (with_console env) Ordered w0 = (Inr o1, w1)
    \<and> runExperiment (with_console env) Journal w1 = (Inr o2, w2)
    \<and> ob_fileLen o1 = BASE_LEN \<and> ob_header o1 = NewHeader \<and> ob_fileLen o2 = BASE_LEN \<and> ob_header o2 = OldHeader
    \<and> snd (wd_os w') = snd (wd_os w2) @ [Out ''ordered: reordering DEMONSTRATED'',
        Out ''journal control: held (confirmed old bytes, old length)'']"
proof -
  obtain w0 w1 w2 o1 o2 where runs:
    "runExperiment (with_console env) Ordered w0 = (Inr o1, w1)" "runExperiment (with_console env) Journal w1 = (Inr o2, w2)"
    and result: "vd_reorderingObserved (interpretObservation Ordered o1 BASE_LEN)
      \<and> vd_noReorderingConfirmed (interpretObservation Journal o2 BASE_LEN)"
    and lines: "io_each print_line (verdict_lines (interpretObservation Ordered o1 BASE_LEN)
      (interpretObservation Journal o2 BASE_LEN)) w2 = (Inr (), w')"
    using assms
    by (auto simp: experiment_main_def io_seq_Inr_iff io_bind_Inr_iff Let_def io_return_def split: if_splits)
  have "snd (wd_os w') = snd (wd_os w2) @ [Out ''ordered: reordering DEMONSTRATED'',
      Out ''journal control: held (confirmed old bytes, old length)'']"
    using lines result unfolding print_each by (auto simp: verdict_lines_def)
  then show ?thesis
    using runs result unfolding interpretObservation_def verdict.simps by blast
qed

end
