(* ===== verification/StateExplosion.thy ===== *)
theory StateExplosion
  imports Complex_Main Campaign EnumerationProperties
begin

text \<open>
  \<open>core/tools/state-explosion.ts\<close>: the size of the state space against the length of a synthetic trace,
  with the shipped bounds and without bounds. Both curves are given in closed form or bounded here.
  The fit of the exponent is modelled over the reals, without the rounding of doubles.
\<close>

definition BOUNDED_LENGTHS :: "nat list" where
  "BOUNDED_LENGTHS = [1, 2, 3, 5, 10, 20, 50, 100, 200, 500, 1000, 2000]"

definition UNBOUNDED_LENGTHS :: "nat list" where
  "UNBOUNDED_LENGTHS = [1, 2, 3, 5, 8, 10, 12, 14, 16, 18]"

definition SEED :: int where
  "SEED = 20260815"

datatype regime = Bounded | Unbounded

record explosion_row =
  er_operations :: nat
  er_regime :: regime
  er_crashPoints :: nat
  er_states :: nat

section \<open>The synthetic workload\<close>

definition base_event :: "nat \<Rightarrow> nat \<Rightarrow> trace_event" where
  "base_event operations index =
     \<lparr>ev_index = int index, ev_completionIndex = int (index + operations), ev_call = CWrite,
      ev_fd = int (3 + index mod 3), ev_threadId = 1, ev_path = ''/db/file-'' @ nat_string (index mod 3),
      ev_path2 = '''', ev_offset = int (index * 1024), ev_length = 1024, ev_returnValue = 1024,
      ev_errno = 0, ev_digest = pad_start 64 (CHR ''0'') (nat_string index)\<rparr>"

definition synthetic_event :: "nat \<Rightarrow> bool \<Rightarrow> nat \<Rightarrow> trace_event" where
  "synthetic_event operations withPersistence index =
     (let base = base_event operations index in
      if index mod 5 = 4 \<and> withPersistence
      then base\<lparr>ev_call := CFsync, ev_length := 0, ev_returnValue := 0, ev_digest := ''''\<rparr>
      else if index mod 20 = 19
      then base\<lparr>ev_call := CRename, ev_path := ev_path base @ ''.tmp'', ev_path2 := ev_path base,
             ev_length := 0, ev_returnValue := 0, ev_digest := ''''\<rparr>
      else base)"

definition syntheticTrace :: "nat \<Rightarrow> bool \<Rightarrow> trace" where
  "syntheticTrace operations withPersistence =
     \<lparr>tr_header = \<lparr>hd_version = 1, hd_pid = 1\<rparr>,
      tr_events = map (synthetic_event operations withPersistence) [0..<operations], tr_markers = []\<rparr>"

section \<open>Measurements\<close>

definition measureBounded :: "segs \<Rightarrow> nat \<Rightarrow> (fs, explosion_row) io" where
  "measureBounded boundsPath operations =
     io_bind (loadBounds boundsPath) (\<lambda>bnds.
       let trace = syntheticTrace operations True;
           crashPoints = selectCrashPoints trace
             \<lparr>so_nonFsyncSampleRate = lb_nonFsyncSampleRate bnds, so_seed = SEED,
              so_maxExhaustiveWorkloadOps = Some (lb_maxExhaustiveWorkloadOps bnds)\<rparr> in
       io_bind (io_result (enumerateCrashStates trace
           \<lparr>eo_model = ext4Ordered,
            eo_bounds = \<lparr>tornWrites = lb_tornWrites bnds, maxUnpersistedWindow = lb_maxUnpersistedWindow bnds\<rparr>,
            eo_crashPoints = Some crashPoints\<rparr>)) (\<lambda>states.
         io_return \<lparr>er_operations = operations, er_regime = Bounded,
                    er_crashPoints = length crashPoints, er_states = length states\<rparr>))"

definition measureUnbounded :: "nat \<Rightarrow> explosion_row result" where
  "measureUnbounded operations =
     (let trace = syntheticTrace operations False in
      result_bind (enumerateCrashStates trace
          \<lparr>eo_model = ext4Ordered,
           eo_bounds = \<lparr>tornWrites = False, maxUnpersistedWindow = int operations\<rparr>,
           eo_crashPoints = None\<rparr>) (\<lambda>states.
        Inr \<lparr>er_operations = operations, er_regime = Unbounded, er_crashPoints = operations,
             er_states = length states\<rparr>))"

section \<open>Outputs\<close>

definition regime_string :: "regime \<Rightarrow> string" where
  "regime_string r = (case r of Bounded \<Rightarrow> ''bounded'' | Unbounded \<Rightarrow> ''unbounded'')"

definition csv_line :: "explosion_row \<Rightarrow> string" where
  "csv_line row = nat_string (er_operations row) @ '','' @ regime_string (er_regime row) @ '',''
     @ nat_string (er_crashPoints row) @ '','' @ nat_string (er_states row)"

definition format_csv :: "explosion_row list \<Rightarrow> string" where
  "format_csv rows = join [NL] (''operations,regime,crash_points,states'' # map csv_line rows) @ [NL]"

text \<open>\<open>None\<close> is \<open>NaN\<close>: no two points, or all points above one another.\<close>

definition logLogSlope :: "explosion_row list \<Rightarrow> real option" where
  "logLogSlope rows =
     (let points = map (\<lambda>row. (ln (real (er_operations row)), ln (real (er_states row))))
            (filter (\<lambda>row. 1 < er_operations row \<and> 0 < er_states row) rows);
          n = real (length points);
          meanX = (\<Sum>p\<leftarrow>points. fst p) / n;
          meanY = (\<Sum>p\<leftarrow>points. snd p) / n;
          covariance = (\<Sum>p\<leftarrow>points. (fst p - meanX) * (snd p - meanY));
          variance = (\<Sum>p\<leftarrow>points. (fst p - meanX)\<^sup>2)
      in if variance = 0 then None else Some (covariance / variance))"

section \<open>The unbounded curve\<close>

lemma synthetic_events [simp]:
  "length (tr_events (syntheticTrace n p)) = n"
  "i < n \<Longrightarrow> tr_events (syntheticTrace n p) ! i = synthetic_event n p i"
  by (simp_all add: syntheticTrace_def)

lemma synthetic_unsynced:
  "ev_call (synthetic_event n False i) \<in> {CWrite, CRename}" "0 \<le> ev_returnValue (synthetic_event n False i)"
  by (simp_all add: synthetic_event_def base_event_def Let_def)

lemma unsynced_free:
  assumes "cp < n"
  shows "free_ops (tr_events (syntheticTrace n False)) cp = [0..<Suc cp]"
proof -
  let ?e = "tr_events (syntheticTrace n False)"
  have call: "ev_call (?e ! i) \<in> {CWrite, CRename}" "0 \<le> ev_returnValue (?e ! i)" if "i \<le> cp" for i
    using that assms synthetic_unsynced [of n i] by simp_all
  have "pinned_set ?e cp = {}"
    using call(1) by (fastforce simp: pinned_set_def returned_persistence_def PERSISTENCE_def)
  then have none: "i \<notin> set (pinned_ops ?e cp)" for i by (simp add: set_pinned_ops)
  show ?thesis
    unfolding free_ops_def
  proof (rule filter_True, rule ballI)
    fix i assume "i \<in> set [0..<Suc cp]"
    then have "i \<le> cp" by auto
    from call [OF this] none show "ev_call (?e ! i) \<in> MUTATING \<and> \<not> ev_returnValue (?e ! i) < 0
        \<and> i \<notin> set (pinned_ops ?e cp)"
      by (auto simp: MUTATING_def)
  qed
qed

lemma unsynced_point:
  assumes "cp < n" "n \<le> 30"
  shows "length (reordering_states (tr_events (syntheticTrace n False))
      \<lparr>tornWrites = False, maxUnpersistedWindow = int n\<rparr> cp) = 2 ^ Suc cp"
proof -
  let ?e = "tr_events (syntheticTrace n False)" and ?b = "\<lparr>tornWrites = False, maxUnpersistedWindow = int n\<rparr>"
  have pos: "0 < maxUnpersistedWindow ?b" "maxUnpersistedWindow ?b \<le> 30" using assms by simp_all
  have window: "window_ops ?e ?b cp = [0..<Suc cp]"
    using assms(1) by (simp add: window_ops_pos [OF pos(1)] unsynced_free)
  have masks: "nat (one_shl (Suc cp)) = 2 ^ Suc cp"
    using window_bounds.mask_count [OF window_bounds.intro [OF pos], of ?e cp] by (simp add: window)
  have "length (mask_states ?e ?b cp (alwaysPresent ?e ?b cp) [0..<Suc cp] m) = 1" for m
  proof -
    let ?ps = "mask_persisted (alwaysPresent ?e ?b cp) [0..<Suc cp] m"
    have always: "set (alwaysPresent ?e ?b cp) \<subseteq> {..cp}"
      using always_union_window [OF pos(1), of ?e cp] by (auto dest: issued_set_mutating)
    have "set ?ps \<subseteq> {..cp}"
    proof
      fix i assume "i \<in> set ?ps"
      then consider "i \<in> set (alwaysPresent ?e ?b cp)" | b where "b < Suc cp" "i = [0..<Suc cp] ! b"
        by (auto simp: mask_persisted_def simp del: upt_Suc)
      then show "i \<in> {..cp}" using always by cases (auto simp del: upt_Suc)
    qed
    then have "ev_call (?e ! i) \<notin> NEEDS_EXISTING_FILE" if "i \<in> set ?ps" for i
      using that assms(1) synthetic_unsynced(1) [of n i] by (auto simp: NEEDS_EXISTING_FILE_def)
    then have "existsOnDisk ?e ?ps" by (simp add: existsOnDisk_def list_all_iff)
    then show ?thesis by (simp add: mask_states_def Let_def)
  qed
  then show ?thesis
    unfolding reordering_states_eq Let_def window length_concat
    by (simp add: comp_def sum_list_triv masks del: upt_Suc)
qed

lemma powers_sum: "(\<Sum>cp\<leftarrow>[0..<n]. (2::nat) ^ Suc cp) = 2 ^ Suc n - 2"
proof (induction n)
  case (Suc n)
  have "(2::nat) \<le> 2 ^ Suc n" by simp
  with Suc show ?case by simp
qed simp

lemma unbounded_states:
  assumes "n \<le> 30"
  shows "measureUnbounded n = Inr \<lparr>er_operations = n, er_regime = Unbounded, er_crashPoints = n,
    er_states = 2 ^ Suc n - 2\<rparr>"
proof -
  let ?e = "tr_events (syntheticTrace n False)" and ?b = "\<lparr>tornWrites = False, maxUnpersistedWindow = int n\<rparr>"
  let ?o = "\<lparr>eo_model = ext4Ordered, eo_bounds = ?b, eo_crashPoints = None\<rparr>"
  have points: "crash_points_of (syntheticTrace n False) ?o = [0..<n]"
    by (simp add: crash_points_of_def)
  then obtain states where states: "enumerateCrashStates (syntheticTrace n False) ?o = Inr states"
    by (simp add: enumerate_cases)
  then have "states = concat (map (point_states ?e ext4Ordered ?b) [0..<n])"
    by (simp add: enumerate_Inr_iff points)
  then have "length states = (\<Sum>cp\<leftarrow>[0..<n]. length (point_states ?e ext4Ordered ?b cp))"
    by (simp add: length_concat comp_def)
  also have "\<dots> = (\<Sum>cp\<leftarrow>[0..<n]. 2 ^ Suc cp)"
    using assms unsynced_point by (intro arg_cong [where f = sum_list] map_cong) (simp_all add: point_states_def)
  finally have "length states = 2 ^ Suc n - 2" by (simp only: powers_sum)
  then show ?thesis
    using states by (simp add: measureUnbounded_def Let_def)
qed

section \<open>The bounded curve\<close>

lemma synthetic_prefixes: "length (strictSectorPrefixes (synthetic_event n p i)) \<le> 1"
proof (cases "is_write (ev_call (synthetic_event n p i))")
  case True
  then have "ev_length (synthetic_event n p i) = 1024"
    by (auto simp: synthetic_event_def base_event_def is_write_def Let_def split: if_splits)
  moreover have "sectors 1024 = 2" by (simp add: sectors_def SECTOR_BYTES_def)
  ultimately show ?thesis using True by (simp add: length_strictSectorPrefixes)
next
  case False
  then show ?thesis by (simp add: strictSectorPrefixes_def is_write_def)
qed

lemma synthetic_torn:
  assumes "\<forall>i\<in>set ops. i < n"
  shows "torn_prefixes (tr_events (syntheticTrace n p)) ops \<le> length ops"
  using assms
proof (induction ops)
  case (Cons i ops)
  then show ?case
    using add_mono [OF synthetic_prefixes [of n p i], of "torn_prefixes (tr_events (syntheticTrace n p)) ops" "length ops"]
    by (simp add: torn_prefixes_def)
qed (simp add: torn_prefixes_def)

lemma synthetic_point:
  assumes "cp < n" "0 < maxUnpersistedWindow b" "maxUnpersistedWindow b \<le> 30"
  shows "length (reordering_states (tr_events (syntheticTrace n p)) b cp)
    \<le> 2 ^ nat (maxUnpersistedWindow b) * (1 + nat (maxUnpersistedWindow b))"
proof -
  let ?e = "tr_events (syntheticTrace n p)" and ?W = "nat (maxUnpersistedWindow b)"
  let ?w = "window_ops ?e b cp"
  have len: "length ?w \<le> ?W" using length_window_ops [OF assms(2), of ?e cp] by simp
  have "\<forall>i\<in>set ?w. i < n"
    using set_window_subset [of ?e b cp] assms(1) by (force simp: set_free_ops)
  then have torn: "torn_prefixes ?e ?w \<le> ?W" using synthetic_torn len by (meson order_trans)
  have "length (reordering_states ?e b cp) \<le> 2 ^ length ?w * (1 + (if tornWrites b then torn_prefixes ?e ?w else 0))"
    by (rule length_reordering_states [OF assms(2,3)])
  also have "\<dots> \<le> 2 ^ ?W * (1 + ?W)"
    using len torn by (intro mult_mono power_increasing) auto
  finally show ?thesis .
qed

lemma bounded_states:
  assumes load: "loadBounds boundsPath s = (Inr bnds, s')"
    and window: "0 < lb_maxUnpersistedWindow bnds" "lb_maxUnpersistedWindow bnds \<le> 30"
  shows "\<exists>row. measureBounded boundsPath n s = (Inr row, s') \<and> er_operations row = n \<and> er_crashPoints row \<le> n
    \<and> er_states row \<le> er_crashPoints row
        * (2 ^ nat (lb_maxUnpersistedWindow bnds) * (1 + nat (lb_maxUnpersistedWindow bnds)))"
proof -
  let ?t = "syntheticTrace n True" and ?k = "2 ^ nat (lb_maxUnpersistedWindow bnds) * (1 + nat (lb_maxUnpersistedWindow bnds))"
  let ?b = "\<lparr>tornWrites = lb_tornWrites bnds, maxUnpersistedWindow = lb_maxUnpersistedWindow bnds\<rparr>"
  let ?cps = "selectCrashPoints ?t \<lparr>so_nonFsyncSampleRate = lb_nonFsyncSampleRate bnds, so_seed = SEED,
      so_maxExhaustiveWorkloadOps = Some (lb_maxExhaustiveWorkloadOps bnds)\<rparr>"
  let ?o = "\<lparr>eo_model = ext4Ordered, eo_bounds = ?b, eo_crashPoints = Some ?cps\<rparr>"
  have cps: "\<forall>cp\<in>set ?cps. cp < n"
    by (auto simp: in_selectCrashPoints)
  have "length ?cps \<le> n"
  proof -
    have "length ?cps = card (set ?cps)" using distinct_selectCrashPoints by (simp add: distinct_card)
    also have "\<dots> \<le> card {..<n}" using cps by (intro card_mono) auto
    finally show ?thesis by simp
  qed
  moreover obtain states where states: "enumerateCrashStates ?t ?o = Inr states"
    using cps by (simp add: enumerate_cases crash_points_of_def)
  moreover have "length states \<le> length ?cps * ?k"
  proof -
    have "states = concat (map (point_states (tr_events ?t) ext4Ordered ?b) ?cps)"
      using states by (simp add: enumerate_Inr_iff crash_points_of_def)
    then have "length states = (\<Sum>cp\<leftarrow>?cps. length (point_states (tr_events ?t) ext4Ordered ?b cp))"
      by (simp add: length_concat comp_def)
    also have "\<dots> \<le> (\<Sum>cp\<leftarrow>?cps. ?k)"
      using cps window synthetic_point [of _ n ?b True] by (intro sum_list_mono) (simp add: point_states_def)
    finally show ?thesis by (simp add: sum_list_triv)
  qed
  ultimately show ?thesis
    by (simp add: measureBounded_def io_bind_def load Let_def io_result_def io_return_def)
qed

text \<open>C35: the two curves of the state explosion. Without bounds and without persistence calls the tool counts
  exactly two to the number of operations plus one, less two, up to the thirty operations the subset loop
  can represent; with any loaded bounds the measurement succeeds and the count is at most linear in
  the number of operations, with a factor that the window alone determines.\<close>

theorem explosion_curves:
  assumes "loadBounds boundsPath s = (Inr bnds, s')"
    and "0 < lb_maxUnpersistedWindow bnds" "lb_maxUnpersistedWindow bnds \<le> 30"
    and "operations \<le> 30"
  shows "measureUnbounded operations = Inr \<lparr>er_operations = operations, er_regime = Unbounded,
        er_crashPoints = operations, er_states = 2 ^ Suc operations - 2\<rparr>
    \<and> (\<forall>n. \<exists>row. measureBounded boundsPath n s = (Inr row, s') \<and> er_crashPoints row \<le> n
          \<and> er_states row \<le> n * (2 ^ nat (lb_maxUnpersistedWindow bnds) * (1 + nat (lb_maxUnpersistedWindow bnds))))"
proof (intro conjI allI)
  show "measureUnbounded operations = Inr \<lparr>er_operations = operations, er_regime = Unbounded,
        er_crashPoints = operations, er_states = 2 ^ Suc operations - 2\<rparr>"
    by (rule unbounded_states [OF assms(4)])
  show "\<exists>row. measureBounded boundsPath n s = (Inr row, s') \<and> er_crashPoints row \<le> n
      \<and> er_states row \<le> n * (2 ^ nat (lb_maxUnpersistedWindow bnds) * (1 + nat (lb_maxUnpersistedWindow bnds)))" for n
    using bounded_states [OF assms(1-3), of n] by (meson le_trans mult_le_mono1)
qed

lemma explosion_curves_witness:
  "measureUnbounded 18 = Inr \<lparr>er_operations = 18, er_regime = Unbounded, er_crashPoints = 18, er_states = 524286\<rparr>
   \<and> (\<exists>row. measureBounded [''b''] 2000 (wd_fs campaign_world) = (Inr row, wd_fs campaign_world)
        \<and> er_states row \<le> 2000 * 2304)"
proof -
  obtain lb where lb: "loadBounds [''b''] (wd_fs campaign_world) = (Inr lb, wd_fs campaign_world)"
    "lb_maxUnpersistedWindow lb = 8"
    using small_load by blast
  show ?thesis
    using explosion_curves [OF lb(1), of 18] by (auto simp: lb(2) dest!: spec [of _ 2000])
qed

section \<open>The fitted exponent\<close>

text \<open>On an exact power law the estimator returns the exponent.\<close>

lemma slope_of_power_law:
  assumes "0 < c" "\<forall>row\<in>set rows. 1 < er_operations row \<longrightarrow> 0 < er_states row \<longrightarrow>
      real (er_states row) = c * real (er_operations row) powr q"
    and "logLogSlope rows \<noteq> None"
  shows "logLogSlope rows = Some q"
proof -
  let ?rows = "filter (\<lambda>row. 1 < er_operations row \<and> 0 < er_states row) rows"
  define xs where "xs = map (\<lambda>row. ln (real (er_operations row))) ?rows"
  let ?n = "real (length xs)"
  have "ln (real (er_states row)) = ln c + q * ln (real (er_operations row))" if "row \<in> set ?rows" for row
    using that assms(1,2) by (auto simp: ln_mult ln_powr)
  then have points: "map (\<lambda>row. (ln (real (er_operations row)), ln (real (er_states row)))) ?rows
      = map (\<lambda>x. (x, ln c + q * x)) xs"
    by (simp add: xs_def)
  define mx where "mx = sum_list xs / ?n"
  define var where "var = (\<Sum>x\<leftarrow>xs. (x - mx)\<^sup>2)"
  have slope: "logLogSlope rows = (let my = (\<Sum>x\<leftarrow>xs. ln c + q * x) / ?n in
      if var = 0 then None else Some ((\<Sum>x\<leftarrow>xs. (x - mx) * (ln c + q * x - my)) / var))"
    unfolding logLogSlope_def points Let_def mx_def var_def by (simp add: comp_def)
  then have var: "var \<noteq> 0" using assms(3) by (auto simp: Let_def)
  then have "xs \<noteq> []" by (auto simp: var_def)
  then have n: "?n \<noteq> 0" by simp
  have "(\<Sum>x\<leftarrow>xs. ln c + q * x) = ?n * ln c + q * sum_list xs"
    by (simp add: sum_list_addf sum_list_const_mult sum_list_triv)
  then have my: "(\<Sum>x\<leftarrow>xs. ln c + q * x) / ?n = ln c + q * mx"
    using n by (simp add: mx_def field_simps)
  have "(\<Sum>x\<leftarrow>xs. (x - mx) * (ln c + q * x - (ln c + q * mx))) = q * var"
    unfolding var_def sum_list_const_mult [symmetric]
    by (intro arg_cong [where f = sum_list] map_cong) (auto simp: power2_eq_square algebra_simps)
  then show ?thesis using var by (simp add: slope my)
qed

end
