(* ===== verification/ExplosionReport.thy ===== *)
theory ExplosionReport
  imports StateExplosion Driver
begin

text \<open>
  \<open>core/tools/state-explosion.ts\<close>, the outputs and the entry point. The slopes are exact reals in the model;
  how the runtime prints the double next to a real, with all digits (\<open>digits\<close>, the JSON text) or with two
  decimals (\<open>two\<close>, \<open>toFixed(2)\<close>), is a parameter. A slope that is \<open>NaN\<close> is \<open>null\<close> in JSON.
\<close>

section \<open>Outputs\<close>

definition explosion_OUT_PATH :: "string \<Rightarrow> string" where
  "explosion_OUT_PATH repoRoot = path_join_all repoRoot [''plots'', ''data'', ''state-explosion.csv'']"

definition FIT_PATH :: "string \<Rightarrow> string" where
  "FIT_PATH repoRoot = path_join_all repoRoot [''plots'', ''data'', ''state-explosion-fit.json'']"

definition rows_of :: "regime \<Rightarrow> explosion_row list \<Rightarrow> explosion_row list" where
  "rows_of r rows = filter (\<lambda>row. er_regime row = r) rows"

definition row_doc :: "explosion_row \<Rightarrow> doc" where
  "row_doc row = DRec [(''operations'', DInt (int (er_operations row))), (''regime'', DText (regime_string (er_regime row))),
     (''crashPoints'', DInt (int (er_crashPoints row))), (''states'', DInt (int (er_states row)))]"

definition slope_json :: "(real \<Rightarrow> string) \<Rightarrow> real option \<Rightarrow> string" where
  "slope_json digits slope = (case slope of None \<Rightarrow> ''null'' | Some r \<Rightarrow> digits r)"

definition fit_text :: "(real \<Rightarrow> string) \<Rightarrow> explosion_row list \<Rightarrow> string" where
  "fit_text digits rows =
     (let bounded = rows_of Bounded rows; unbounded = rows_of Unbounded rows in
      bracketed (CHR ''{'') (CHR ''}'') 0
        [string_text ''boundedExponent'' @ '': '' @ slope_json digits (logLogSlope bounded),
         string_text ''unboundedExponent'' @ '': ''
           @ (if 0 < length unbounded then slope_json digits (logLogSlope unbounded) else ''null''),
         string_text ''largestBounded'' @ '': ''
           @ doc_text (if bounded = [] then DNull else row_doc (last bounded)) 2])"

definition formatOutputs :: "(real \<Rightarrow> string) \<Rightarrow> explosion_row list \<Rightarrow> string \<times> string" where
  "formatOutputs digits rows = (format_csv rows, fit_text digits rows @ [NL])"

section \<open>The program\<close>

text \<open>\<open>lengths.map(measure)\<close>, one measurement after the other.\<close>

definition measure_step :: "(nat \<Rightarrow> (fs, explosion_row) io) \<Rightarrow> nat \<Rightarrow> explosion_row list \<Rightarrow> (fs, explosion_row list) io" where
  "measure_step m n rows = io_bind (m n) (\<lambda>row. io_return (rows @ [row]))"

definition explosion_rows :: "segs \<Rightarrow> (fs, explosion_row list) io" where
  "explosion_rows boundsPath =
     io_bind (io_fold (measure_step (measureBounded boundsPath)) [] BOUNDED_LENGTHS)
       (\<lambda>rows. io_fold (measure_step (\<lambda>n. io_result (measureUnbounded n))) rows UNBOUNDED_LENGTHS)"

definition slope_fixed :: "(real \<Rightarrow> string) \<Rightarrow> real option \<Rightarrow> string" where
  "slope_fixed two slope = (case slope of None \<Rightarrow> ''NaN'' | Some r \<Rightarrow> two r)"

definition explosion_lines :: "(real \<Rightarrow> string) \<Rightarrow> string \<Rightarrow> explosion_row list \<Rightarrow> string list" where
  "explosion_lines two repoRoot rows =
     (let bounded = rows_of Bounded rows; unbounded = rows_of Unbounded rows; largest = last bounded in
      [''wrote '' @ explosion_OUT_PATH repoRoot,
       ''bounded   exponent p = '' @ slope_fixed two (logLogSlope bounded) @ '' (states ~ ops^p)'',
       ''unbounded exponent p = '' @ slope_fixed two (logLogSlope unbounded) @ '' (not a power law)'',
       ''bounded largest: '' @ nat_string (er_states largest) @ '' states over '' @ nat_string (er_crashPoints largest)
         @ '' crash points at '' @ nat_string (er_operations largest) @ '' operations''])"

definition explosion_main ::
    "(real \<Rightarrow> string) \<Rightarrow> (real \<Rightarrow> string) \<Rightarrow> string \<Rightarrow> string \<Rightarrow> segs \<Rightarrow> (fs terminal, nat) io" where
  "explosion_main digits two cwd repoRoot boundsPath =
     io_bind (quietly (explosion_rows boundsPath)) (\<lambda>rows.
     let (csv, fit) = formatOutputs digits rows in
     io_seq (quietly (mkdirp (resolve cwd (path_join_all repoRoot [''plots'', ''data'']))))
     (io_seq (quietly (write_text cwd (explosion_OUT_PATH repoRoot) csv))
     (io_seq (quietly (write_text cwd (FIT_PATH repoRoot) fit))
     (io_seq (io_each console_log (explosion_lines two repoRoot rows))
       (io_return 0)))))"

section \<open>What it measures\<close>

lemma measure_loop:
  assumes "\<And>n. n \<in> set ns \<Longrightarrow> \<exists>row. m n s = (Inr row, s) \<and> P n row"
  shows "\<exists>ys. io_fold (measure_step m) rows ns s = (Inr (rows @ ys), s) \<and> list_all2 P ns ys"
  using assms
proof (induction ns arbitrary: rows)
  case (Cons n ns)
  obtain y where y: "m n s = (Inr y, s)" "P n y" using Cons.prems by fastforce
  have step: "measure_step m n rows s = (Inr (rows @ [y]), s)"
    using y(1) by (simp add: measure_step_def io_bind_def io_return_def)
  obtain ys where "io_fold (measure_step m) (rows @ [y]) ns s = (Inr ((rows @ [y]) @ ys), s)" "list_all2 P ns ys"
    using Cons.IH [of "rows @ [y]"] Cons.prems by fastforce
  then show ?case
    using y step by (intro exI [of _ "y # ys"]) (simp add: io_bind_def)
qed (simp add: io_return_def)

text \<open>
  One row per length, in order: the bounded rows within the linear bound, the unbounded rows exactly
  \<open>2 ^ (n + 1) - 2\<close>.
\<close>

lemma explosion_rows_measured:
  assumes load: "loadBounds boundsPath s = (Inr bnds, s)"
    and window: "0 < lb_maxUnpersistedWindow bnds" "lb_maxUnpersistedWindow bnds \<le> 30"
  shows "\<exists>bounded. explosion_rows boundsPath s = (Inr (bounded @ map (\<lambda>n. \<lparr>er_operations = n, er_regime = Unbounded,
        er_crashPoints = n, er_states = 2 ^ Suc n - 2\<rparr>) UNBOUNDED_LENGTHS), s)
    \<and> list_all2 (\<lambda>n row. er_operations row = n \<and> er_states row \<le> er_crashPoints row
        * (2 ^ nat (lb_maxUnpersistedWindow bnds) * (1 + nat (lb_maxUnpersistedWindow bnds)))) BOUNDED_LENGTHS bounded"
proof -
  let ?ok = "\<lambda>n row. er_operations row = n \<and> er_states row \<le> er_crashPoints row
        * (2 ^ nat (lb_maxUnpersistedWindow bnds) * (1 + nat (lb_maxUnpersistedWindow bnds)))"
  let ?row = "\<lambda>n. \<lparr>er_operations = n, er_regime = Unbounded, er_crashPoints = n, er_states = 2 ^ Suc n - 2\<rparr>"
  have "\<exists>y. measureBounded boundsPath n s = (Inr y, s) \<and> ?ok n y" for n
    using bounded_states [OF load window, of n] by blast
  then obtain bounded where bounded: "io_fold (measure_step (measureBounded boundsPath)) [] BOUNDED_LENGTHS s = (Inr ([] @ bounded), s)" "list_all2 ?ok BOUNDED_LENGTHS bounded"
    using measure_loop [of BOUNDED_LENGTHS "measureBounded boundsPath" s ?ok "[]"] by blast
  have "\<exists>y. io_result (measureUnbounded n) s = (Inr y, s) \<and> y = ?row n" if "n \<in> set UNBOUNDED_LENGTHS" for n
  proof -
    have "n \<le> 30" using that by (auto simp: UNBOUNDED_LENGTHS_def)
    then show ?thesis by (simp add: io_result_def unbounded_states)
  qed
  then obtain rows where rows: "io_fold (measure_step (\<lambda>n. io_result (measureUnbounded n))) bounded UNBOUNDED_LENGTHS s = (Inr (bounded @ rows), s)" "list_all2 (\<lambda>n y. y = ?row n) UNBOUNDED_LENGTHS rows"
    using measure_loop [of UNBOUNDED_LENGTHS "\<lambda>n. io_result (measureUnbounded n)" s "\<lambda>n y. y = ?row n" bounded] by blast
  have "rows = map ?row UNBOUNDED_LENGTHS"
    using rows(2) by (auto simp: list_all2_conv_all_nth intro: nth_equalityI)
  then show ?thesis
    using bounded rows(1) by (auto simp: explosion_rows_def io_bind_def)
qed

text \<open>Bounds that cannot be read stop the program before anything is written or printed.\<close>

lemma explosion_main_no_bounds:
  assumes "loadBounds boundsPath s = (Inl e, s)"
  shows "explosion_main digits two cwd repoRoot boundsPath (s, out) = (Inl e, s, out)"
proof -
  have "measureBounded boundsPath n s = (Inl e, s)" for n
    using assms by (simp add: measureBounded_def io_bind_def)
  then show ?thesis
    by (simp add: explosion_main_def explosion_rows_def BOUNDED_LENGTHS_def quietly_def measure_step_def io_bind_def)
qed

end
