(* ===== verification/Report.thy ===== *)
theory Report
  imports Console JsonText Image Reproducer
begin

text \<open>
  \<open>core/tools/tdd-report.ts\<close>: runs the test suite and converts its JUnit output. The three regular
  expressions are written out as scanners; \<open>repoRoot\<close> and \<open>platform\<close> are the values the code takes
  from its location and from the process.
\<close>

definition VM_NAME :: string where
  "VM_NAME = ''crashfuzz''"

definition JUNIT_PATH :: string where
  "JUNIT_PATH = ''/tmp/crashfuzz-junit.xml''"

definition OUT_PATH :: "string \<Rightarrow> string" where
  "OUT_PATH repoRoot = path_join_all repoRoot [''.claude'', ''tdd-guard'', ''data'', ''test.json'']"

datatype test_state = Passed | FailedTest | Skipped

record formatted_test =
  ft_name :: string
  ft_fullName :: string
  ft_state :: test_state
  ft_errors :: "string list option"

record module_result =
  mr_moduleId :: string
  mr_tests :: "formatted_test list"

record test_run_output =
  tr_testModules :: "module_result list"
  tr_passed :: bool

section \<open>Running the tests\<close>

definition in_shell :: "string \<Rightarrow> string \<Rightarrow> string list" where
  "in_shell platform script =
     (if platform = ''linux'' then [''bash'', ''-lc'', script]
      else [''limactl'', ''shell'', VM_NAME, ''--'', ''bash'', ''-lc'', script])"

definition remote_script :: "string \<Rightarrow> string list \<Rightarrow> string" where
  "remote_script repoRoot args =
     ''rm -f '' @ JUNIT_PATH @ ''; cd '' @ repoRoot @ '' && bun ''
     @ join '' '' ([''test''] @ args @ [''--reporter=junit'', ''--reporter-outfile='' @ JUNIT_PATH])"

record test_run =
  tn_output :: string
  tn_junit :: string
  tn_exitCode :: int

definition runTests :: "'o env \<Rightarrow> string \<Rightarrow> string \<Rightarrow> string list \<Rightarrow> ('o world, test_run) io" where
  "runTests env platform repoRoot args =
     io_bind (spawnSync env (in_shell platform (remote_script repoRoot args))) (\<lambda>p.
     io_bind (spawnSync env (in_shell platform (''cat '' @ JUNIT_PATH @ '' 2>/dev/null || true''))) (\<lambda>junit.
       io_return \<lparr>tn_output = pr_stdout p @ pr_stderr p, tn_junit = pr_stdout junit, tn_exitCode = pr_exit p\<rparr>))"

text \<open>\<open>text.trim() || otherwise\<close>\<close>

definition trim_or :: "string \<Rightarrow> string \<Rightarrow> string" where
  "trim_or text otherwise = (if trim text = '''' then otherwise else trim text)"

definition load_failure_module :: "string \<Rightarrow> module_result" where
  "load_failure_module out =
     \<lparr>mr_moduleId = ''test run'',
      mr_tests = [\<lparr>ft_name = ''test run did not produce results'', ft_fullName = ''test run did not produce results'',
                   ft_state = FailedTest, ft_errors = Some [trim_or out ''no output'']\<rparr>]\<rparr>"

definition loadFailure :: "string \<Rightarrow> test_run_output" where
  "loadFailure out = \<lparr>tr_testModules = [load_failure_module out], tr_passed = False\<rparr>"

section \<open>Reading JUnit\<close>

text \<open>\<open>text.replace(/pattern/g, value)\<close> for a pattern without special characters.\<close>

function replace_all :: "string \<Rightarrow> string \<Rightarrow> string \<Rightarrow> string" where
  "replace_all pat val [] = []"
| "replace_all pat val (c # s) =
     (if pat \<noteq> '''' \<and> starts_with pat (c # s) then val @ replace_all pat val (drop (length pat) (c # s))
      else c # replace_all pat val s)"
  by pat_completeness auto
termination
  by (relation "measure (\<lambda>(_, _, s). length s)") auto

definition decodeXml :: "string \<Rightarrow> string" where
  "decodeXml v =
     replace_all ''&amp;'' ''&'' (replace_all ''&apos;'' [apostrophe] (replace_all ''&quot;'' [quote]
       (replace_all ''&gt;'' ''>'' (replace_all ''&lt;'' ''<'' v))))"

text \<open>\<open>name="([^"]*)"\<close>: the first place where the pattern matches.\<close>

fun attr_match :: "string \<Rightarrow> string \<Rightarrow> string option" where
  "attr_match name [] = None"
| "attr_match name (c # s) =
     (let start = name @ ''='' @ [quote]; rest = drop (length start) (c # s) in
      if starts_with start (c # s) \<and> quote \<in> set rest then Some (takeWhile (\<lambda>x. x \<noteq> quote) rest)
      else attr_match name s)"

definition attr :: "string \<Rightarrow> string \<Rightarrow> string" where
  "attr tag name = (case attr_match name tag of Some v \<Rightarrow> decodeXml v | None \<Rightarrow> '''')"

text \<open>
  \<open><testsuite\s([^>]*)>([\s\S]*?)</testsuite>\<close> at the front of a text: attributes, body and what follows.
\<close>

definition suite_here :: "string \<Rightarrow> (string \<times> string \<times> string) option" where
  "suite_here s =
     (let r = drop (length ''<testsuite'') s in
      if starts_with ''<testsuite'' s \<and> r \<noteq> [] \<and> is_space (hd r)
      then (case split_first ''>'' (tl r) of
          None \<Rightarrow> None
        | Some (attrs, r') \<Rightarrow> map_option (\<lambda>(body, rest). (attrs, body, rest)) (split_first ''</testsuite>'' r'))
      else None)"

text \<open>
  \<open><testcase\s([^>]*?)(/>|>([\s\S]*?)</testcase>)\<close> at the front of a text: the attributes end at the first
  \<open>/>\<close> or \<open>>\<close>, whichever comes first. A self-closing case has no body.
\<close>

fun case_attrs :: "string \<Rightarrow> (string \<times> string option \<times> string) option" where
  "case_attrs [] = None"
| "case_attrs (c # r) =
     (if starts_with ''/>'' (c # r) then Some ('''', None, drop 2 (c # r))
      else if c = CHR ''>'' then map_option (\<lambda>(body, rest). ('''', Some body, rest)) (split_first ''</testcase>'' r)
      else map_option (\<lambda>(attrs, body, rest). (c # attrs, body, rest)) (case_attrs r))"

definition case_here :: "string \<Rightarrow> (string \<times> string option \<times> string) option" where
  "case_here s =
     (let r = drop (length ''<testcase'') s in
      if starts_with ''<testcase'' s \<and> r \<noteq> [] \<and> is_space (hd r) then case_attrs (tl r) else None)"

lemma split_first_parts: "split_first pat s = Some (b, a) \<Longrightarrow> \<exists>m. s = b @ m @ a"
proof (induction s arbitrary: b a)
  case (Cons c s)
  show ?case
  proof (cases "starts_with pat (c # s)")
    case True
    then show ?thesis
      using Cons.prems append_take_drop_id [of "length pat" "c # s"] by (metis append_Nil option.inject prod.inject split_first.simps(2))
  next
    case False
    then obtain b' where "split_first pat s = Some (b', a)" "b = c # b'"
      using Cons.prems by auto
    then show ?thesis using Cons.IH by fastforce
  qed
qed simp

lemma split_first_shorter: "split_first pat s = Some (b, a) \<Longrightarrow> length a \<le> length s"
  using split_first_parts by fastforce

lemma case_attrs_shorter: "case_attrs s = Some (a, b, r) \<Longrightarrow> length r \<le> length s"
proof (induction s arbitrary: a b r)
  case (Cons c s)
  then show ?case
    by (auto split: if_splits dest: split_first_shorter intro: le_SucI)
qed simp

lemma tail_shorter: "drop k s \<noteq> [] \<Longrightarrow> length (tl (drop k s)) < length s"
  by simp

lemma suite_here_shorter:
  assumes "suite_here s = Some (a, b, r)"
  shows "length r < length s"
proof -
  obtain k r' where r': "drop k s \<noteq> []" "split_first ''>'' (tl (drop k s)) = Some (a, r')"
    "split_first ''</testsuite>'' r' = Some (b, r)"
    using assms unfolding suite_here_def Let_def
    by (auto split: if_splits option.splits simp del: list.size drop_eq_Nil)
  have "length r \<le> length (tl (drop k s))"
    using split_first_shorter [OF r'(2)] split_first_shorter [OF r'(3)] by (rule order_trans [rotated])
  then show ?thesis using tail_shorter [OF r'(1)] by (rule le_less_trans)
qed

lemma case_here_shorter:
  assumes "case_here s = Some (a, b, r)"
  shows "length r < length s"
proof -
  obtain k where k: "drop k s \<noteq> []" "case_attrs (tl (drop k s)) = Some (a, b, r)"
    using assms unfolding case_here_def Let_def
    by (auto split: if_splits simp del: list.size drop_eq_Nil)
  show ?thesis using case_attrs_shorter [OF k(2)] tail_shorter [OF k(1)] by (rule le_less_trans)
qed

text \<open>\<open>matchAll\<close>: matches from left to right, each search starting where the last match ended.\<close>

function suites_of :: "string \<Rightarrow> (string \<times> string) list" where
  "suites_of s = (if s = [] then [] else
     case suite_here s of Some (attrs, body, rest) \<Rightarrow> (attrs, body) # suites_of rest | None \<Rightarrow> suites_of (tl s))"
  by pat_completeness auto
termination
  by (relation "measure length") (auto dest: suite_here_shorter)

function cases_of :: "string \<Rightarrow> (string \<times> string option) list" where
  "cases_of s = (if s = [] then [] else
     case case_here s of Some (attrs, body, rest) \<Rightarrow> (attrs, body) # cases_of rest | None \<Rightarrow> cases_of (tl s))"
  by pat_completeness auto
termination
  by (relation "measure length") (auto dest: case_here_shorter)

declare suites_of.simps [simp del] cases_of.simps [simp del]

definition contains :: "string \<Rightarrow> string \<Rightarrow> bool" where
  "contains pat s \<longleftrightarrow> split_first pat s \<noteq> None"

definition junit_test :: "string \<Rightarrow> string \<times> string option \<Rightarrow> formatted_test" where
  "junit_test consoleOutput testcase =
     (let caseAttrs = fst testcase;
          caseBody = (case snd testcase of Some body \<Rightarrow> body | None \<Rightarrow> '''');
          name = attr caseAttrs ''name'';
          classname = attr caseAttrs ''classname'';
          failed = contains ''<failure'' caseBody;
          skipped = contains ''<skipped'' caseBody
      in \<lparr>ft_name = name, ft_fullName = (if classname \<noteq> '''' then classname @ '' > '' @ name else name),
          ft_state = (if failed then FailedTest else if skipped then Skipped else Passed),
          ft_errors = (if failed then Some [trim_or consoleOutput ''test failed''] else None)\<rparr>)"

definition junit_suite :: "string \<Rightarrow> string \<Rightarrow> string \<times> string \<Rightarrow> module_result" where
  "junit_suite repoRoot consoleOutput suite =
     (let file = (if attr (fst suite) ''file'' \<noteq> '''' then attr (fst suite) ''file'' else attr (fst suite) ''name'')
      in \<lparr>mr_moduleId = path_join_all repoRoot [file],
          mr_tests = map (junit_test consoleOutput) (cases_of (snd suite))\<rparr>)"

definition any_failed :: "module_result list \<Rightarrow> bool" where
  "any_failed modules \<longleftrightarrow> list_ex (\<lambda>m. list_ex (\<lambda>t. ft_state t = FailedTest) (mr_tests m)) modules"

definition parseJunit :: "string \<Rightarrow> string \<Rightarrow> string \<Rightarrow> test_run_output" where
  "parseJunit repoRoot xml consoleOutput =
     (let testModules = map (junit_suite repoRoot consoleOutput) (suites_of xml)
      in \<lparr>tr_testModules = testModules, tr_passed = (\<not> any_failed testModules)\<rparr>)"

section \<open>The report\<close>

definition report_of :: "string \<Rightarrow> test_run \<Rightarrow> test_run_output" where
  "report_of repoRoot r =
     (let result = (if trim (tn_junit r) = '''' then loadFailure (tn_output r)
                    else parseJunit repoRoot (tn_junit r) (tn_output r)) in
      if tn_exitCode r \<noteq> 0 \<and> \<not> any_failed (tr_testModules result)
      then \<lparr>tr_testModules = tr_testModules result @ [load_failure_module (tn_output r)], tr_passed = False\<rparr>
      else result)"

definition state_string :: "test_state \<Rightarrow> string" where
  "state_string t = (case t of Passed \<Rightarrow> ''passed'' | FailedTest \<Rightarrow> ''failed'' | Skipped \<Rightarrow> ''skipped'')"

definition test_doc :: "formatted_test \<Rightarrow> doc" where
  "test_doc t = DRec
     ([(''name'', DText (ft_name t)), (''fullName'', DText (ft_fullName t)),
       (''state'', DText (state_string (ft_state t)))]
      @ (case ft_errors t of None \<Rightarrow> []
         | Some messages \<Rightarrow> [(''errors'', DList (map (\<lambda>m. DRec [(''message'', DText m)]) messages))]))"

definition report_doc :: "test_run_output \<Rightarrow> doc" where
  "report_doc r = DRec
     [(''testModules'', DList (map (\<lambda>m. DRec [(''moduleId'', DText (mr_moduleId m)),
         (''tests'', DList (map test_doc (mr_tests m)))]) (tr_testModules r))),
      (''unhandledErrors'', DList []),
      (''reason'', DText (if tr_passed r then ''passed'' else ''failed''))]"

definition report_main ::
    "'o env \<Rightarrow> string \<Rightarrow> string \<Rightarrow> string list \<Rightarrow> ('o world terminal, nat) io" where
  "report_main env platform repoRoot argv =
     io_bind (quietly (runTests env platform repoRoot (drop 2 argv))) (\<lambda>r.
     io_seq (console_log (tn_output r))
     (let result = report_of repoRoot r;
          path = resolve (en_cwd env) (OUT_PATH repoRoot);
          failures = filter (\<lambda>t. ft_state t = FailedTest) (concat (map mr_tests (tr_testModules result))) in
      io_seq (quietly (on_fs (mkdirp (butlast path))))
      (io_seq (quietly (on_fs (write_file path (byte_text (utf8_encode (stringify (report_doc result)))))))
      (io_seq (console_log (''tdd-report: '' @ nat_string (length (tr_testModules result)) @ '' module(s), ''
                 @ nat_string (length failures) @ '' failing -> '' @ OUT_PATH repoRoot))
        (io_return (if tr_passed result then 0 else 1))))))"

section \<open>Properties\<close>




text \<open>
  The pattern for \<open>name\<close> also matches inside \<open>classname\<close>: with the class name first, the test is
  reported under the name of its class.
\<close>

lemma attr_inside_classname:
  "attr (''classname='' @ [quote] @ ''suite'' @ [quote] @ '' name='' @ [quote] @ ''case'' @ [quote]) ''name'' = ''suite''"
  by code_simp

end
