(* ===== verification/Spec2Isabelle.thy ===== *)
theory Spec2Isabelle
  imports EnumerationProperties CrashPoints Sample Dedup Durability Query Careful UnsafeKv Cli Driver Experiment
    ExplosionReport Report
begin

text \<open>
  A model of crashfuzz, the crash-consistency fuzzer under \<open>src/core\<close>, with its correctness properties.

  \<^bold>\<open>The program.\<close> A C shim records the file operations of an application as a trace of JSON lines. The
  program reads the trace, computes the states in which a crash may leave the disk under a persistence
  model of the file system, replays each sampled state into a file-system image, lets the application
  recover it, and compares what recovery sees with what the application acknowledged as durable.
  Violations are grouped by signature and packaged as reproducers.

  \<^bold>\<open>Theories and sources\<close> (paths below \<open>src/core\<close>).

  The JavaScript library the program uses: \<open>Prelude\<close>, \<open>Effects\<close> and \<open>Total\<close> (results, statements that
  change a state and may throw, and their total correctness), \<open>JsNumber\<close> (32-bit operators, doubles, \<open>slice\<close>), \<open>JsString\<close>, \<open>JsNumeric\<close> (\<open>Number\<close>),
  \<open>JsCollections\<close> (\<open>Map\<close> and \<open>Set\<close> in insertion order, with the locale \<open>ordered_map\<close> interpreted on them),
  \<open>Json\<close> (\<open>JSON.parse\<close>), \<open>JsonText\<close> (\<open>JSON.stringify\<close>), \<open>Paths\<close> (\<open>node:path\<close>), \<open>FileSystem\<close> (\<open>node:fs\<close> on a
  tree with hard links and error codes), \<open>FileTree\<close> (its abstract view), \<open>Sha256\<close>, \<open>Console\<close>.

  \<^item> \<open>Trace\<close>, \<open>Reader\<close>: \<open>src/trace/reader.ts\<close>, the records and \<open>parseTrace\<close>.
  \<^item> \<open>Replay\<close>: \<open>src/trace/replay.ts\<close>; \<open>ReplayStore\<close> holds its abstract key-value store.
  \<^item> \<open>Models\<close>: \<open>src/graph/models.ts\<close>.
  \<^item> \<open>States\<close>: \<open>src/enumerate/states.ts\<close>, loop by loop; the two loops over the events throw where they read past
    the end (\<open>each_event\<close>), and what they return inside the trace is named by \<open>pinned_ops\<close>, \<open>free_ops\<close> and the
    functions after them. \<open>EnumerationFacts\<close> reads the loops as sets, \<open>Legality\<close>
    states the specification without them, \<open>Enumeration\<close> and \<open>EnumerationProperties\<close> relate the two.
  \<^item> \<open>Hash\<close>, \<open>CrashPoints\<close>: \<open>src/enumerate/crash-points.ts\<close>; \<open>Sample\<close>: \<open>src/enumerate/sample.ts\<close>;
    \<open>Bounds\<close>: \<open>src/enumerate/bounds.ts\<close>; \<open>ShippedBounds\<close>: the two values of \<open>bounds.jsonc\<close> the enumerator reads.
  \<^item> \<open>AckLog\<close>: \<open>src/oracle/acklog.ts\<close>, and the marker lines of a driver's operation as
    \<open>src/targets/redb-workload/src/workload.rs\<close> writes them; \<open>Oracle\<close>: \<open>src/oracle/oracle.ts\<close>; \<open>Dedup\<close>: \<open>src/oracle/dedup.ts\<close>;
    \<open>Recover\<close>: \<open>src/oracle/recover.ts\<close>; \<open>Templates\<close>, \<open>Reproducer\<close>: \<open>src/oracle/reproducer.ts\<close>.
  \<^item> \<open>Image\<close>: \<open>src/image/image.ts\<close>. \<open>Campaign\<close>, \<open>Targets\<close>, \<open>Sweep\<close>: the files of \<open>src/campaign\<close>.
  \<^item> \<open>Cli\<close>: \<open>src/index.ts\<close>. \<open>Driver\<close>: \<open>tools/campaign-run.ts\<close>; \<open>Experiment\<close>:
    \<open>tools/ftruncate-vs-overwrite.ts\<close>; \<open>StateExplosion\<close> (measurements), \<open>ExplosionReport\<close> (outputs and \<open>main\<close>):
    \<open>tools/state-explosion.ts\<close>; \<open>Report\<close>: \<open>tools/tdd-report.ts\<close>.
  \<^item> \<open>Durability\<close> and \<open>FileStore\<close> compose the enumerator with the replayer, and these with recovery and oracle;
    \<open>Progress\<close> composes all of them: a campaign on a working machine comes to its end.
  \<^item> \<open>Machine\<close> states the block layer (\<open>mkfs\<close>, \<open>losetup\<close>, \<open>mount\<close>, \<open>umount\<close>) as the locale \<open>block_machine\<close>: a formatted
    image has no files, a mount shows the files of the image, an unmount writes them back. \<open>Ram\<close> is a block
    layer in memory on which the locale is interpreted, with a disk to run campaigns on. \<open>Verdict\<close> shows what
    a campaign over such a machine computes, \<open>Query\<close> the same for targets that recover through a query tool
    (locale \<open>query_machine\<close>, which extends \<open>block_machine\<close>), \<open>Careful\<close> that a careful application is not accused,
    \<open>Detect\<close> which lost promises no sampling can hide.
  \<^item> \<open>UnsafeKv\<close>: the positive control, \<open>src/targets/unsafe-kv/main.c\<close>, as the calls it makes, and the part of
    \<open>src/shim/src/shim.c\<close> that records them, down to the text of the trace file.

  Names are those of the sources where HOL leaves them free. Records carry a two-letter prefix on their
  fields; a thrown error is \<open>Inl\<close> of \<open>js_error\<close>; a statement is a function from a state to a result and
  the next state, kept after an error because \<open>finally\<close> blocks run on it.

  \<^bold>\<open>What the lemmas show.\<close>

  \<^item> Enumeration: the output is exactly the set of legal crash states, without repetition, for reordering and
    for total-order models; operations made durable by a returned persistence call are in every state;
    the untorn states are the reachable states of a write-back machine; states have the shape their
    consumers rely on; the size of the space; the one error; the wrap-around of the subset loop.
  \<^item> Selection and sampling: which crash points and how many states, independently of the others.
  \<^item> Reader and acknowledgement log: round trips with what the shim and the drivers write, in any
    interleaving of the records of several processes and of the markers of several threads. The comment
    stripper keeps everything of a text but its comments.
  \<^item> Replay and images: replay refines a key-value store, synced content survives in every enumerated state,
    mounts are undone on every path.
  \<^item> Oracle, recovery, campaign: the oracle is complete and sound for its contract, findings are distinct and
    their counts add up. A campaign returns exactly if its files can be read and its sampled states can be
    tested one after the other (\<open>tests\<close>), and reports the findings of those tests; on a machine whose
    programs succeed it does return.
  \<^item> The whole pipeline: over a block layer that behaves as documented, the findings are a pure
    function of trace, bounds and payloads (\<open>state_content\<close> and \<open>state_recovery\<close>, or the report of a query tool);
    for the file store there are none exactly if every sampled state keeps every promise, and none for an
    application that syncs before it acknowledges. At every selected crash point the state with only the
    durable operations and the state with all of them are tested, whatever the seed and the caps, so that a
    promise with no durable operation on its file is always reported; the unsafe store is an instance, from
    its system calls to the finding.
  \<^item> Packages and reports: the packaged prefix, the JSON files and the shell script say what was found; a test
    report is green only for a green run.

  \<^bold>\<open>Bounds.\<close> Loops over lists and characters are structural recursion; the comment stripper is
  the index loop of the source (\<open>strip_at\<close> and \<open>skip_comment\<close>), which ends because the index grows. The lexer of \<open>Json\<close> and the scanners of \<open>Report\<close> are total by the length of the rest. No fuel is
  used except for \<open>hash_blocks\<close>, whose fuel is the number of blocks. The subset loop of the enumerator is
  the loop over \<open>1 << n\<close> at 32 bits; properties on its exactness ask for windows of at most 30 operations,
  and the shipped window is 8. Doubles are modelled where the program reads or hashes numbers: integers
  are rounded to doubles, and the reader rejects as ill-typed what a TypeScript type assertion hides.

  \<^bold>\<open>Parameters.\<close> \<open>env\<close> stands for the programs that are spawned (\<open>mkfs\<close>, \<open>losetup\<close>, \<open>mount\<close>, \<open>umount\<close>, \<open>cargo\<close>, the
  query tools, \<open>limactl\<close>) and for the kernel behind a mount: a spawn may change the file tree and the rest of
  the machine in any way a hypothesis does not exclude. The hypotheses on it are \<open>working_machine\<close> (programs
  of the block layer succeed, and all programs keep to their files), \<open>block_machine\<close> and \<open>query_machine\<close>; a mounted directory may hold the directory \<open>lost+found\<close>
  of a fresh ext4 file system, and traced files are not called so. The recovery of a target is an argument of the
  campaign, as in the code. The working directory, the location of the repository, the platform and the
  clock are arguments, and so is how the runtime prints the double next to a real number, for the fitted
  exponents of \<open>tools/state-explosion.ts\<close>, which are exact reals in the model.

  \<^bold>\<open>Not modelled.\<close> The rounding of the logarithms in \<open>logLogSlope\<close>; the calls of the shim that the unsafe store does not make, forks and threads; the
  drivers of redb and SQLite (Rust, C) apart from their markers, the scripts of the virtual machine, plots and
  tests. A write at a negative offset, which no recorded call has.
  Strings are code units below 256; timestamps and digests are what the trace says. What the packaged
  \<open>run.sh\<close> does when bash runs it is modelled only as far as the value of its double-quoted build command
  (\<open>double_quoted\<close>: quoting, \<open>$name\<close> and \<open>${name}\<close>; no other expansion).
\<close>

end
